(* ===== verification/Prelude.thy ===== *)
theory Prelude
  imports Main "HOL-Library.Word" "HOL-Library.Monad_Syntax" "HOL-Library.Signed_Division"
begin

text \<open>
  Prelude of the development: the machine types of the C code, the memory blocks
  through which it reads and writes its structs, and the facts about words, bytes and
  options that every component shares.

  A struct of the code is a block of bytes: the code sends structs over sockets, stores
  them in a database and casts the bytes it gets back to a struct pointer. The layouts
  are those of gcc on x86-64 (little endian, 4-byte \<open>int\<close> and enum, 8-byte
  \<open>size_t\<close>, \<open>time_t\<close> and \<open>suseconds_t\<close>), with the padding of a struct
  that is not packed. Reading outside a block has no result (\<open>None\<close>).
\<close>

unbundle bit_operations_syntax

section \<open>Machine types and automation\<close>

type_synonym u8 = "8 word"
type_synonym u16 = "16 word"
type_synonym u32 = "32 word"
type_synonym u64 = "64 word"
type_synonym i32 = "32 word"
type_synonym i64 = "64 word"
type_synonym bytes = "u8 list"

text \<open>
  \<open>layout\<close> collects the equations that evaluate an encoder or a decoder, \<open>frame\<close>
  the facts that an operation leaves a field alone.
\<close>

named_theorems layout
named_theorems frame

section \<open>Pointers\<close>

text \<open>A pointer to an object that may be missing, or that was freed while still referenced.\<close>

datatype 'a ptr = NULL | Ptr 'a | Dangling

section \<open>Options\<close>

lemma bind_eq_Some_iff [simp]:
  "(Option.bind m f = Some y) = (\<exists>x. m = Some x \<and> f x = Some y)"
  by (cases m) auto

lemma bind_SomeE:
  assumes "Option.bind m f = Some y"
  obtains x where "m = Some x" "f x = Some y"
  using assms by auto

lemma if_Some_eq_Some [simp]: "((if b then Some x else None) = Some y) = (b \<and> x = y)"
  by simp

section \<open>Words\<close>

lemma bit_u32D: "bit (w :: u32) n \<Longrightarrow> n < 32"
  and bit_u64D: "bit (w' :: u64) n \<Longrightarrow> n < 64"
  using bit_imp_le_length [of w n] bit_imp_le_length [of w' n] by simp_all

lemma u32_bound: "uint (w :: u32) < 4294967296"
  and u64_bound: "uint (w' :: u64) < 18446744073709551616"
  using uint_bounded [of w] uint_bounded [of w'] by simp_all

lemma unat_bound: "unat (w :: 'a::len word) < 2 ^ LENGTH('a)"
  by (rule unsigned_less)

lemma unat_of_nat_small: "n < 2 ^ LENGTH('a) \<Longrightarrow> unat (of_nat n :: 'a::len word) = n"
  by (simp add: unsigned_of_nat take_bit_nat_eq_self)

lemma word_plus_1_eq_0_iff: "(w :: 'a::len word) + 1 = 0 \<longleftrightarrow> w = - 1"
  by (metis add.commute add_minus_cancel add_0_right minus_add_cancel right_minus)

lemma unat_plus_1: "(w :: 'a::len word) \<noteq> - 1 \<Longrightarrow> unat (w + 1) = unat w + 1"
  using unatSuc [of w] word_plus_1_eq_0_iff [of w] by (simp add: add.commute)

lemma uint_plus_1: "(w :: 'a::len word) \<noteq> - 1 \<Longrightarrow> uint (w + 1) = uint w + 1"
proof -
  assume "w \<noteq> - 1"
  then have "int (unat (w + 1)) = int (unat w) + 1" by (simp add: unat_plus_1)
  then show ?thesis by (simp only: uint_nat)
qed

lemma word_less_plus_1: "(w :: 'a::len word) \<noteq> - 1 \<Longrightarrow> w < w + 1"
  by (simp add: word_less_nat_alt unat_plus_1)

lemma word_plus_1_le: "(w :: 'a::len word) < v \<Longrightarrow> w + 1 \<le> v"
  by (rule inc_le)

lemma unat_distance_less: "(i :: 'a::len word) \<noteq> e \<Longrightarrow> unat (e - (i + 1)) < unat (e - i)"
  using measure_unat [of "e - i"] by (simp add: diff_diff_eq)

text \<open>\<open>__builtin_popcountl\<close>.\<close>

definition popcount :: "u64 \<Rightarrow> nat" where
  "popcount w = length (filter (bit w) [0..<64])"

definition bits :: "u64 \<Rightarrow> nat set" where
  "bits w = {n. bit w n}"

lemma bits_subset: "bits w \<subseteq> {..<64}"
  by (auto simp: bits_def dest: bit_u64D)

lemma finite_bits [simp]: "finite (bits w)"
  by (rule finite_subset [OF bits_subset]) simp

lemma popcount_card: "popcount w = card (bits w)"
proof -
  have "set (filter (bit w) [0..<64]) = bits w"
    by (auto simp: bits_def dest: bit_u64D)
  then show ?thesis
    unfolding popcount_def by (metis distinct_card distinct_filter distinct_upt)
qed

lemma bits_or [simp]: "bits (v OR w) = bits v \<union> bits w"
  by (auto simp: bits_def bit_simps)

lemma popcount_mono: "bits v \<subseteq> bits w \<Longrightarrow> popcount v \<le> popcount w"
  by (simp add: popcount_card card_mono)

section \<open>Little-endian words in memory\<close>

fun le :: "nat \<Rightarrow> 'a::len word \<Rightarrow> bytes" where
  "le 0 w = []"
| "le (Suc n) w = ucast w # le n (drop_bit 8 w)"

fun of_le :: "bytes \<Rightarrow> 'a::len word" where
  "of_le [] = 0"
| "of_le (b # bs) = ucast b OR push_bit 8 (of_le bs)"

definition ld :: "nat \<Rightarrow> nat \<Rightarrow> bytes \<Rightarrow> 'a::len word option" where
  "ld n off blk = (if off + n \<le> length blk then Some (of_le (take n (drop off blk))) else None)"

definition ld_bytes :: "nat \<Rightarrow> nat \<Rightarrow> bytes \<Rightarrow> bytes option" where
  "ld_bytes n off blk = (if off + n \<le> length blk then Some (take n (drop off blk)) else None)"

lemma length_le [simp, layout]: "length (le n w) = n"
  by (induction n arbitrary: w) auto

lemma of_le_le: "of_le (le n w) = (take_bit (8 * n) w :: 'a::len word)"
proof (induction n arbitrary: w)
  case 0
  then show ?case by simp
next
  case (Suc n)
  show ?case
    by (rule bit_word_eqI)
      (auto simp: Suc bit_simps)
qed

lemma of_le_le4 [simp]: "of_le (le 4 (w :: u32)) = w"
  by (simp add: of_le_le take_bit_word_eq_self)

lemma of_le_le8 [simp]: "of_le (le 8 (w :: u64)) = w"
  by (simp add: of_le_le take_bit_word_eq_self)

lemma of_le_le1 [simp]: "of_le (le 1 (w :: u8)) = w"
  by (simp add: of_le_le take_bit_word_eq_self)

lemma ld_here [layout]: "ld n 0 (le n w @ rest) = Some (of_le (le n w))"
  by (simp add: ld_def)

lemma ld_here_nil [layout]: "ld n 0 (le n w) = Some (of_le (le n w))"
  by (simp add: ld_def)

lemma ld_skip [layout]: "length xs \<le> off \<Longrightarrow> ld n off (xs @ rest) = ld n (off - length xs) rest"
  by (auto simp: ld_def)

lemma ld_Cons [layout]: "0 < off \<Longrightarrow> ld n off (b # rest) = ld n (off - 1) rest"
  by (cases off) (auto simp: ld_def)

lemma ld_byte_here [layout]: "ld (Suc 0) 0 (b # rest) = Some (b :: u8)"
  by (simp add: ld_def)

lemma ld_bytes_skip [layout]:
  "length xs \<le> off \<Longrightarrow> ld_bytes n off (xs @ rest) = ld_bytes n (off - length xs) rest"
  by (auto simp: ld_bytes_def)

lemma ld_bytes_here [layout]: "length xs = n \<Longrightarrow> ld_bytes n 0 (xs @ rest) = Some xs"
  by (simp add: ld_bytes_def)

lemma ld_bytes_all [layout]: "length xs = n \<Longrightarrow> ld_bytes n 0 xs = Some xs"
  by (simp add: ld_bytes_def)

lemma ld_None_iff: "(ld n off blk = None) = (length blk < off + n)"
  by (auto simp: ld_def)

lemma ld_Some_ex: "off + n \<le> length blk \<Longrightarrow> \<exists>w. ld n off blk = Some w"
  by (simp add: ld_def)

lemma ld_bytes_Some_length: "ld_bytes n off blk = Some xs \<Longrightarrow> length xs = n"
  by (auto simp: ld_bytes_def split: if_splits)

lemma drop_le [layout]: "n = m \<Longrightarrow> drop n (le m w @ rest) = rest"
  by simp

text \<open>
  The interface of every struct the code sends or stores: an encoder, a decoder that
  reads the struct at the start of a block, and the values for which the encoding is
  faithful (a length field that agrees with the data behind it).
\<close>

locale codec =
  fixes ok :: "'a \<Rightarrow> bool"
    and enc :: "'a \<Rightarrow> bytes"
    and dec :: "bytes \<Rightarrow> 'a option"
  assumes dec_enc_append: "ok x \<Longrightarrow> dec (enc x @ rest) = Some x"
begin

lemma dec_enc: "ok x \<Longrightarrow> dec (enc x) = Some x"
  using dec_enc_append [of x "[]"] by simp

lemma enc_prefix_free:
  assumes "ok x" "ok y" "enc x @ rest = enc y @ rest'"
  shows "x = y"
  using assms dec_enc_append [of x rest] dec_enc_append [of y rest'] by simp

lemma enc_inj: "ok x \<Longrightarrow> ok y \<Longrightarrow> enc x = enc y \<Longrightarrow> x = y"
  using enc_prefix_free [of x y "[]" "[]"] by simp

lemma enc_inj_on: "inj_on enc (Collect ok)"
  by (rule inj_onI) (auto intro: enc_inj)

end

end
