(* ===== verification/Common.thy ===== *)
theory Common
  imports Prelude
begin

text \<open>
  \<open>src/src/util/common-structure.c\<close> and its header: views, view stamps, their 64-bit
  database keys (\<open>vstol\<close>, \<open>ltovs\<close>) and times. A view stamp orders requests: first
  by view, then by request number. Times are the signed 64-bit fields of
  \<open>struct timeval\<close>.
\<close>

section \<open>Data\<close>

type_synonym node_id_t = i64
type_synonym req_id_t = u32
type_synonym view_id_t = u32

record view =
  v_view_id :: view_id_t
  v_leader_id :: node_id_t
  v_req_id :: req_id_t

record view_stamp =
  vs_view_id :: view_id_t
  vs_req_id :: req_id_t

record timeval =
  tv_sec :: i64
  tv_usec :: i64

type_synonym db_key_type = u64

abbreviation VS :: "view_id_t \<Rightarrow> req_id_t \<Rightarrow> view_stamp" where
  "VS v r \<equiv> \<lparr>vs_view_id = v, vs_req_id = r\<rparr>"

section \<open>View stamps and keys\<close>

definition view_stamp_comp :: "view_stamp \<Rightarrow> view_stamp \<Rightarrow> int" where
  "view_stamp_comp op1 op2 =
     (if vs_view_id op1 < vs_view_id op2 then - 1
      else if vs_view_id op1 > vs_view_id op2 then 1
      else if vs_req_id op1 > vs_req_id op2 then 1
      else if vs_req_id op1 < vs_req_id op2 then - 1
      else 0)"

definition viewtol :: "view_id_t \<Rightarrow> u64" where
  "viewtol v_id = ucast v_id"

definition ltoview :: "u64 \<Rightarrow> view_id_t" where
  "ltoview vl = ucast vl"

definition vstol :: "view_stamp \<Rightarrow> u64" where
  "vstol vs =
     (let result = (ucast (vs_req_id vs) :: u64) AND 0xFFFFFFFF;
          temp = (ucast (vs_view_id vs) :: u64) AND 0xFFFFFFFF
      in result + push_bit 32 temp)"

definition ltovs :: "u64 \<Rightarrow> view_stamp" where
  "ltovs record_no =
     (let temp = record_no AND 0x00000000FFFFFFFF
      in \<lparr>vs_view_id = ucast (drop_bit 32 record_no AND 0x00000000FFFFFFFF),
          vs_req_id = ucast temp\<rparr>)"

section \<open>Times\<close>

definition timeval_comp :: "timeval \<Rightarrow> timeval \<Rightarrow> int" where
  "timeval_comp op1 op2 =
     (if tv_sec op2 <s tv_sec op1 then 1
      else if tv_sec op1 = tv_sec op2 \<and> tv_usec op2 <s tv_usec op1 then 1
      else if tv_sec op1 = tv_sec op2 \<and> tv_usec op1 = tv_usec op2 then 0
      else - 1)"

definition timeval_add :: "timeval \<Rightarrow> timeval \<Rightarrow> timeval" where
  "timeval_add op1 op2 =
     \<lparr>tv_sec = tv_sec op1 + tv_sec op2, tv_usec = tv_usec op1 + tv_usec op2\<rparr>"

section \<open>View stamps as a linear order\<close>

instantiation view_stamp_ext :: (linorder) linorder
begin

definition less_eq_view_stamp_ext :: "'a view_stamp_ext \<Rightarrow> 'a view_stamp_ext \<Rightarrow> bool" where
  "less_eq_view_stamp_ext a b \<longleftrightarrow>
     vs_view_id a < vs_view_id b \<or> vs_view_id a = vs_view_id b \<and>
       (vs_req_id a < vs_req_id b \<or>
        vs_req_id a = vs_req_id b \<and> view_stamp.more a \<le> view_stamp.more b)"

definition less_view_stamp_ext :: "'a view_stamp_ext \<Rightarrow> 'a view_stamp_ext \<Rightarrow> bool" where
  "less_view_stamp_ext a b \<longleftrightarrow> a \<le> b \<and> \<not> b \<le> (a :: 'a view_stamp_ext)"

instance
  by standard (auto simp: less_eq_view_stamp_ext_def less_view_stamp_ext_def
      intro: view_stamp.equality)

end

lemma vs_le_iff:
  "(a :: view_stamp) \<le> b \<longleftrightarrow>
     vs_view_id a < vs_view_id b \<or> vs_view_id a = vs_view_id b \<and> vs_req_id a \<le> vs_req_id b"
  by (auto simp: less_eq_view_stamp_ext_def)

lemma vs_less_iff:
  "(a :: view_stamp) < b \<longleftrightarrow>
     vs_view_id a < vs_view_id b \<or> vs_view_id a = vs_view_id b \<and> vs_req_id a < vs_req_id b"
  by (auto simp: less_view_stamp_ext_def less_eq_view_stamp_ext_def)

lemma view_stamp_comp_sgn:
  "view_stamp_comp a b = (if a < b then - 1 else if a = b then 0 else 1)"
  by (auto simp: view_stamp_comp_def vs_less_iff intro: view_stamp.equality)

lemma view_stamp_comp_le_0 [simp]: "view_stamp_comp a b \<le> 0 \<longleftrightarrow> a \<le> b"
  and view_stamp_comp_less_0 [simp]: "view_stamp_comp a b < 0 \<longleftrightarrow> a < b"
  and view_stamp_comp_gt_0 [simp]: "0 < view_stamp_comp a b \<longleftrightarrow> b < a"
  and view_stamp_comp_ge_0 [simp]: "0 \<le> view_stamp_comp a b \<longleftrightarrow> b \<le> a"
  and view_stamp_comp_eq_0 [simp]: "view_stamp_comp a b = 0 \<longleftrightarrow> a = b"
  by (auto simp: view_stamp_comp_sgn)

section \<open>Keys encode view stamps\<close>

lemma low_mask: "(w :: u64) AND 0xFFFFFFFF = take_bit 32 w"
  by (simp add: take_bit_eq_mask mask_eq_exp_minus_1)

lemma take_bit_ucast32 [simp]: "take_bit 32 (ucast (w :: u32) :: u64) = ucast w"
  by (rule bit_word_eqI) (auto simp: bit_simps dest: bit_u32D)

lemma vstol_alt: "vstol vs = ucast (vs_req_id vs) OR push_bit 32 (ucast (vs_view_id vs))"
proof -
  have "(ucast (vs_req_id vs) :: u64) AND push_bit 32 (ucast (vs_view_id vs)) = 0"
    by (rule bit_word_eqI) (auto simp: bit_simps dest: bit_u32D)
  then show ?thesis
    by (simp add: vstol_def low_mask disjunctive_add_eq_or)
qed

lemma bit_vstol:
  "bit (vstol vs) n = (if n < 32 then bit (vs_req_id vs) n else n < 64 \<and> bit (vs_view_id vs) (n - 32))"
  by (auto simp: vstol_alt bit_simps dest: bit_u32D)

lemma uint_ucast32 [simp]: "uint (ucast (w :: u32) :: u64) = uint w"
  using u32_bound [of w] by (simp add: unsigned_ucast_eq take_bit_eq_mod)

lemma uint_vstol: "uint (vstol vs) = uint (vs_req_id vs) + uint (vs_view_id vs) * 4294967296"
proof -
  have p: "uint (push_bit 32 (ucast w) :: u64) = uint w * 4294967296" for w :: u32
    using u32_bound [of w]
    by (simp only: unsigned_push_bit_eq uint_ucast32) (simp add: push_bit_eq_mult take_bit_eq_mod)
  have "uint (vs_req_id vs) + uint (vs_view_id vs) * 4294967296 < 18446744073709551616"
    using u32_bound [of "vs_req_id vs"] u32_bound [of "vs_view_id vs"] by linarith
  then show ?thesis
    by (simp add: vstol_def low_mask uint_word_ariths p)
qed

lemma ltovs_vstol [simp]: "ltovs (vstol vs) = vs"
  by (rule view_stamp.equality)
     (auto intro!: bit_word_eqI simp: ltovs_def low_mask bit_simps bit_vstol dest: bit_u32D)

lemma vstol_ltovs [simp]: "vstol (ltovs k) = k"
  by (rule bit_word_eqI) (auto simp: ltovs_def low_mask bit_simps bit_vstol)

lemma vstol_eq_iff [simp]: "vstol a = vstol b \<longleftrightarrow> a = b"
  by (metis ltovs_vstol)

lemma key_order:
  fixes a b c d :: int
  assumes "0 \<le> a" "a < 4294967296" "0 \<le> b" "b < 4294967296"
  shows "a + c * 4294967296 \<le> b + d * 4294967296 \<longleftrightarrow> c < d \<or> c = d \<and> a \<le> b"
proof (cases c d rule: linorder_cases)
  case less
  then have "c + 1 \<le> d" by simp
  with assms have "a + c * 4294967296 \<le> b + d * 4294967296" by linarith
  with less show ?thesis by simp
next
  case equal
  then show ?thesis by simp
next
  case greater
  then have "d + 1 \<le> c" by simp
  with assms have "\<not> a + c * 4294967296 \<le> b + d * 4294967296" by linarith
  with greater show ?thesis by simp
qed

lemma vstol_le_iff [simp]: "vstol a \<le> vstol b \<longleftrightarrow> a \<le> b"
  by (simp add: word_le_def uint_vstol key_order u32_bound vs_le_iff word_less_def word_uint_eq_iff)

lemma vstol_less_iff [simp]: "vstol a < vstol b \<longleftrightarrow> a < b"
  by (metis vstol_le_iff vstol_eq_iff order.strict_iff_order)

lemma ltovs_le_iff [simp]: "ltovs k \<le> ltovs l \<longleftrightarrow> k \<le> l"
  by (metis vstol_le_iff vstol_ltovs)

lemma vstol_Suc: "vs_req_id vs \<noteq> - 1 \<Longrightarrow> vstol (vs\<lparr>vs_req_id := vs_req_id vs + 1\<rparr>) = vstol vs + 1"
proof -
  assume r: "vs_req_id vs \<noteq> - 1"
  then have "uint (vs_req_id vs) + 1 < 4294967296"
    using u32_bound [of "vs_req_id vs + 1"] by (simp add: uint_plus_1)
  then have "uint (vstol vs) + 1 < 18446744073709551616"
    using u32_bound [of "vs_view_id vs"] unfolding uint_vstol by linarith
  then have "uint (vstol vs + 1) = uint (vstol vs) + 1"
    by (simp add: uint_word_ariths)
  with r show ?thesis by (simp add: word_uint_eq_iff uint_vstol uint_plus_1)
qed

text \<open>The 64-bit record numbers and the view stamps stand for each other one to one, and
  comparing two numbers gives the same as \<open>view_stamp_comp\<close> on the stamps.\<close>

lemma keys_are_stamps:
  "ltovs (vstol a) = a \<and> vstol (ltovs k) = k \<and>
   (view_stamp_comp a b < 0 \<longleftrightarrow> vstol a < vstol b) \<and> (view_stamp_comp a b = 0 \<longleftrightarrow> vstol a = vstol b)"
  by simp

end
