(* ===== verification/Db.thy ===== *)
theory Db
  imports Common
begin

text \<open>
  \<open>src/src/db/db-interface.c\<close>: the record store over Berkeley DB, and the environment
  the whole program runs in.

  Berkeley DB, the allocator and the clock are not code of the repository: they are the
  fields of the parameter \<open>'d env\<close> that every operation takes, and \<open>'d\<close> is the state of
  the database environment in \<open>./.db\<close>, which all handles of the process share. What the code
  relies on is stated by \<open>bdb_contract\<close> and \<open>malloc_contract\<close>. Every caller
  passes a \<open>db_key_type\<close> as the key, so key pointer and key size are one 64-bit key here.
  Error logging is left out.
\<close>

section \<open>The environment\<close>

record 'd env =
  malloc_usable :: "nat \<Rightarrow> nat option"
  junk :: "nat \<Rightarrow> u8"
  now :: timeval
  os_mkdir :: "string \<Rightarrow> int \<times> bool"
  bdb_env_create :: int
  bdb_env_open :: "string \<Rightarrow> int"
  bdb_create :: "u32 \<Rightarrow> int"
  bdb_open :: "'d \<Rightarrow> string \<Rightarrow> int \<times> 'd"
  bdb_close :: "'d \<Rightarrow> string \<Rightarrow> u32 \<Rightarrow> 'd"
  bdb_put :: "'d \<Rightarrow> string \<Rightarrow> db_key_type \<Rightarrow> bytes \<Rightarrow> int \<times> 'd"
  bdb_get :: "'d \<Rightarrow> string \<Rightarrow> db_key_type \<Rightarrow> int \<times> bytes"
  bdb_del :: "'d \<Rightarrow> string \<Rightarrow> db_key_type \<Rightarrow> int \<times> 'd"
  event_new_ok :: bool
  bufferevent_new_ok :: bool
  event_base_new_ok :: bool
  listener_bind_ok :: bool
  os_fopen :: "string \<Rightarrow> bool"

text \<open>
  \<open>malloc_usable E n\<close> is the number of bytes that \<open>malloc(n)\<close> really makes available
  (\<open>malloc_usable_size\<close> of the result), \<open>None\<close> if it returns \<open>NULL\<close>; \<open>junk\<close> is what
  memory holds that the program has not written. \<open>os_mkdir\<close> gives the return value and
  whether \<open>errno\<close> is \<open>EEXIST\<close>. The last fields say whether libevent's constructors and
  \<open>fopen\<close> return an object rather than \<open>NULL\<close>.
\<close>

definition malloc_contract :: "'d env \<Rightarrow> bool" where
  "malloc_contract E \<longleftrightarrow> (\<forall>n k. malloc_usable E n = Some k \<longrightarrow> n \<le> k)"

definition bdb_contract :: "'d env \<Rightarrow> bool" where
  "bdb_contract E \<longleftrightarrow>
     (\<forall>d b k v d'. bdb_put E d b k v = (0, d') \<longrightarrow> bdb_get E d' b k = (0, v)) \<and>
     (\<forall>d b k v r d' b' k'. bdb_put E d b k v = (r, d') \<and> (r \<noteq> 0 \<or> (b', k') \<noteq> (b, k)) \<longrightarrow>
        bdb_get E d' b' k' = bdb_get E d b' k') \<and>
     (\<forall>d b k d'. bdb_del E d b k = (0, d') \<longrightarrow> fst (bdb_get E d' b k) \<noteq> 0) \<and>
     (\<forall>d b k r d' b' k'. bdb_del E d b k = (r, d') \<and> (r \<noteq> 0 \<or> (b', k') \<noteq> (b, k)) \<longrightarrow>
        bdb_get E d' b' k' = bdb_get E d b' k')"

text \<open>
  A buffer obtained with \<open>malloc(n)\<close> and filled with \<open>content\<close> from its start: \<open>Some None\<close>
  when \<open>malloc\<close> returns \<open>NULL\<close>, no result when the writes leave the block.
\<close>

definition alloc_fill :: "'d env \<Rightarrow> nat \<Rightarrow> bytes \<Rightarrow> bytes option option" where
  "alloc_fill E n content =
     (case malloc_usable E n of
        None \<Rightarrow> Some None
      | Some k \<Rightarrow> if length content \<le> k then Some (Some content) else None)"

definition junk64 :: "'d env \<Rightarrow> nat \<Rightarrow> u64" where
  "junk64 E off = of_le (map (junk E) [off..<off + 8])"

definition junk32 :: "'d env \<Rightarrow> nat \<Rightarrow> u32" where
  "junk32 E off = of_le (map (junk E) [off..<off + 4])"

lemma alloc_fill_fits:
  "malloc_contract E \<Longrightarrow> malloc_usable E n \<noteq> None \<Longrightarrow> length content \<le> n \<Longrightarrow>
    alloc_fill E n content = Some (Some content)"
  by (cases "malloc_usable E n") (auto simp: alloc_fill_def malloc_contract_def dest: order_trans)

lemma bdb_put_same: "bdb_contract E \<Longrightarrow> bdb_put E d b k v = (0, d') \<Longrightarrow> bdb_get E d' b k = (0, v)"
  by (simp add: bdb_contract_def)

lemma bdb_put_frame:
  "bdb_contract E \<Longrightarrow> bdb_put E d b k v = (r, d') \<Longrightarrow> r \<noteq> 0 \<or> k' \<noteq> k \<Longrightarrow>
    bdb_get E d' b' k' = bdb_get E d b' k'"
  unfolding bdb_contract_def by (metis prod.inject)

lemma bdb_del_same:
  "bdb_contract E \<Longrightarrow> bdb_del E d b k = (0, d') \<Longrightarrow> fst (bdb_get E d' b k) \<noteq> 0"
  unfolding bdb_contract_def by metis

lemma bdb_del_frame:
  "bdb_contract E \<Longrightarrow> bdb_del E d b k = (r, d') \<Longrightarrow> k' \<noteq> k \<Longrightarrow>
    bdb_get E d' b' k' = bdb_get E d b' k'"
  unfolding bdb_contract_def by (metis prod.inject)

lemma alloc_fill_Some_SomeD: "alloc_fill E n content = Some (Some m) \<Longrightarrow> m = content"
  by (auto simp: alloc_fill_def split: option.splits if_splits)

section \<open>Handles and records\<close>

record db =
  bdb_ptr :: "string option"

definition db_dir :: string where
  "db_dir = ''./.db''"

definition mk_path :: "string \<Rightarrow> string \<Rightarrow> string" where
  "mk_path prefix db_name = prefix @ ''/'' @ db_name @ [CHR 0x00]"

definition initialize_db :: "'d env \<Rightarrow> string \<Rightarrow> u32 \<Rightarrow> 'd \<Rightarrow> (db option \<times> 'd) option" where
  "initialize_db E db_name flag d =
     (let (ret, exists) = os_mkdir E db_dir in
      if ret \<noteq> 0 \<and> \<not> exists then Some (None, d)
      else if malloc_usable E (length db_dir + length db_name + 2) = None then None
      else if bdb_env_create E \<noteq> 0 then None
      else if bdb_env_open E db_dir \<noteq> 0 then Some (None, d)
      else if bdb_create E flag \<noteq> 0 then Some (None, d)
      else (let (ret, d') = bdb_open E d db_name in
            if ret \<noteq> 0 then Some (None, d')
            else if malloc_usable E 8 = None then None
            else Some (Some \<lparr>bdb_ptr = Some db_name\<rparr>, d')))"

definition close_db :: "'d env \<Rightarrow> db option \<Rightarrow> u32 \<Rightarrow> 'd \<Rightarrow> 'd" where
  "close_db E db_p mode d =
     (case db_p of
        None \<Rightarrow> d
      | Some h \<Rightarrow> (case bdb_ptr h of None \<Rightarrow> d | Some b \<Rightarrow> bdb_close E d b mode))"

definition store_record ::
  "'d env \<Rightarrow> db option \<Rightarrow> db_key_type \<Rightarrow> bytes \<Rightarrow> 'd \<Rightarrow> int \<times> 'd" where
  "store_record E db_p key data d =
     (case db_p of
        None \<Rightarrow> (1, d)
      | Some h \<Rightarrow> (case bdb_ptr h of None \<Rightarrow> (1, d) | Some b \<Rightarrow> bdb_put E d b key data))"

text \<open>
  \<open>retrieve_record\<close> returns the error code and what it stores through its \<open>data\<close> pointer;
  \<open>None\<close> when it leaves the pointer as it was.
\<close>

definition retrieve_record ::
  "'d env \<Rightarrow> db option \<Rightarrow> db_key_type \<Rightarrow> 'd \<Rightarrow> int \<times> bytes option" where
  "retrieve_record E db_p key d =
     (case db_p of
        None \<Rightarrow> (1, None)
      | Some h \<Rightarrow>
          (case bdb_ptr h of
             None \<Rightarrow> (1, None)
           | Some b \<Rightarrow>
               (let (ret, data) = bdb_get E d b key in
                if ret \<noteq> 0 then (ret, None)
                else if length data = 0 then (ret, None)
                else (ret, Some data))))"

definition delete_record ::
  "'d env \<Rightarrow> db option \<Rightarrow> db_key_type \<Rightarrow> 'd \<Rightarrow> int \<times> 'd" where
  "delete_record E db_p key d =
     (case db_p of
        None \<Rightarrow> (1, d)
      | Some h \<Rightarrow> (case bdb_ptr h of None \<Rightarrow> (1, d) | Some b \<Rightarrow> bdb_del E d b key))"

section \<open>The store as its clients see it\<close>

locale record_store =
  fixes good :: "'e \<Rightarrow> bool"
    and store :: "'e \<Rightarrow> 'h \<Rightarrow> db_key_type \<Rightarrow> bytes \<Rightarrow> 'd \<Rightarrow> int \<times> 'd"
    and retrieve :: "'e \<Rightarrow> 'h \<Rightarrow> db_key_type \<Rightarrow> 'd \<Rightarrow> int \<times> bytes option"
    and delete :: "'e \<Rightarrow> 'h \<Rightarrow> db_key_type \<Rightarrow> 'd \<Rightarrow> int \<times> 'd"
  assumes retrieve_store:
      "good e \<Longrightarrow> store e h k v d = (0, d') \<Longrightarrow> v \<noteq> [] \<Longrightarrow> retrieve e h k d' = (0, Some v)"
    and retrieve_store_other:
      "good e \<Longrightarrow> store e h k v d = (r, d') \<Longrightarrow> k' \<noteq> k \<Longrightarrow> retrieve e h k' d' = retrieve e h k' d"
    and retrieve_store_failed:
      "good e \<Longrightarrow> store e h k v d = (r, d') \<Longrightarrow> r \<noteq> 0 \<Longrightarrow> retrieve e h k' d' = retrieve e h k' d"
    and retrieve_delete:
      "good e \<Longrightarrow> delete e h k d = (0, d') \<Longrightarrow> snd (retrieve e h k d') = None"
    and retrieve_delete_other:
      "good e \<Longrightarrow> delete e h k d = (r, d') \<Longrightarrow> k' \<noteq> k \<Longrightarrow> retrieve e h k' d' = retrieve e h k' d"
    and retrieve_error: "fst (retrieve e h k d) \<noteq> 0 \<Longrightarrow> snd (retrieve e h k d) = None"
begin

text \<open>What a client sees after a store: the stored value or what was there before.\<close>

lemma retrieve_after_store:
  assumes "good e" "store e h k v d = (r, d')" "v \<noteq> []"
  shows "retrieve e h k' d' = (if k' = k \<and> r = 0 then (0, Some v) else retrieve e h k' d)"
  using assms retrieve_store retrieve_store_other retrieve_store_failed by (cases "r = 0") auto

lemma store_keeps_present:
  assumes "good e" "store e h k v d = (r, d')" "v \<noteq> []" "snd (retrieve e h k' d) \<noteq> None"
  shows "snd (retrieve e h k' d') \<noteq> None"
  using assms by (simp add: retrieve_after_store)

lemma present_ok: "snd (retrieve e h k d) = Some v \<Longrightarrow> retrieve e h k d = (0, Some v)"
  using retrieve_error [of e h k d] by (cases "retrieve e h k d") fastforce

lemma store_then_store:
  assumes "good e" "store e h k v d = (0, d1)" "store e h k w d1 = (0, d2)" "w \<noteq> []"
  shows "retrieve e h k d2 = (0, Some w)"
  using assms retrieve_store by blast

end

interpretation rs: record_store bdb_contract store_record retrieve_record delete_record
proof
  fix e :: "'d env" and h k v and d d' :: 'd and r k'
  assume g: "bdb_contract e"
  show "store_record e h k v d = (0, d') \<Longrightarrow> v \<noteq> [] \<Longrightarrow> retrieve_record e h k d' = (0, Some v)"
    by (auto simp: store_record_def retrieve_record_def bdb_put_same [OF g] split: option.splits)
  show "store_record e h k v d = (r, d') \<Longrightarrow> k' \<noteq> k \<Longrightarrow>
      retrieve_record e h k' d' = retrieve_record e h k' d"
    by (auto simp: store_record_def retrieve_record_def bdb_put_frame [OF g] split: option.splits)
  show "store_record e h k v d = (r, d') \<Longrightarrow> r \<noteq> 0 \<Longrightarrow>
      retrieve_record e h k' d' = retrieve_record e h k' d"
    by (auto simp: store_record_def retrieve_record_def bdb_put_frame [OF g] split: option.splits)
  show "delete_record e h k d = (0, d') \<Longrightarrow> snd (retrieve_record e h k d') = None"
    by (auto simp: delete_record_def retrieve_record_def split_beta bdb_del_same [OF g]
        split: option.splits)
  show "delete_record e h k d = (r, d') \<Longrightarrow> k' \<noteq> k \<Longrightarrow>
      retrieve_record e h k' d' = retrieve_record e h k' d"
    by (auto simp: delete_record_def retrieve_record_def bdb_del_frame [OF g] split: option.splits)
next
  fix e :: "'d env" and h k d
  show "fst (retrieve_record e h k d) \<noteq> 0 \<Longrightarrow> snd (retrieve_record e h k d) = None"
    by (auto simp: retrieve_record_def Let_def split: option.splits prod.splits if_splits)
qed

section \<open>A concrete environment\<close>

text \<open>
  An environment that meets the contracts, in which witnesses run: the database is a map, and
  the allocator is the one of glibc on x86-64, which gives at least 24 usable bytes and rounds
  up to \<open>16 * i + 8\<close>.
\<close>

type_synonym mem_db = "(string \<times> db_key_type) \<Rightarrow> bytes option"

definition glibc_usable :: "nat \<Rightarrow> nat" where
  "glibc_usable n = max 24 ((n + 8 + 15) div 16 * 16 - 8)"

definition mem_env :: "mem_db env" where
  "mem_env = \<lparr>
     malloc_usable = (\<lambda>n. Some (glibc_usable n)),
     junk = (\<lambda>_. 0xAA),
     now = \<lparr>tv_sec = 100, tv_usec = 5\<rparr>,
     os_mkdir = (\<lambda>_. (0, False)),
     bdb_env_create = 0,
     bdb_env_open = (\<lambda>_. 0),
     bdb_create = (\<lambda>_. 0),
     bdb_open = (\<lambda>d _. (0, d)),
     bdb_close = (\<lambda>d _ _. d),
     bdb_put = (\<lambda>d b k v. (0, d((b, k) \<mapsto> v))),
     bdb_get = (\<lambda>d b k. case d (b, k) of None \<Rightarrow> (- 30988, []) | Some v \<Rightarrow> (0, v)),
     bdb_del = (\<lambda>d b k. case d (b, k) of None \<Rightarrow> (- 30988, d) | Some v \<Rightarrow> (0, d((b, k) := None))),
     event_new_ok = True,
     bufferevent_new_ok = True,
     event_base_new_ok = True,
     listener_bind_ok = True,
     os_fopen = (\<lambda>_. True)\<rparr>"

lemma glibc_usable_ge: "n \<le> glibc_usable n"
proof -
  have "n + 8 \<le> (n + 8 + 15) div 16 * 16" by linarith
  then show ?thesis by (simp add: glibc_usable_def)
qed

lemma mem_env_malloc: "malloc_contract mem_env"
  by (auto simp: malloc_contract_def mem_env_def glibc_usable_ge)

lemma mem_env_bdb: "bdb_contract mem_env"
  by (auto simp: bdb_contract_def mem_env_def split: option.splits if_splits)

end
