(* ===== verification/ConsensusMsg.thy ===== *)
theory ConsensusMsg
  imports Db
begin

text \<open>
  \<open>src/src/include/consensus/consensus-msg.h\<close>, the request record of
  \<open>src/src/consensus/consensus.c\<close> and the view boundary of \<open>consensus.h\<close>: the structs that the
  consensus component sends and stores, with their sizes and byte layouts. The trailing
  \<open>char data[0]\<close> of a struct is what follows its encoding in the block.
\<close>

section \<open>Message codes and structs\<close>

datatype con_code = ACCEPT_REQ | ACCEPT_ACK | MISSING_REQ | MISSING_ACK | FORCE_EXEC | FORWARD_REQ

fun con_code_val :: "con_code \<Rightarrow> u32" where
  "con_code_val ACCEPT_REQ = 0"
| "con_code_val ACCEPT_ACK = 1"
| "con_code_val MISSING_REQ = 2"
| "con_code_val MISSING_ACK = 3"
| "con_code_val FORCE_EXEC = 4"
| "con_code_val FORWARD_REQ = 5"

definition con_code_of :: "u32 \<Rightarrow> con_code option" where
  "con_code_of w =
     (if w = 0 then Some ACCEPT_REQ
      else if w = 1 then Some ACCEPT_ACK
      else if w = 2 then Some MISSING_REQ
      else if w = 3 then Some MISSING_ACK
      else if w = 4 then Some FORCE_EXEC
      else if w = 5 then Some FORWARD_REQ
      else None)"

record accept_req =
  ar_msg_vs :: view_stamp
  ar_req_canbe_exed :: view_stamp
  ar_node_id :: node_id_t
  ar_data_size :: u64

record accept_ack =
  aa_msg_vs :: view_stamp
  aa_node_id :: node_id_t

record missing_req =
  mr_node_id :: node_id_t
  mr_missing_vs :: view_stamp

record missing_ack =
  ma_node_id :: node_id_t
  ma_missing_vs :: view_stamp
  ma_data_size :: u64

record force_exec =
  fe_node_id :: node_id_t
  fe_highest_committed_op :: view_stamp

record forward_req =
  fr_node_id :: node_id_t
  fr_data_size :: u64

record request_record =
  rr_created_time :: timeval
  rr_is_closed :: u8
  rr_bit_map :: u64
  rr_data_size :: u64

record view_boundary =
  vb_view_id :: view_id_t
  vb_req_id :: req_id_t
  vb_leader_id :: node_id_t

section \<open>Sizes\<close>

abbreviation accept_req_len :: nat where "accept_req_len \<equiv> 36"
abbreviation accept_ack_len :: nat where "accept_ack_len \<equiv> 24"
abbreviation missing_req_len :: nat where "missing_req_len \<equiv> 24"
abbreviation missing_ack_len :: nat where "missing_ack_len \<equiv> 28"
abbreviation force_exec_len :: nat where "force_exec_len \<equiv> 24"
abbreviation forward_req_len :: nat where "forward_req_len \<equiv> 20"
abbreviation request_record_len :: nat where "request_record_len \<equiv> 33"

definition REQ_RECORD_SIZE :: "request_record \<Rightarrow> u64" where
  "REQ_RECORD_SIZE M = 33 + rr_data_size M"

definition ACCEPT_REQ_SIZE :: "accept_req \<Rightarrow> u64" where
  "ACCEPT_REQ_SIZE M = 36 + ar_data_size M"

definition MISSING_ACK_SIZE :: "u64 \<Rightarrow> u64" where
  "MISSING_ACK_SIZE data_size = 28 + data_size"

definition FORWARD_REQ_SIZE :: "forward_req \<Rightarrow> u64" where
  "FORWARD_REQ_SIZE M = 20 + fr_data_size M"

section \<open>Encoders and decoders\<close>

definition enc_vs :: "view_stamp \<Rightarrow> bytes" where
  "enc_vs vs = le 4 (vs_view_id vs) @ le 4 (vs_req_id vs)"

definition dec_vs :: "nat \<Rightarrow> bytes \<Rightarrow> view_stamp option" where
  "dec_vs off blk = do {
     v \<leftarrow> ld 4 off blk;
     r \<leftarrow> ld 4 (off + 4) blk;
     Some \<lparr>vs_view_id = v, vs_req_id = r\<rparr>
   }"

definition enc_accept_req :: "accept_req \<Rightarrow> bytes" where
  "enc_accept_req m = le 4 (con_code_val ACCEPT_REQ) @ enc_vs (ar_msg_vs m) @
     enc_vs (ar_req_canbe_exed m) @ le 8 (ar_node_id m) @ le 8 (ar_data_size m)"

definition dec_accept_req :: "bytes \<Rightarrow> accept_req option" where
  "dec_accept_req blk = do {
     vs \<leftarrow> dec_vs 4 blk;
     ex \<leftarrow> dec_vs 12 blk;
     n \<leftarrow> ld 8 20 blk;
     s \<leftarrow> ld 8 28 blk;
     Some \<lparr>ar_msg_vs = vs, ar_req_canbe_exed = ex, ar_node_id = n, ar_data_size = s\<rparr>
   }"

definition enc_accept_ack :: "u32 \<Rightarrow> accept_ack \<Rightarrow> bytes" where
  "enc_accept_ack pad m = le 4 (con_code_val ACCEPT_ACK) @ enc_vs (aa_msg_vs m) @ le 4 pad @
     le 8 (aa_node_id m)"

definition dec_accept_ack :: "bytes \<Rightarrow> accept_ack option" where
  "dec_accept_ack blk = do {
     vs \<leftarrow> dec_vs 4 blk;
     n \<leftarrow> ld 8 16 blk;
     Some \<lparr>aa_msg_vs = vs, aa_node_id = n\<rparr>
   }"

definition enc_missing_req :: "u32 \<Rightarrow> missing_req \<Rightarrow> bytes" where
  "enc_missing_req pad m = le 4 (con_code_val MISSING_REQ) @ le 4 pad @ le 8 (mr_node_id m) @
     enc_vs (mr_missing_vs m)"

definition dec_missing_req :: "bytes \<Rightarrow> missing_req option" where
  "dec_missing_req blk = do {
     n \<leftarrow> ld 8 8 blk;
     vs \<leftarrow> dec_vs 16 blk;
     Some \<lparr>mr_node_id = n, mr_missing_vs = vs\<rparr>
   }"

definition enc_missing_ack :: "missing_ack \<Rightarrow> bytes" where
  "enc_missing_ack m = le 4 (con_code_val MISSING_ACK) @ le 8 (ma_node_id m) @
     enc_vs (ma_missing_vs m) @ le 8 (ma_data_size m)"

definition dec_missing_ack :: "bytes \<Rightarrow> missing_ack option" where
  "dec_missing_ack blk = do {
     n \<leftarrow> ld 8 4 blk;
     vs \<leftarrow> dec_vs 12 blk;
     s \<leftarrow> ld 8 20 blk;
     Some \<lparr>ma_node_id = n, ma_missing_vs = vs, ma_data_size = s\<rparr>
   }"

definition enc_force_exec :: "u32 \<Rightarrow> force_exec \<Rightarrow> bytes" where
  "enc_force_exec pad m = le 4 (con_code_val FORCE_EXEC) @ le 4 pad @ le 8 (fe_node_id m) @
     enc_vs (fe_highest_committed_op m)"

definition dec_force_exec :: "bytes \<Rightarrow> force_exec option" where
  "dec_force_exec blk = do {
     n \<leftarrow> ld 8 8 blk;
     vs \<leftarrow> dec_vs 16 blk;
     Some \<lparr>fe_node_id = n, fe_highest_committed_op = vs\<rparr>
   }"

definition enc_forward_req :: "forward_req \<Rightarrow> bytes" where
  "enc_forward_req m = le 4 (con_code_val FORWARD_REQ) @ le 8 (fr_node_id m) @
     le 8 (fr_data_size m)"

definition dec_forward_req :: "bytes \<Rightarrow> forward_req option" where
  "dec_forward_req blk = do {
     n \<leftarrow> ld 8 4 blk;
     s \<leftarrow> ld 8 12 blk;
     Some \<lparr>fr_node_id = n, fr_data_size = s\<rparr>
   }"

definition enc_timeval :: "timeval \<Rightarrow> bytes" where
  "enc_timeval t = le 8 (tv_sec t) @ le 8 (tv_usec t)"

definition dec_timeval :: "nat \<Rightarrow> bytes \<Rightarrow> timeval option" where
  "dec_timeval off blk = do {
     s \<leftarrow> ld 8 off blk;
     u \<leftarrow> ld 8 (off + 8) blk;
     Some \<lparr>tv_sec = s, tv_usec = u\<rparr>
   }"

definition enc_request_record :: "request_record \<Rightarrow> bytes" where
  "enc_request_record r = enc_timeval (rr_created_time r) @ [rr_is_closed r] @
     le 8 (rr_bit_map r) @ le 8 (rr_data_size r)"

definition dec_request_record :: "bytes \<Rightarrow> request_record option" where
  "dec_request_record blk = do {
     t \<leftarrow> dec_timeval 0 blk;
     c \<leftarrow> ld 1 16 blk;
     b \<leftarrow> ld 8 17 blk;
     s \<leftarrow> ld 8 25 blk;
     Some \<lparr>rr_created_time = t, rr_is_closed = c, rr_bit_map = b, rr_data_size = s\<rparr>
   }"

definition enc_view_boundary :: "view_boundary \<Rightarrow> bytes" where
  "enc_view_boundary b = le 4 (vb_view_id b) @ le 4 (vb_req_id b) @ le 8 (vb_leader_id b)"

definition dec_view_boundary :: "bytes \<Rightarrow> view_boundary option" where
  "dec_view_boundary blk = do {
     v \<leftarrow> ld 4 0 blk;
     r \<leftarrow> ld 4 4 blk;
     l \<leftarrow> ld 8 8 blk;
     Some \<lparr>vb_view_id = v, vb_req_id = r, vb_leader_id = l\<rparr>
   }"

lemma length_enc [simp, layout]:
  "length (enc_vs vs) = 8"
  "length (enc_timeval t) = 16"
  "length (enc_accept_req m) = accept_req_len"
  "length (enc_accept_ack pad aa) = accept_ack_len"
  "length (enc_missing_req pad mr) = missing_req_len"
  "length (enc_missing_ack ma) = missing_ack_len"
  "length (enc_force_exec pad fe) = force_exec_len"
  "length (enc_forward_req fr) = forward_req_len"
  "length (enc_request_record r) = request_record_len"
  "length (enc_view_boundary vb) = 16"
  by (simp_all add: enc_vs_def enc_timeval_def enc_accept_req_def enc_accept_ack_def
      enc_missing_req_def enc_missing_ack_def enc_force_exec_def enc_forward_req_def
      enc_request_record_def enc_view_boundary_def)

lemma dec_vs_skip [layout]: "length xs \<le> off \<Longrightarrow> dec_vs off (xs @ rest) = dec_vs (off - length xs) rest"
  by (auto simp: dec_vs_def layout)

lemma dec_vs_here [layout]: "dec_vs 0 (enc_vs vs @ rest) = Some vs"
  by (simp add: dec_vs_def enc_vs_def layout)

lemma dec_vs_here_nil [layout]: "dec_vs 0 (enc_vs vs) = Some vs"
  using dec_vs_here [of vs "[]"] by simp

lemma dec_timeval_here [layout]: "dec_timeval 0 (enc_timeval t @ rest) = Some t"
  by (simp add: dec_timeval_def enc_timeval_def layout)

lemma con_code_roundtrip [simp]: "con_code_of (con_code_val c) = Some c"
  by (cases c) (simp_all add: con_code_of_def)

interpretation accept_req: codec "\<lambda>_. True" enc_accept_req dec_accept_req
  by unfold_locales (simp add: enc_accept_req_def dec_accept_req_def layout)

interpretation accept_ack: codec "\<lambda>_. True" "enc_accept_ack pad" dec_accept_ack for pad
  by unfold_locales (simp add: enc_accept_ack_def dec_accept_ack_def layout)

interpretation missing_req: codec "\<lambda>_. True" "enc_missing_req pad" dec_missing_req for pad
  by unfold_locales (simp add: enc_missing_req_def dec_missing_req_def layout)

interpretation missing_ack: codec "\<lambda>_. True" enc_missing_ack dec_missing_ack
  by unfold_locales (simp add: enc_missing_ack_def dec_missing_ack_def layout)

interpretation force_exec: codec "\<lambda>_. True" "enc_force_exec pad" dec_force_exec for pad
  by unfold_locales (simp add: enc_force_exec_def dec_force_exec_def layout)

interpretation forward_req: codec "\<lambda>_. True" enc_forward_req dec_forward_req
  by unfold_locales (simp add: enc_forward_req_def dec_forward_req_def layout)

interpretation request_record: codec "\<lambda>_. True" enc_request_record dec_request_record
  by unfold_locales (simp add: enc_request_record_def dec_request_record_def layout)

interpretation view_boundary: codec "\<lambda>_. True" enc_view_boundary dec_view_boundary
  by unfold_locales (simp add: enc_view_boundary_def dec_view_boundary_def layout)

end
