(* ===== verification/Consensus.thy ===== *)
theory Consensus
  imports ConsensusMsg
begin

text \<open>
  \<open>src/src/consensus/consensus.c\<close>: normal-case consensus. The leader numbers client requests,
  stores them, sends them to the other nodes and counts acknowledgements in the record's bit map;
  requests are handed to the user in the order of their view stamps.

  The component reads and writes the node's view and its three view stamps through pointers;
  as these and the component's own fields are never copied, the record below holds the one copy
  of each, and the node's record (theory Node) extends it. \<open>effects\<close> is the sequence of
  calls made through the function pointers \<open>uc\<close> and \<open>ucb\<close>. A function without a result
  (\<open>None\<close>) is one that the C program does not return from: a failed assertion, an access
  outside a block or through \<open>NULL\<close>, or a loop that does not end.
\<close>

section \<open>State\<close>

datatype con_role = LEADER | SECONDARY

datatype effect =
    Upcall bytes i32
  | UserCb u64 bytes

record 'd consensus_component =
  my_role :: con_role
  cc_node_id :: u32
  deliver_mode :: int
  cc_group_size :: u32
  cur_view :: view
  highest_seen_vs :: view_stamp
  highest_to_commit_vs :: view_stamp
  highest_committed_vs :: view_stamp
  cc_db_ptr :: "db option"
  uc_set :: bool
  ucb_set :: bool
  disk :: 'd
  effects :: "effect list"

type_synonym ('d, 'z) comp = "('d, 'z) consensus_component_scheme"

definition call_uc :: "bytes \<Rightarrow> i32 \<Rightarrow> ('d, 'z) comp \<Rightarrow> ('d, 'z) comp option" where
  "call_uc msg target c =
     (if uc_set c then Some (c\<lparr>effects := effects c @ [Upcall msg target]\<rparr>) else None)"

section \<open>Helpers\<close>

definition get_next_view_stamp :: "('d, 'z) comp \<Rightarrow> view_stamp" where
  "get_next_view_stamp c =
     \<lparr>vs_view_id = vs_view_id (highest_seen_vs c), vs_req_id = vs_req_id (highest_seen_vs c) + 1\<rparr>"

definition view_stamp_inc :: "view_stamp \<Rightarrow> view_stamp" where
  "view_stamp_inc vs = vs\<lparr>vs_req_id := vs_req_id vs + 1\<rparr>"

definition cross_view :: "view_stamp \<Rightarrow> view_stamp" where
  "cross_view vs = vs\<lparr>vs_view_id := vs_view_id vs + 1, vs_req_id := 0\<rparr>"

definition isLeader :: "('d, 'z) comp \<Rightarrow> bool" where
  "isLeader c \<longleftrightarrow> v_leader_id (cur_view c) = ucast (cc_node_id c)"

text \<open>\<open>1 << node_id\<close> on \<open>int\<close>, converted to \<open>uint64_t\<close>; a shift by 32 or more is undefined.\<close>

definition node_bit :: "u32 \<Rightarrow> u64 option" where
  "node_bit node_id =
     (if unat node_id < 32 then Some (scast (push_bit (unat node_id) (1 :: i32))) else None)"

definition update_record :: "request_record \<Rightarrow> u32 \<Rightarrow> request_record option" where
  "update_record record node_id = do {
     b \<leftarrow> node_bit node_id;
     Some (record\<lparr>rr_bit_map := rr_bit_map record OR b\<rparr>)
   }"

definition reached_quorum :: "request_record \<Rightarrow> u32 \<Rightarrow> bool" where
  "reached_quorum record group_size \<longleftrightarrow>
     int (popcount (rr_bit_map record)) \<ge> sint group_size sdiv 2 + 1"

definition retrieve :: "'d env \<Rightarrow> ('d, 'z) comp \<Rightarrow> db_key_type \<Rightarrow> int \<times> bytes option" where
  "retrieve E c key = retrieve_record E (cc_db_ptr c) key (disk c)"

definition store :: "'d env \<Rightarrow> ('d, 'z) comp \<Rightarrow> db_key_type \<Rightarrow> bytes \<Rightarrow> int \<times> ('d, 'z) comp" where
  "store E c key data =
     (let (ret, d) = store_record E (cc_db_ptr c) key data (disk c) in (ret, c\<lparr>disk := d\<rparr>))"

section \<open>Building messages\<close>

text \<open>Each builder returns the message it allocates: \<open>Some None\<close> is \<open>NULL\<close>.\<close>

definition build_accept_req ::
  "'d env \<Rightarrow> ('d, 'z) comp \<Rightarrow> u64 \<Rightarrow> bytes \<Rightarrow> view_stamp \<Rightarrow> bytes option option" where
  "build_accept_req E c data_size data vs =
     (if malloc_usable E (unat (36 + data_size)) = None then Some None
      else do {
        payload \<leftarrow> ld_bytes (unat data_size) 0 data;
        alloc_fill E (unat (36 + data_size))
          (enc_accept_req \<lparr>ar_msg_vs = vs, ar_req_canbe_exed = highest_to_commit_vs c,
             ar_node_id = ucast (cc_node_id c), ar_data_size = data_size\<rparr> @ payload)
      })"

definition build_accept_ack :: "'d env \<Rightarrow> ('d, 'z) comp \<Rightarrow> view_stamp \<Rightarrow> bytes option option" where
  "build_accept_ack E c vs =
     alloc_fill E accept_ack_len
       (enc_accept_ack (junk32 E 12) \<lparr>aa_msg_vs = vs, aa_node_id = ucast (cc_node_id c)\<rparr>)"

text \<open>The code allocates \<open>MISSING_REQ\<close> bytes, the message code, not \<open>MISSING_REQ_SIZE\<close>.\<close>

definition build_missing_req :: "'d env \<Rightarrow> ('d, 'z) comp \<Rightarrow> view_stamp \<Rightarrow> bytes option option" where
  "build_missing_req E c vs =
     alloc_fill E (unat (con_code_val MISSING_REQ))
       (enc_missing_req (junk32 E 4) \<lparr>mr_node_id = ucast (cc_node_id c), mr_missing_vs = vs\<rparr>)"

text \<open>
  The message is allocated with \<open>memsize\<close> bytes, and \<open>memsize\<close> bytes of the record are then
  copied behind its header.
\<close>

definition build_missing_ack :: "'d env \<Rightarrow> ('d, 'z) comp \<Rightarrow> view_stamp \<Rightarrow> bytes option option" where
  "build_missing_ack E c vs =
     (case snd (retrieve E c (vstol vs)) of
        None \<Rightarrow> Some None
      | Some record_data \<Rightarrow> do {
          r \<leftarrow> dec_request_record record_data;
          let memsize = (scast (ucast (MISSING_ACK_SIZE (rr_data_size r)) :: i32) :: u64);
          if malloc_usable E (unat memsize) = None then Some None
          else do {
            payload \<leftarrow> ld_bytes (unat memsize) 0 record_data;
            alloc_fill E (unat memsize)
              (enc_missing_ack \<lparr>ma_node_id = ucast (cc_node_id c), ma_missing_vs = vs,
                 ma_data_size = memsize\<rparr> @ payload)
          }
        })"

definition build_force_exec :: "'d env \<Rightarrow> ('d, 'z) comp \<Rightarrow> bytes option option" where
  "build_force_exec E c =
     alloc_fill E force_exec_len
       (enc_force_exec (junk32 E 4) \<lparr>fe_node_id = ucast (cc_node_id c),
          fe_highest_committed_op = highest_committed_vs c\<rparr>)"

definition build_forward_req :: "'d env \<Rightarrow> ('d, 'z) comp \<Rightarrow> u64 \<Rightarrow> bytes \<Rightarrow> bytes option option" where
  "build_forward_req E c data_size data =
     (if malloc_usable E (unat (20 + data_size)) = None then Some None
      else do {
        payload \<leftarrow> ld_bytes (unat data_size) 0 data;
        alloc_fill E (unat (20 + data_size))
          (enc_forward_req \<lparr>fr_node_id = ucast (cc_node_id c), fr_data_size = data_size\<rparr> @ payload)
      })"

section \<open>Delivery and execution\<close>

definition deliver_msg_data :: "'d env \<Rightarrow> view_stamp \<Rightarrow> ('d, 'z) comp \<Rightarrow> ('d, 'z) comp option" where
  "deliver_msg_data E vs c =
     (let vstokey = vstol vs in
      if deliver_mode c = 1 then
        (case snd (retrieve E c vstokey) of
           None \<Rightarrow> Some c
         | Some data \<Rightarrow>
             if ucb_set c then do {
               r \<leftarrow> dec_request_record data;
               Some (c\<lparr>effects := effects c @ [UserCb (rr_data_size r) (drop request_record_len data)]\<rparr>)
             }
             else Some c)
      else if ucb_set c then Some (c\<lparr>effects := effects c @ [UserCb 8 (le 8 vstokey)]\<rparr>)
      else Some c)"

definition send_missing_req :: "'d env \<Rightarrow> view_stamp \<Rightarrow> ('d, 'z) comp \<Rightarrow> ('d, 'z) comp option" where
  "send_missing_req E vs c = do {
     m \<leftarrow> build_missing_req E c vs;
     (case m of
        None \<Rightarrow> Some c
      | Some msg \<Rightarrow> call_uc msg (- 1) c)
   }"

text \<open>
  The loop of \<open>leader_try_to_execute\<close>. \<open>record_data\<close> keeps its value from the iteration before
  when \<open>retrieve_record\<close> does not store through it.
\<close>

partial_function (option) leader_execute_loop ::
  "'d env \<Rightarrow> u64 \<Rightarrow> bool \<Rightarrow> u64 \<Rightarrow> bytes option \<Rightarrow> ('d, 'z) comp \<Rightarrow> ('d, 'z) comp option" where
  "leader_execute_loop E end_rec exec_flag index record_data c =
     (if index \<le> end_rec then
        (let record_data' = (case snd (retrieve E c index) of None \<Rightarrow> record_data | Some b \<Rightarrow> Some b) in
         (case record_data' of
            None \<Rightarrow> None
          | Some data \<Rightarrow> do {
              r \<leftarrow> dec_request_record data;
              if reached_quorum r (cc_group_size c) then do {
                let c1 = c\<lparr>highest_to_commit_vs := view_stamp_inc (highest_to_commit_vs c)\<rparr>;
                c2 \<leftarrow> (if exec_flag then do {
                    c' \<leftarrow> deliver_msg_data E (ltovs index) c1;
                    Some (c'\<lparr>highest_committed_vs := view_stamp_inc (highest_committed_vs c')\<rparr>)
                  } else Some c1);
                leader_execute_loop E end_rec exec_flag (index + 1) record_data' c2
              }
              else Some c
            }))
      else Some c)"

declare leader_execute_loop.simps [code]

definition leader_try_to_execute :: "'d env \<Rightarrow> ('d, 'z) comp \<Rightarrow> ('d, 'z) comp option" where
  "leader_try_to_execute E c = do {
     let end_rec = vstol (highest_seen_vs c);
     (c, start) \<leftarrow>
       (if vs_view_id (highest_seen_vs c) \<noteq> vs_view_id (highest_to_commit_vs c) then
          if vs_view_id (highest_to_commit_vs c) + 1 = vs_view_id (highest_seen_vs c) then
            (let vs = \<lparr>vs_view_id = vs_view_id (highest_to_commit_vs c) + 1, vs_req_id = 0\<rparr>
             in Some (c\<lparr>highest_to_commit_vs := vs, highest_committed_vs := vs\<rparr>, vstol vs))
          else None
        else Some (c, vstol (highest_to_commit_vs c) + 1));
     let exec_flag = (view_stamp_comp (highest_committed_vs c) (highest_to_commit_vs c) = 0);
     leader_execute_loop E end_rec exec_flag start None c
   }"

text \<open>The loop of \<open>try_to_execute\<close>: delivery stops at the first missing record.\<close>

partial_function (option) execute_loop ::
  "'d env \<Rightarrow> u64 \<Rightarrow> bool \<Rightarrow> u64 \<Rightarrow> ('d, 'z) comp \<Rightarrow> ('d, 'z) comp option" where
  "execute_loop E end_rec exec_flag index c =
     (if index \<le> end_rec then do {
        let missing_vs = ltovs index;
        let missing = (fst (retrieve E c index) \<noteq> 0);
        c1 \<leftarrow> (if missing then send_missing_req E missing_vs c else Some c);
        let exec_flag' = (exec_flag \<and> \<not> missing);
        c2 \<leftarrow> (if exec_flag' then do {
            c' \<leftarrow> deliver_msg_data E missing_vs c1;
            Some (c'\<lparr>highest_committed_vs := view_stamp_inc (highest_committed_vs c')\<rparr>)
          } else Some c1);
        execute_loop E end_rec exec_flag' (index + 1) c2
      }
      else Some c)"

declare execute_loop.simps [code]

definition try_to_execute :: "'d env \<Rightarrow> ('d, 'z) comp \<Rightarrow> ('d, 'z) comp option" where
  "try_to_execute E c =
     (if v_view_id (cur_view c) = 0 then Some c
      else do {
        c \<leftarrow> (if my_role c = LEADER then leader_try_to_execute E c else Some c);
        let start = vstol (highest_committed_vs c) + 1;
        if vs_view_id (highest_committed_vs c) \<noteq> vs_view_id (highest_to_commit_vs c) then
          (let bound = \<lparr>vs_view_id = vs_view_id (highest_committed_vs c) + 1, vs_req_id = 0\<rparr> in
           case snd (retrieve E c (vstol bound)) of
             None \<Rightarrow> send_missing_req E bound c
           | Some boundary_record \<Rightarrow> do {
               b \<leftarrow> dec_view_boundary boundary_record;
               let temp_boundary = \<lparr>vs_view_id = vb_view_id b, vs_req_id = vb_req_id b\<rparr>;
               c \<leftarrow> execute_loop E (vstol temp_boundary) True start c;
               if vstol (highest_committed_vs c) = vstol temp_boundary
               then Some (c\<lparr>highest_committed_vs := cross_view (highest_committed_vs c)\<rparr>)
               else Some c
             })
        else execute_loop E (vstol (highest_to_commit_vs c)) True start c
      })"

section \<open>Submitting requests\<close>

text \<open>The results: return value, the view stamp stored through \<open>vs\<close> (if it is) and the state.\<close>

definition leader_handle_submit_req ::
  "'d env \<Rightarrow> u64 \<Rightarrow> bytes \<Rightarrow> ('d, 'z) comp \<Rightarrow> (int \<times> view_stamp option \<times> ('d, 'z) comp) option" where
  "leader_handle_submit_req E data_size data c = do {
     let next_vs = get_next_view_stamp c;
     let record_no = vstol next_vs;
     b \<leftarrow> node_bit (cc_node_id c);
     payload \<leftarrow> ld_bytes (unat data_size) 0 data;
     let record = \<lparr>rr_created_time = now E, rr_is_closed = 0, rr_bit_map = b, rr_data_size = data_size\<rparr>;
     allocated \<leftarrow> alloc_fill E (unat (data_size + 33)) (enc_request_record record @ payload);
     record_data \<leftarrow> allocated;
     let (ret, c) = store E c record_no record_data;
     if ret \<noteq> 0 then Some (1, Some next_vs, c)
     else do {
       let c = c\<lparr>highest_seen_vs := view_stamp_inc (highest_seen_vs c)\<rparr>;
       if cc_group_size c > 1 then do {
         m \<leftarrow> build_accept_req E c (REQ_RECORD_SIZE record) record_data next_vs;
         (case m of
            None \<Rightarrow> Some (0, Some next_vs, c)
          | Some msg \<Rightarrow> do { c \<leftarrow> call_uc msg (- 1) c; Some (0, Some next_vs, c) })
       }
       else do { c \<leftarrow> try_to_execute E c; Some (0, Some next_vs, c) }
     }
   }"

definition forward_submit_req ::
  "'d env \<Rightarrow> u64 \<Rightarrow> bytes \<Rightarrow> ('d, 'z) comp \<Rightarrow> (int \<times> view_stamp option \<times> ('d, 'z) comp) option" where
  "forward_submit_req E data_size data c = do {
     m \<leftarrow> build_forward_req E c data_size data;
     (case m of
        None \<Rightarrow> Some (1, None, c)
      | Some msg \<Rightarrow> do {
          c \<leftarrow> call_uc msg (ucast (v_leader_id (cur_view c))) c;
          Some (0, None, c)
        })
   }"

definition consensus_submit_request ::
  "'d env \<Rightarrow> u64 \<Rightarrow> bytes \<Rightarrow> ('d, 'z) comp \<Rightarrow> (int \<times> view_stamp option \<times> ('d, 'z) comp) option" where
  "consensus_submit_request E data_size data c =
     (if my_role c = LEADER then leader_handle_submit_req E data_size data c
      else forward_submit_req E data_size data c)"

section \<open>Message handlers\<close>

text \<open>
  A handler takes the block that its \<open>data\<close> argument points to. A follower's record is made in
  fresh memory and its bit map is not written: it is what the block held (\<open>junk_bit_map\<close>).
\<close>

definition junk_bit_map :: "'d env \<Rightarrow> u64" where
  "junk_bit_map E = of_le (map (junk E) [17..<25])"

definition handle_accept_req_store ::
  "'d env \<Rightarrow> accept_req \<Rightarrow> bytes \<Rightarrow> ('d, 'z) comp \<Rightarrow> ('d, 'z) comp option" where
  "handle_accept_req_store E msg data c = do {
     let record_no = vstol (ar_msg_vs msg);
     origin \<leftarrow> dec_request_record data;
     if malloc_usable E (unat (REQ_RECORD_SIZE origin)) = None then Some c
     else do {
       payload \<leftarrow> ld_bytes (unat (rr_data_size origin)) request_record_len data;
       let record = origin\<lparr>rr_created_time := now E, rr_bit_map := junk_bit_map E\<rparr>;
       allocated \<leftarrow> alloc_fill E (unat (REQ_RECORD_SIZE origin)) (enc_request_record record @ payload);
       record_data \<leftarrow> allocated;
       let (ret, c) = store E c record_no record_data;
       if ret \<noteq> 0 then Some c
       else do {
         m \<leftarrow> build_accept_ack E c (ar_msg_vs msg);
         (case m of
            None \<Rightarrow> Some c
          | Some reply \<Rightarrow> call_uc reply (ucast (ar_node_id msg)) c)
       }
     }
   }"

definition handle_accept_req :: "'d env \<Rightarrow> bytes \<Rightarrow> ('d, 'z) comp \<Rightarrow> ('d, 'z) comp option" where
  "handle_accept_req E blk c = do {
     msg \<leftarrow> dec_accept_req blk;
     if vs_view_id (ar_msg_vs msg) < v_view_id (cur_view c) then try_to_execute E c
     else if vs_view_id (ar_msg_vs msg) = v_view_id (cur_view c) \<and>
             ar_node_id msg \<noteq> v_leader_id (cur_view c) then try_to_execute E c
     else if view_stamp_comp (ar_msg_vs msg) (highest_committed_vs c) \<le> 0 then try_to_execute E c
     else do {
       let c = (if view_stamp_comp (ar_msg_vs msg) (highest_seen_vs c) > 0
                then c\<lparr>highest_seen_vs := ar_msg_vs msg\<rparr> else c);
       let c = (if view_stamp_comp (ar_req_canbe_exed msg) (highest_to_commit_vs c) > 0
                then c\<lparr>highest_to_commit_vs := ar_req_canbe_exed msg\<rparr> else c);
       c \<leftarrow> handle_accept_req_store E msg (drop accept_req_len blk) c;
       try_to_execute E c
     }
   }"

definition handle_accept_ack :: "'d env \<Rightarrow> bytes \<Rightarrow> ('d, 'z) comp \<Rightarrow> ('d, 'z) comp option" where
  "handle_accept_ack E blk c = do {
     msg \<leftarrow> dec_accept_ack blk;
     if my_role c \<noteq> LEADER then try_to_execute E c
     else if view_stamp_comp (aa_msg_vs msg) (highest_committed_vs c) \<le> 0 then try_to_execute E c
     else do {
       let record_no = vstol (aa_msg_vs msg);
       (case snd (retrieve E c record_no) of
          None \<Rightarrow> try_to_execute E c
        | Some record_data \<Rightarrow> do {
            r \<leftarrow> dec_request_record record_data;
            r' \<leftarrow> update_record r (ucast (aa_node_id msg));
            payload \<leftarrow> ld_bytes (unat (rr_data_size r)) request_record_len record_data;
            try_to_execute E (snd (store E c record_no (enc_request_record r' @ payload)))
          })
     }
   }"

definition handle_missing_req :: "'d env \<Rightarrow> bytes \<Rightarrow> ('d, 'z) comp \<Rightarrow> ('d, 'z) comp option" where
  "handle_missing_req E blk c = do {
     msg \<leftarrow> dec_missing_req blk;
     m \<leftarrow> build_missing_ack E c (mr_missing_vs msg);
     (case m of
        None \<Rightarrow> Some c
      | Some reply \<Rightarrow> call_uc reply (ucast (mr_node_id msg)) c)
   }"

definition handle_missing_ack :: "'d env \<Rightarrow> bytes \<Rightarrow> ('d, 'z) comp \<Rightarrow> ('d, 'z) comp option" where
  "handle_missing_ack E blk c = do {
     msg \<leftarrow> dec_missing_ack blk;
     let origin_blk = drop missing_ack_len blk;
     if view_stamp_comp (highest_committed_vs c) (ma_missing_vs msg) \<ge> 0 then Some c
     else do {
       let record_no = vstol (ma_missing_vs msg);
       (case snd (retrieve E c record_no) of
          Some _ \<Rightarrow> Some c
        | None \<Rightarrow> do {
            origin \<leftarrow> dec_request_record origin_blk;
            if malloc_usable E (unat (REQ_RECORD_SIZE origin)) = None then Some c
            else do {
              payload \<leftarrow> ld_bytes (unat (rr_data_size origin)) request_record_len origin_blk;
              let record = \<lparr>rr_created_time = now E, rr_is_closed = junk E 16,
                            rr_bit_map = junk_bit_map E, rr_data_size = rr_data_size origin\<rparr>;
              allocated \<leftarrow> alloc_fill E (unat (REQ_RECORD_SIZE origin))
                             (enc_request_record record @ payload);
              record_data \<leftarrow> allocated;
              try_to_execute E (snd (store E c record_no record_data))
            }
          })
     }
   }"

definition handle_force_exec :: "'d env \<Rightarrow> bytes \<Rightarrow> ('d, 'z) comp \<Rightarrow> ('d, 'z) comp option" where
  "handle_force_exec E blk c = do {
     msg \<leftarrow> dec_force_exec blk;
     if fe_node_id msg \<noteq> v_leader_id (cur_view c) then Some c
     else if view_stamp_comp (highest_to_commit_vs c) (fe_highest_committed_op msg) < 0 then
       try_to_execute E (c\<lparr>highest_to_commit_vs := fe_highest_committed_op msg\<rparr>)
     else Some c
   }"

definition handle_forward_req :: "'d env \<Rightarrow> bytes \<Rightarrow> ('d, 'z) comp \<Rightarrow> ('d, 'z) comp option" where
  "handle_forward_req E blk c =
     (if my_role c \<noteq> LEADER then Some c
      else do {
        msg \<leftarrow> dec_forward_req blk;
        (ret, vs, c) \<leftarrow> leader_handle_submit_req E (fr_data_size msg) (drop forward_req_len blk) c;
        Some c
      })"

definition consensus_handle_msg :: "'d env \<Rightarrow> bytes \<Rightarrow> ('d, 'z) comp \<Rightarrow> ('d, 'z) comp option" where
  "consensus_handle_msg E blk c = do {
     msg_type \<leftarrow> ld 4 0 blk;
     (case con_code_of msg_type of
        Some ACCEPT_REQ \<Rightarrow> handle_accept_req E blk c
      | Some ACCEPT_ACK \<Rightarrow> handle_accept_ack E blk c
      | Some MISSING_REQ \<Rightarrow> handle_missing_req E blk c
      | Some MISSING_ACK \<Rightarrow> handle_missing_ack E blk c
      | Some FORCE_EXEC \<Rightarrow> handle_force_exec E blk c
      | Some FORWARD_REQ \<Rightarrow> handle_forward_req E blk c
      | None \<Rightarrow> Some c)
   }"

section \<open>Progress, roles and initialisation\<close>

partial_function (option) make_progress_loop ::
  "'d env \<Rightarrow> u64 \<Rightarrow> u64 \<Rightarrow> ('d, 'z) comp \<Rightarrow> ('d, 'z) comp option" where
  "make_progress_loop E end_rec index c =
     (if index \<le> end_rec then
        (case snd (retrieve E c index) of
           None \<Rightarrow> None
         | Some record_data \<Rightarrow> do {
             r \<leftarrow> dec_request_record record_data;
             c \<leftarrow> (if \<not> reached_quorum r (cc_group_size c) then do {
                 m \<leftarrow> build_accept_req E c (REQ_RECORD_SIZE r) record_data (ltovs index);
                 (case m of None \<Rightarrow> Some c | Some msg \<Rightarrow> call_uc msg (- 1) c)
               } else Some c);
             make_progress_loop E end_rec (index + 1) c
           })
      else Some c)"

declare make_progress_loop.simps [code]

definition consensus_make_progress :: "'d env \<Rightarrow> ('d, 'z) comp \<Rightarrow> ('d, 'z) comp option" where
  "consensus_make_progress E c =
     (if my_role c \<noteq> LEADER then Some c
      else do {
        c \<leftarrow> leader_try_to_execute E c;
        c \<leftarrow> (if view_stamp_comp (highest_committed_vs c) (highest_seen_vs c) < 0 \<and>
                 vs_view_id (highest_seen_vs c) = v_view_id (cur_view c) then
                (let temp = \<lparr>vs_view_id = v_view_id (cur_view c), vs_req_id = 0\<rparr>;
                     temp = (if view_stamp_comp temp (highest_committed_vs c) < 0
                             then highest_committed_vs c else temp);
                     temp = view_stamp_inc temp
                 in make_progress_loop E (vstol (highest_seen_vs c)) (vstol temp) c)
              else Some c);
        m \<leftarrow> build_force_exec E c;
        (case m of None \<Rightarrow> Some c | Some msg \<Rightarrow> call_uc msg (- 1) c)
      })"

definition consensus_get_highest_seen_req :: "('d, 'z) comp \<Rightarrow> view_stamp" where
  "consensus_get_highest_seen_req c = highest_seen_vs c"

definition consensus_update_role :: "('d, 'z) comp \<Rightarrow> ('d, 'z) comp" where
  "consensus_update_role c =
     (let zero = \<lparr>vs_view_id = v_view_id (cur_view c), vs_req_id = 0\<rparr> in
      c\<lparr>my_role := (if v_leader_id (cur_view c) \<noteq> ucast (cc_node_id c) then SECONDARY else LEADER),
        highest_seen_vs := zero, highest_to_commit_vs := zero, highest_committed_vs := zero\<rparr>)"

text \<open>
  Initialisation fills in the component for the node whose view and view stamps it will use. When
  the database cannot be opened the component is freed, and the pointer to it is returned.
\<close>

definition init_consensus_comp ::
  "'d env \<Rightarrow> u32 \<Rightarrow> string \<Rightarrow> int \<Rightarrow> db option \<Rightarrow> u32 \<Rightarrow> bool \<Rightarrow> bool \<Rightarrow> ('d, 'z) comp \<Rightarrow>
    (unit ptr \<times> ('d, 'z) comp) option" where
  "init_consensus_comp E node_id db_name mode db_ptr group_size have_ucb have_uc c = do {
     _ \<leftarrow> malloc_usable E 104;
     (h, d) \<leftarrow> (if mode = 50 then Some (db_ptr, disk c) else initialize_db E db_name 0 (disk c));
     let c = c\<lparr>disk := d\<rparr>;
     if mode \<noteq> 50 \<and> h = None then Some (Dangling, c)
     else
       (let init = \<lparr>vs_view_id = 1, vs_req_id = 0\<rparr> in
        Some (Ptr (), c\<lparr>
          my_role := (if v_leader_id (cur_view c) = ucast node_id then LEADER else SECONDARY),
          cc_node_id := node_id, deliver_mode := mode, cc_group_size := group_size,
          highest_seen_vs := init, highest_to_commit_vs := init, highest_committed_vs := init,
          cc_db_ptr := h, uc_set := have_uc, ucb_set := have_ucb\<rparr>))
   }"

end
