(* ===== verification/Loops.thy ===== *)
theory Loops
  imports Prelude
begin

text \<open>
  The counted loops of the code, \<open>for(index=start;index<=end;index++)\<close> over 64-bit record
  numbers. Such a loop ends unless \<open>end\<close> is the largest number, for then \<open>index\<close> wraps
  around. \<open>run_keys\<close> runs the loop body over a list of numbers; the locale \<open>counted_loop\<close>
  is the contract of a function that is such a loop, and gives its value and an invariant rule.
\<close>

section \<open>Ranges of record numbers\<close>

definition key_range :: "u64 \<Rightarrow> u64 \<Rightarrow> u64 list" where
  "key_range i e = map of_nat [unat i ..< Suc (unat e)]"

lemma key_range_empty [simp]: "e < i \<Longrightarrow> key_range i e = []"
  by (simp add: key_range_def word_less_nat_alt)

lemma key_range_Cons: "i \<le> e \<Longrightarrow> e \<noteq> - 1 \<Longrightarrow> key_range i e = i # key_range (i + 1) e"
proof -
  assume le: "i \<le> e" and e: "e \<noteq> - 1"
  then have "i \<noteq> - 1" by (metis word_order.extremum_uniqueI)
  then have "unat (i + 1) = Suc (unat i)" by (simp add: unat_plus_1)
  with le show ?thesis
    by (simp add: key_range_def word_le_nat_alt upt_conv_Cons del: upt_Suc)
qed

lemma set_key_range: "k \<in> set (key_range i e) \<longleftrightarrow> i \<le> k \<and> k \<le> e"
proof
  assume "k \<in> set (key_range i e)"
  then obtain n where n: "k = of_nat n" "unat i \<le> n" "n \<le> unat e"
    by (auto simp: key_range_def simp del: upt_Suc)
  then have "unat k = n"
    using unat_bound [of e] by (simp add: unat_of_nat_small)
  with n show "i \<le> k \<and> k \<le> e" by (simp add: word_le_nat_alt)
next
  assume "i \<le> k \<and> k \<le> e"
  then show "k \<in> set (key_range i e)"
    by (auto simp: key_range_def word_le_nat_alt simp del: upt_Suc
        intro: image_eqI [where x = "unat k"])
qed

lemma set_key_range_subset: "set (key_range i e) \<subseteq> {i..e}"
  by (auto simp: set_key_range)

lemma distinct_key_range: "distinct (key_range i e)"
proof -
  have "inj_on (of_nat :: nat \<Rightarrow> u64) {unat i ..< Suc (unat e)}"
  proof (rule inj_onI)
    fix m n
    assume "m \<in> {unat i ..< Suc (unat e)}" "n \<in> {unat i ..< Suc (unat e)}"
      and eq: "(of_nat m :: u64) = of_nat n"
    then have "m < 2 ^ LENGTH(64)" "n < 2 ^ LENGTH(64)"
      using unat_bound [of e] by auto
    with eq show "m = n" by (metis unat_of_nat_small)
  qed
  then show ?thesis by (simp add: key_range_def distinct_map del: upt_Suc)
qed

lemma length_key_range: "length (key_range i e) = Suc (unat e) - unat i"
  by (simp add: key_range_def del: upt_Suc)

section \<open>Running a loop body\<close>

text \<open>The body returns \<open>Inl\<close> to leave the function, \<open>Inr\<close> to go on.\<close>

fun run_keys :: "(u64 \<Rightarrow> 's \<Rightarrow> ('r + 's) option) \<Rightarrow> ('s \<Rightarrow> 'r) \<Rightarrow> u64 list \<Rightarrow> 's \<Rightarrow> 'r option" where
  "run_keys body fin [] s = Some (fin s)"
| "run_keys body fin (k # ks) s =
     (case body k s of
        None \<Rightarrow> None
      | Some (Inl r) \<Rightarrow> Some r
      | Some (Inr s') \<Rightarrow> run_keys body fin ks s')"

locale counted_loop =
  fixes body :: "u64 \<Rightarrow> 's \<Rightarrow> ('r + 's) option"
    and fin :: "'s \<Rightarrow> 'r"
    and loop :: "u64 \<Rightarrow> u64 \<Rightarrow> 's \<Rightarrow> 'r option"
  assumes loop_unfold:
    "loop e i s =
       (if i \<le> e then
          (case body i s of
             None \<Rightarrow> None
           | Some (Inl r) \<Rightarrow> Some r
           | Some (Inr s') \<Rightarrow> loop e (i + 1) s')
        else Some (fin s))"
begin

lemma loop_beyond: "e < i \<Longrightarrow> loop e i s = Some (fin s)"
  by (subst loop_unfold) (auto dest: leD)

lemma loop_eq_run_keys:
  assumes e: "e \<noteq> - 1"
  shows "loop e i s = run_keys body fin (key_range i e) s"
proof (induction "unat (e + 1 - i)" arbitrary: i s rule: less_induct)
  case less
  show ?case
  proof (cases "i \<le> e")
    case True
    then have "i \<noteq> e + 1"
      using word_less_plus_1 [OF e] by auto
    then have "unat (e + 1 - (i + 1)) < unat (e + 1 - i)"
      by (rule unat_distance_less)
    then have "loop e (i + 1) s' = run_keys body fin (key_range (i + 1) e) s'" for s'
      using less by blast
    then show ?thesis
      by (subst loop_unfold) (simp add: True e key_range_Cons split: option.split sum.split)
  next
    case False
    then show ?thesis by (simp add: loop_beyond)
  qed
qed

text \<open>An invariant of the body holds when the loop is left, and a body that always returns
  makes the loop return.\<close>

lemma loop_invariant:
  assumes e: "e \<noteq> - 1" and l: "loop e i s = Some r" and P: "P s"
    and step: "\<And>k s s'. i \<le> k \<Longrightarrow> k \<le> e \<Longrightarrow> P s \<Longrightarrow> body k s = Some (Inr s') \<Longrightarrow> P s'"
    and exit: "\<And>k s r. i \<le> k \<Longrightarrow> k \<le> e \<Longrightarrow> P s \<Longrightarrow> body k s = Some (Inl r) \<Longrightarrow> Q r"
    and fin: "\<And>s. P s \<Longrightarrow> Q (fin s)"
  shows "Q r"
proof -
  have "\<lbrakk>run_keys body fin ks s = Some r; set ks \<subseteq> {i..e}; P s\<rbrakk> \<Longrightarrow> Q r" for ks
  proof (induction ks arbitrary: s)
    case (Cons k ks)
    then show ?case
      by (fastforce split: option.splits sum.splits intro: step exit)
  qed (auto intro: fin)
  from this [OF _ set_key_range_subset] show ?thesis
    using l P by (simp add: loop_eq_run_keys [OF e])
qed

lemma loop_returns:
  assumes e: "e \<noteq> - 1" and P: "P s"
    and step: "\<And>k s. i \<le> k \<Longrightarrow> k \<le> e \<Longrightarrow> P s \<Longrightarrow> body k s \<noteq> None"
    and pres: "\<And>k s s'. i \<le> k \<Longrightarrow> k \<le> e \<Longrightarrow> P s \<Longrightarrow> body k s = Some (Inr s') \<Longrightarrow> P s'"
  shows "\<exists>r. loop e i s = Some r"
proof -
  have "\<lbrakk>set ks \<subseteq> {i..e}; P s\<rbrakk> \<Longrightarrow> \<exists>r. run_keys body fin ks s = Some r" for ks
  proof (induction ks arbitrary: s)
    case (Cons k ks)
    then obtain x where x: "body k s = Some x" using step by fastforce
    show ?case
    proof (cases x)
      case (Inr s')
      with x Cons.prems have "P s'" by (auto intro: pres)
      with x Inr Cons show ?thesis by auto
    qed (simp add: x)
  qed auto
  from this [OF set_key_range_subset P] show ?thesis
    by (simp add: loop_eq_run_keys [OF e])
qed

end

end
