(* ===== verification/ConsensusLemmas.thy ===== *)
theory ConsensusLemmas
  imports Consensus Loops "HOL-Library.Sublist"
begin

text \<open>
  Facts about the parts of theory Consensus that its properties share: what each
  operation leaves alone, the loops as instances of the counted loop, and what the
  execution loops compute.
\<close>

section \<open>Effects\<close>

fun user_cbs :: "effect list \<Rightarrow> (u64 \<times> bytes) list" where
  "user_cbs [] = []"
| "user_cbs (UserCb n b # es) = (n, b) # user_cbs es"
| "user_cbs (Upcall m t # es) = user_cbs es"

fun upcalls :: "effect list \<Rightarrow> (bytes \<times> i32) list" where
  "upcalls [] = []"
| "upcalls (UserCb n b # es) = upcalls es"
| "upcalls (Upcall m t # es) = (m, t) # upcalls es"

lemma user_cbs_append [simp]: "user_cbs (es @ fs) = user_cbs es @ user_cbs fs"
  by (induction es rule: user_cbs.induct) auto

lemma upcalls_append [simp]: "upcalls (es @ fs) = upcalls es @ upcalls fs"
  by (induction es rule: upcalls.induct) auto

section \<open>What operations leave alone\<close>

text \<open>
  Everything except the three view stamps, the database and the effects, and the effects only
  grow.
\<close>

definition same_config :: "('d, 'z) comp \<Rightarrow> ('d, 'z) comp \<Rightarrow> bool" where
  "same_config c c' \<longleftrightarrow>
     c' = c\<lparr>highest_seen_vs := highest_seen_vs c', highest_to_commit_vs := highest_to_commit_vs c',
            highest_committed_vs := highest_committed_vs c', disk := disk c',
            effects := effects c'\<rparr> \<and>
     prefix (effects c) (effects c')"

lemma same_config_refl [simp, intro]: "same_config c c"
  by (simp add: same_config_def)

lemma same_config_trans [trans]: "same_config a b \<Longrightarrow> same_config b c \<Longrightarrow> same_config a c"
  unfolding same_config_def by (cases a; cases b; cases c) (auto dest: prefix_order.trans)

lemma same_configD [frame]:
  assumes "same_config c c'"
  shows "my_role c' = my_role c" "cc_node_id c' = cc_node_id c" "deliver_mode c' = deliver_mode c"
    "cc_group_size c' = cc_group_size c" "cur_view c' = cur_view c" "cc_db_ptr c' = cc_db_ptr c"
    "uc_set c' = uc_set c" "ucb_set c' = ucb_set c"
    "consensus_component.more c' = consensus_component.more c"
  using assms unfolding same_config_def by (cases c; cases c'; simp)+

lemma same_config_effects: "same_config c c' \<Longrightarrow> \<exists>es. effects c' = effects c @ es"
  by (auto simp: same_config_def prefix_def)

lemma same_config_upd [simp]:
  "same_config c (c'\<lparr>highest_committed_vs := vs\<rparr>) = same_config c c'"
  "same_config c (c'\<lparr>highest_to_commit_vs := vs\<rparr>) = same_config c c'"
  "same_config c (c'\<lparr>highest_seen_vs := vs\<rparr>) = same_config c c'"
  "same_config c (c'\<lparr>disk := d\<rparr>) = same_config c c'"
  "same_config (c\<lparr>highest_committed_vs := vs\<rparr>) c' = same_config c c'"
  "same_config (c\<lparr>highest_to_commit_vs := vs\<rparr>) c' = same_config c c'"
  "same_config (c\<lparr>highest_seen_vs := vs\<rparr>) c' = same_config c c'"
  "same_config (c\<lparr>disk := d\<rparr>) c' = same_config c c'"
  by (cases c; cases c'; auto simp: same_config_def)+

lemma same_config_effects_upd [simp]: "same_config c (c\<lparr>effects := effects c @ es\<rparr>)"
  by (simp add: same_config_def)

text \<open>Execution: moreover the database and the highest seen view stamp stay, and the only messages
  are requests for missing records.\<close>

definition only_executes :: "('d, 'z) comp \<Rightarrow> ('d, 'z) comp \<Rightarrow> bool" where
  "only_executes c c' \<longleftrightarrow>
     same_config c c' \<and> disk c' = disk c \<and> highest_seen_vs c' = highest_seen_vs c \<and>
     (\<exists>es. effects c' = effects c @ es \<and>
       (\<forall>(m, t) \<in> set (upcalls es). ld 4 0 m = Some (con_code_val MISSING_REQ)))"

lemma only_executes_refl [simp, intro]: "only_executes c c"
  by (auto simp: only_executes_def)

lemma only_executes_trans [trans]: "only_executes a b \<Longrightarrow> only_executes b c \<Longrightarrow> only_executes a c"
  unfolding only_executes_def by (auto intro: same_config_trans)

lemma only_executes_upd [simp]:
  "only_executes c (c'\<lparr>highest_committed_vs := vs\<rparr>) = only_executes c c'"
  "only_executes c (c'\<lparr>highest_to_commit_vs := vs\<rparr>) = only_executes c c'"
  "only_executes (c\<lparr>highest_committed_vs := vs\<rparr>) c' = only_executes c c'"
  "only_executes (c\<lparr>highest_to_commit_vs := vs\<rparr>) c' = only_executes c c'"
  by (simp_all add: only_executes_def)

lemma only_executesD: "only_executes c c' \<Longrightarrow> same_config c c'"
  by (simp add: only_executes_def)

lemma deliver_executes: "deliver_msg_data E vs c = Some c' \<Longrightarrow> only_executes c c'"
  by (auto simp: only_executes_def deliver_msg_data_def Let_def split: if_splits option.splits)

lemma build_missing_req_code:
  "build_missing_req E c vs = Some (Some m) \<Longrightarrow> ld 4 0 m = Some (con_code_val MISSING_REQ)"
  by (auto simp: build_missing_req_def enc_missing_req_def dest!: alloc_fill_Some_SomeD)
    (simp add: layout)

lemma send_missing_req_executes: "send_missing_req E vs c = Some c' \<Longrightarrow> only_executes c c'"
  by (auto simp: send_missing_req_def only_executes_def call_uc_def build_missing_req_code
      split: option.splits if_splits)

lemma call_uc_frame [frame]: "call_uc m t c = Some c' \<Longrightarrow> same_config c c'"
  by (auto simp: call_uc_def split: if_splits)

lemma deliver_frame [frame]: "deliver_msg_data E vs c = Some c' \<Longrightarrow> same_config c c'"
  by (auto simp: deliver_msg_data_def Let_def split: if_splits option.splits)

lemma send_missing_req_frame [frame]: "send_missing_req E vs c = Some c' \<Longrightarrow> same_config c c'"
  by (auto simp: send_missing_req_def dest: call_uc_frame split: option.splits)

lemma store_frame [frame]: "store E c k v = (r, c') \<Longrightarrow> same_config c c'"
  by (auto simp: store_def split: prod.splits)

lemma snd_store_frame [simp]: "same_config c (snd (store E c k v))"
  by (rule store_frame [of E c k v "fst (store E c k v)"]) simp

lemma snd_store_frame_trans: "same_config (snd (store E c k v)) c' \<Longrightarrow> same_config c c'"
  by (rule same_config_trans [OF snd_store_frame])

lemma execute_loop_executes:
  assumes "execute_loop E e f i c = Some c'"
  shows "only_executes c c'"
proof (rule execute_loop.raw_induct [where P = "\<lambda>E e f i c c'. only_executes c c'", OF _ assms])
  fix loop E e f i and c c' :: "('a, 'b) comp"
  assume IH: "\<And>E e f i c c'. loop E e f i c = Some c' \<Longrightarrow> only_executes c (c' :: ('a, 'b) comp)"
    and eq: "(if i \<le> e then do {
        let missing_vs = ltovs i;
        let missing = (fst (retrieve E c i) \<noteq> 0);
        c1 \<leftarrow> (if missing then send_missing_req E missing_vs c else Some c);
        let exec_flag' = (f \<and> \<not> missing);
        c2 \<leftarrow> (if exec_flag' then do {
            c' \<leftarrow> deliver_msg_data E missing_vs c1;
            Some (c'\<lparr>highest_committed_vs := view_stamp_inc (highest_committed_vs c')\<rparr>)
          } else Some c1);
        loop E e exec_flag' (i + 1) c2
      } else Some c) = Some c'"
  then show "only_executes c c'"
    by (auto simp: Let_def split: if_splits
        dest!: IH send_missing_req_executes deliver_executes intro: only_executes_trans)
qed

lemma leader_execute_loop_executes:
  assumes "leader_execute_loop E e f i d c = Some c'"
  shows "only_executes c c'"
proof (rule leader_execute_loop.raw_induct
    [where P = "\<lambda>E e f i d c c'. only_executes c c'", OF _ assms])
  fix loop E e f i d and c c' :: "('a, 'b) comp"
  assume IH: "\<And>E e f i d c c'. loop E e f i d c = Some c' \<Longrightarrow> only_executes c (c' :: ('a, 'b) comp)"
    and eq: "(if i \<le> e then
        (let record_data' = (case snd (retrieve E c i) of None \<Rightarrow> d | Some b \<Rightarrow> Some b) in
         (case record_data' of
            None \<Rightarrow> None
          | Some data \<Rightarrow> do {
              r \<leftarrow> dec_request_record data;
              if reached_quorum r (cc_group_size c) then do {
                let c1 = c\<lparr>highest_to_commit_vs := view_stamp_inc (highest_to_commit_vs c)\<rparr>;
                c2 \<leftarrow> (if f then do {
                    c' \<leftarrow> deliver_msg_data E (ltovs i) c1;
                    Some (c'\<lparr>highest_committed_vs := view_stamp_inc (highest_committed_vs c')\<rparr>)
                  } else Some c1);
                loop E e f (i + 1) record_data' c2
              }
              else Some c
            }))
      else Some c) = Some c'"
  show "only_executes c c'"
    using eq by (cases "snd (retrieve E c i)")
      (auto simp: Let_def split: if_splits option.splits
        dest!: IH deliver_executes intro: only_executes_trans)
qed

lemma make_progress_loop_frame:
  assumes "make_progress_loop E e i c = Some c'"
  shows "same_config c c'"
proof (rule make_progress_loop.raw_induct
    [where P = "\<lambda>E e i c c'. same_config c c'", OF _ assms])
  fix loop E e i and c c' :: "('a, 'b) comp"
  assume IH: "\<And>E e i c c'. loop E e i c = Some c' \<Longrightarrow> same_config c (c' :: ('a, 'b) comp)"
    and eq: "(if i \<le> e then
        (case snd (retrieve E c i) of
           None \<Rightarrow> None
         | Some record_data \<Rightarrow> do {
             r \<leftarrow> dec_request_record record_data;
             c \<leftarrow> (if \<not> reached_quorum r (cc_group_size c) then do {
                 m \<leftarrow> build_accept_req E c (REQ_RECORD_SIZE r) record_data (ltovs i);
                 (case m of None \<Rightarrow> Some c | Some msg \<Rightarrow> call_uc msg (- 1) c)
               } else Some c);
             loop E e (i + 1) c
           })
      else Some c) = Some c'"
  then show "same_config c c'"
    by (auto split: if_splits option.splits dest!: IH call_uc_frame intro: same_config_trans)
qed

lemma leader_try_to_execute_executes: "leader_try_to_execute E c = Some c' \<Longrightarrow> only_executes c c'"
  by (auto simp: leader_try_to_execute_def Let_def split: if_splits
      dest!: leader_execute_loop_executes)

lemma try_to_execute_executes: "try_to_execute E c = Some c' \<Longrightarrow> only_executes c c'"
  by (auto simp: try_to_execute_def Let_def split: if_splits option.splits
      dest!: leader_try_to_execute_executes execute_loop_executes send_missing_req_executes
      intro: only_executes_trans)

lemmas leader_try_to_execute_frame = leader_try_to_execute_executes [THEN only_executesD]
lemmas try_to_execute_frame = try_to_execute_executes [THEN only_executesD]

lemma leader_handle_submit_req_frame:
  "leader_handle_submit_req E n b c = Some (r, vs, c') \<Longrightarrow> same_config c c'"
  by (auto simp: leader_handle_submit_req_def Let_def split_beta split: if_splits option.splits
      dest!: call_uc_frame try_to_execute_frame snd_store_frame_trans)

lemma consensus_submit_request_frame:
  "consensus_submit_request E n b c = Some (r, vs, c') \<Longrightarrow> same_config c c'"
  by (auto simp: consensus_submit_request_def forward_submit_req_def split: if_splits option.splits
      dest!: leader_handle_submit_req_frame call_uc_frame)

lemma handle_accept_req_store_frame:
  "handle_accept_req_store E m b c = Some c' \<Longrightarrow> same_config c c'"
  by (auto simp: handle_accept_req_store_def Let_def split_beta split: if_splits option.splits
      dest!: call_uc_frame dest: snd_store_frame_trans)

lemma handle_accept_req_frame: "handle_accept_req E b c = Some c' \<Longrightarrow> same_config c c'"
  by (auto simp: handle_accept_req_def Let_def split: if_splits
      dest!: handle_accept_req_store_frame try_to_execute_frame intro: same_config_trans)

lemma handle_accept_ack_frame: "handle_accept_ack E b c = Some c' \<Longrightarrow> same_config c c'"
  by (auto simp: handle_accept_ack_def Let_def split: if_splits option.splits
      dest!: try_to_execute_frame intro: snd_store_frame_trans)

lemma handle_missing_req_frame: "handle_missing_req E b c = Some c' \<Longrightarrow> same_config c c'"
  by (auto simp: handle_missing_req_def split: option.splits dest: call_uc_frame)

lemma handle_missing_ack_frame: "handle_missing_ack E b c = Some c' \<Longrightarrow> same_config c c'"
  by (auto simp: handle_missing_ack_def Let_def split: if_splits option.splits
      dest!: try_to_execute_frame intro: snd_store_frame_trans)

lemma handle_force_exec_frame: "handle_force_exec E b c = Some c' \<Longrightarrow> same_config c c'"
  by (auto simp: handle_force_exec_def split: if_splits dest!: try_to_execute_frame)

lemma handle_forward_req_frame: "handle_forward_req E b c = Some c' \<Longrightarrow> same_config c c'"
  by (auto simp: handle_forward_req_def split: if_splits dest!: leader_handle_submit_req_frame)

lemma con_code_of_SomeD: "con_code_of w = Some code \<Longrightarrow> w = con_code_val code"
  by (auto simp: con_code_of_def split: if_splits)

text \<open>The message types that \<open>consensus_handle_msg\<close> tells apart.\<close>

lemma consensus_handle_msgE:
  assumes "consensus_handle_msg E b c = Some c'"
  obtains
    (accept_req) "ld 4 0 b = Some (con_code_val ACCEPT_REQ)" "handle_accept_req E b c = Some c'"
  | (accept_ack) "ld 4 0 b = Some (con_code_val ACCEPT_ACK)" "handle_accept_ack E b c = Some c'"
  | (missing_req) "ld 4 0 b = Some (con_code_val MISSING_REQ)" "handle_missing_req E b c = Some c'"
  | (missing_ack) "ld 4 0 b = Some (con_code_val MISSING_ACK)" "handle_missing_ack E b c = Some c'"
  | (force_exec) "ld 4 0 b = Some (con_code_val FORCE_EXEC)" "handle_force_exec E b c = Some c'"
  | (forward_req) "ld 4 0 b = Some (con_code_val FORWARD_REQ)" "handle_forward_req E b c = Some c'"
  | (unknown) "c' = c"
proof -
  from assms obtain w where w: "ld 4 0 b = Some w"
    and h: "(case con_code_of w of
        Some ACCEPT_REQ \<Rightarrow> handle_accept_req E b c
      | Some ACCEPT_ACK \<Rightarrow> handle_accept_ack E b c
      | Some MISSING_REQ \<Rightarrow> handle_missing_req E b c
      | Some MISSING_ACK \<Rightarrow> handle_missing_ack E b c
      | Some FORCE_EXEC \<Rightarrow> handle_force_exec E b c
      | Some FORWARD_REQ \<Rightarrow> handle_forward_req E b c
      | None \<Rightarrow> Some c) = Some c'"
    unfolding consensus_handle_msg_def by auto
  show thesis
  proof (cases "con_code_of w")
    case None
    with h show thesis by (auto intro: unknown)
  next
    case (Some code)
    with h w con_code_of_SomeD [OF Some] show thesis
      by (cases code) (auto intro: that)
  qed
qed

lemma consensus_handle_msg_frame: "consensus_handle_msg E b c = Some c' \<Longrightarrow> same_config c c'"
  by (erule consensus_handle_msgE)
    (auto dest: handle_accept_req_frame handle_accept_ack_frame handle_missing_req_frame
        handle_missing_ack_frame handle_force_exec_frame handle_forward_req_frame)

lemma consensus_make_progress_frame: "consensus_make_progress E c = Some c' \<Longrightarrow> same_config c c'"
  by (auto simp: consensus_make_progress_def Let_def split: if_splits option.splits
      dest!: leader_try_to_execute_frame make_progress_loop_frame call_uc_frame
      intro: same_config_trans)

end
