(* ===== verification/ConsensusExec.thy ===== *)
theory ConsensusExec
  imports ConsensusLemmas
begin

text \<open>
  What the two execution loops compute. Both are counted loops over record numbers; the
  component they start from decides what each iteration does, because an iteration changes only
  the view stamps and the effects, never the database.
\<close>

section \<open>Stepping a view stamp\<close>

lemma view_stamp_inc_pow:
  "(view_stamp_inc ^^ n) vs = vs\<lparr>vs_req_id := vs_req_id vs + of_nat n\<rparr>"
  by (induction n) (simp_all add: view_stamp_inc_def algebra_simps)

lemma view_id_inc_pow [simp]: "vs_view_id ((view_stamp_inc ^^ n) vs) = vs_view_id vs"
  by (simp add: view_stamp_inc_pow)

lemma unat_vstol: "unat (vstol vs) = unat (vs_req_id vs) + unat (vs_view_id vs) * 4294967296"
proof -
  have "int (unat (vstol vs)) = int (unat (vs_req_id vs) + unat (vs_view_id vs) * 4294967296)"
    using uint_vstol [of vs] by (simp only: uint_nat of_nat_add of_nat_mult of_nat_numeral)
  then show ?thesis by (simp only: of_nat_eq_iff)
qed

lemma inc_pow_within:
  assumes "vs_view_id vs = vs_view_id ws" "n \<le> unat (vstol ws) - unat (vstol vs)" "vs \<le> ws"
  shows "(view_stamp_inc ^^ n) vs \<le> ws" "vs \<le> (view_stamp_inc ^^ n) vs"
    "vstol ((view_stamp_inc ^^ n) vs) = vstol vs + of_nat n"
proof -
  have n: "unat (vs_req_id vs) + n \<le> unat (vs_req_id ws)"
    using assms by (auto simp: unat_vstol vs_le_iff word_le_nat_alt)
  then have "unat (vs_req_id vs) + n < 2 ^ LENGTH(32)"
    using unat_bound [of "vs_req_id ws"] by linarith
  then have r: "unat (vs_req_id vs + of_nat n) = unat (vs_req_id vs) + n"
    by (simp add: unat_word_ariths unat_of_nat take_bit_nat_eq_self)
  then show "(view_stamp_inc ^^ n) vs \<le> ws"
    using n assms(1) by (simp add: view_stamp_inc_pow vs_le_iff word_le_nat_alt)
  show "vs \<le> (view_stamp_inc ^^ n) vs"
    using r by (simp add: view_stamp_inc_pow vs_le_iff word_le_nat_alt)
  have "unat (vstol vs) + n < 2 ^ LENGTH(64)"
    using n unat_bound [of "vstol ws"] assms(1) by (simp add: unat_vstol)
  then have "unat (vstol vs + of_nat n) = unat (vstol vs) + n"
    by (simp add: unat_word_ariths unat_of_nat take_bit_nat_eq_self)
  then have "unat (vstol ((view_stamp_inc ^^ n) vs)) = unat (vstol vs + of_nat n)"
    using r by (simp add: unat_vstol view_stamp_inc_pow)
  then show "vstol ((view_stamp_inc ^^ n) vs) = vstol vs + of_nat n"
    by (simp only: word_unat_eq_iff)
qed

lemma length_keys_after:
  assumes "vstol vs \<noteq> - 1"
  shows "length (key_range (vstol vs + 1) (vstol ws)) = unat (vstol ws) - unat (vstol vs)"
  using unat_plus_1 [OF assms] by (simp add: length_key_range)

section \<open>Single iterations\<close>

definition present :: "'d env \<Rightarrow> ('d, 'z) comp \<Rightarrow> u64 \<Rightarrow> bool" where
  "present E c k \<longleftrightarrow> fst (retrieve E c k) = 0"

definition delivery :: "'d env \<Rightarrow> ('d, 'z) comp \<Rightarrow> view_stamp \<Rightarrow> effect list option" where
  "delivery E c vs =
     (if deliver_mode c = 1 then
        (case snd (retrieve E c (vstol vs)) of
           None \<Rightarrow> Some []
         | Some data \<Rightarrow>
             if ucb_set c then
               map_option (\<lambda>r. [UserCb (rr_data_size r) (drop request_record_len data)])
                 (dec_request_record data)
             else Some [])
      else Some (if ucb_set c then [UserCb 8 (le 8 (vstol vs))] else []))"

definition missing_notice :: "'d env \<Rightarrow> ('d, 'z) comp \<Rightarrow> view_stamp \<Rightarrow> effect list option" where
  "missing_notice E c vs =
     (case build_missing_req E c vs of
        None \<Rightarrow> None
      | Some None \<Rightarrow> Some []
      | Some (Some m) \<Rightarrow> if uc_set c then Some [Upcall m (- 1)] else None)"

lemma deliver_alt:
  "deliver_msg_data E vs c = map_option (\<lambda>es. c\<lparr>effects := effects c @ es\<rparr>) (delivery E c vs)"
proof (cases "snd (retrieve E c (vstol vs))")
  case None
  then show ?thesis by (simp add: deliver_msg_data_def delivery_def)
next
  case (Some b)
  then show ?thesis
    by (cases "dec_request_record b") (simp_all add: deliver_msg_data_def delivery_def)
qed

lemma send_missing_alt:
  "send_missing_req E vs c = map_option (\<lambda>es. c\<lparr>effects := effects c @ es\<rparr>) (missing_notice E c vs)"
  by (auto simp: send_missing_req_def missing_notice_def call_uc_def split: option.splits)

lemma retrieve_upd [simp]:
  "retrieve E (c\<lparr>effects := es\<rparr>) = retrieve E c"
  "retrieve E (c\<lparr>highest_committed_vs := vs\<rparr>) = retrieve E c"
  "retrieve E (c\<lparr>highest_to_commit_vs := vs\<rparr>) = retrieve E c"
  "retrieve E (c\<lparr>highest_seen_vs := vs\<rparr>) = retrieve E c"
  by (simp_all add: retrieve_def fun_eq_iff)

lemma present_upd [simp]:
  "present E (c\<lparr>effects := es\<rparr>) = present E c"
  "present E (c\<lparr>highest_committed_vs := vs\<rparr>) = present E c"
  "present E (c\<lparr>highest_to_commit_vs := vs\<rparr>) = present E c"
  "present E (c\<lparr>highest_seen_vs := vs\<rparr>) = present E c"
  by (simp_all add: present_def fun_eq_iff)

lemma delivery_upd [simp]:
  "delivery E (c\<lparr>effects := es\<rparr>) = delivery E c"
  "delivery E (c\<lparr>highest_committed_vs := vs\<rparr>) = delivery E c"
  "delivery E (c\<lparr>highest_to_commit_vs := vs\<rparr>) = delivery E c"
  "delivery E (c\<lparr>highest_seen_vs := vs\<rparr>) = delivery E c"
  by (simp_all add: delivery_def fun_eq_iff split: option.split)

lemma missing_notice_upd [simp]:
  "missing_notice E (c\<lparr>effects := es\<rparr>) = missing_notice E c"
  "missing_notice E (c\<lparr>highest_committed_vs := vs\<rparr>) = missing_notice E c"
  "missing_notice E (c\<lparr>highest_to_commit_vs := vs\<rparr>) = missing_notice E c"
  "missing_notice E (c\<lparr>highest_seen_vs := vs\<rparr>) = missing_notice E c"
  by (simp_all add: missing_notice_def build_missing_req_def fun_eq_iff cong: option.case_cong)

section \<open>The follower's loop\<close>

definition execute_body ::
  "'d env \<Rightarrow> u64 \<Rightarrow> bool \<times> ('d, 'z) comp \<Rightarrow> (('d, 'z) comp + bool \<times> ('d, 'z) comp) option" where
  "execute_body E k s = (case s of (exec_flag, c) \<Rightarrow> do {
     c1 \<leftarrow> (if \<not> present E c k then send_missing_req E (ltovs k) c else Some c);
     let exec_flag' = (exec_flag \<and> present E c k);
     c2 \<leftarrow> (if exec_flag' then do {
         c' \<leftarrow> deliver_msg_data E (ltovs k) c1;
         Some (c'\<lparr>highest_committed_vs := view_stamp_inc (highest_committed_vs c')\<rparr>)
       } else Some c1);
     Some (Inr (exec_flag', c2))
   })"

interpretation exec: counted_loop "execute_body E" snd
  "\<lambda>e i s. execute_loop E e (fst s) i (snd s)" for E :: "'d env"
proof
  fix e i and s :: "bool \<times> ('d, 'z) comp"
  show "execute_loop E e (fst s) i (snd s) =
    (if i \<le> e then
       (case execute_body E i s of
          None \<Rightarrow> None
        | Some (Inl r) \<Rightarrow> Some r
        | Some (Inr s') \<Rightarrow> execute_loop E e (fst s') (i + 1) (snd s'))
     else Some (snd s))"
    by (cases s, subst execute_loop.simps)
      (auto simp: execute_body_def present_def Let_def Option.bind_eq_None_conv split: option.split)
qed

text \<open>The effects of the loop over a list of record numbers; no result where it does not return.\<close>

fun execute_effects :: "'d env \<Rightarrow> ('d, 'z) comp \<Rightarrow> bool \<Rightarrow> u64 list \<Rightarrow> effect list option" where
  "execute_effects E c f [] = Some []"
| "execute_effects E c f (k # ks) = do {
     es \<leftarrow> (if present E c k then (if f then delivery E c (ltovs k) else Some [])
           else missing_notice E c (ltovs k));
     fs \<leftarrow> execute_effects E c (f \<and> present E c k) ks;
     Some (es @ fs)
   }"

lemma execute_effects_upd [simp]:
  "execute_effects E (c\<lparr>effects := es\<rparr>) = execute_effects E c"
  "execute_effects E (c\<lparr>highest_committed_vs := vs\<rparr>) = execute_effects E c"
  "execute_effects E (c\<lparr>highest_to_commit_vs := vs\<rparr>) = execute_effects E c"
  "execute_effects E (c\<lparr>highest_seen_vs := vs\<rparr>) = execute_effects E c"
proof -
  have "execute_effects E c f ks = execute_effects E c' f ks"
    if "present E c = present E c'" "delivery E c = delivery E c'"
      "missing_notice E c = missing_notice E c'" for c' f ks
    by (induction ks arbitrary: f) (simp_all add: that)
  note * = this
  show "execute_effects E (c\<lparr>effects := es\<rparr>) = execute_effects E c"
    "execute_effects E (c\<lparr>highest_committed_vs := vs\<rparr>) = execute_effects E c"
    "execute_effects E (c\<lparr>highest_to_commit_vs := vs\<rparr>) = execute_effects E c"
    "execute_effects E (c\<lparr>highest_seen_vs := vs\<rparr>) = execute_effects E c"
    by (intro ext, rule * [symmetric]; simp)+
qed

definition delivered :: "'d env \<Rightarrow> ('d, 'z) comp \<Rightarrow> bool \<Rightarrow> u64 list \<Rightarrow> u64 list" where
  "delivered E c f ks = (if f then takeWhile (present E c) ks else [])"

lemma execute_body_alt:
  "execute_body E k (f, c) =
     (if present E c k then
        if f then map_option (\<lambda>es. Inr (True, c\<lparr>highest_committed_vs :=
            view_stamp_inc (highest_committed_vs c), effects := effects c @ es\<rparr>))
          (delivery E c (ltovs k))
        else Some (Inr (False, c))
      else map_option (\<lambda>es. Inr (False, c\<lparr>effects := effects c @ es\<rparr>))
        (missing_notice E c (ltovs k)))"
  by (cases "delivery E c (ltovs k)"; cases "missing_notice E c (ltovs k)")
    (simp_all add: execute_body_def deliver_alt send_missing_alt)

lemma execute_run:
  "run_keys (execute_body E) snd ks (f, c) =
     map_option (\<lambda>es. c\<lparr>highest_committed_vs :=
         (view_stamp_inc ^^ length (delivered E c f ks)) (highest_committed_vs c),
         effects := effects c @ es\<rparr>)
       (execute_effects E c f ks)"
proof (induction ks arbitrary: f c)
  case (Cons k ks)
  show ?case
    by (cases f; cases "delivery E c (ltovs k)"; cases "missing_notice E c (ltovs k)";
        cases "execute_effects E c True ks"; cases "execute_effects E c False ks")
      (simp_all add: execute_body_alt Cons delivered_def funpow_swap1)
qed (simp add: delivered_def)

lemma execute_loop_eq:
  assumes "e \<noteq> - 1"
  shows "execute_loop E e f i c =
     map_option (\<lambda>es. c\<lparr>highest_committed_vs :=
         (view_stamp_inc ^^ length (delivered E c f (key_range i e))) (highest_committed_vs c),
         effects := effects c @ es\<rparr>)
       (execute_effects E c f (key_range i e))"
  using exec.loop_eq_run_keys [OF assms, where i = i and s = "(f, c)"] by (simp add: execute_run)

section \<open>The leader's loop\<close>

definition quorate :: "'d env \<Rightarrow> ('d, 'z) comp \<Rightarrow> u64 \<Rightarrow> bool" where
  "quorate E c k =
     (case snd (retrieve E c k) of
        None \<Rightarrow> False
      | Some b \<Rightarrow> (case dec_request_record b of
          None \<Rightarrow> False
        | Some r \<Rightarrow> reached_quorum r (cc_group_size c)))"

definition readable :: "'d env \<Rightarrow> ('d, 'z) comp \<Rightarrow> u64 \<Rightarrow> bool" where
  "readable E c k =
     (case snd (retrieve E c k) of
        None \<Rightarrow> False
      | Some b \<Rightarrow> dec_request_record b \<noteq> None)"

lemma quorate_upd [simp]:
  "quorate E (c\<lparr>effects := es\<rparr>) = quorate E c"
  "quorate E (c\<lparr>highest_committed_vs := vs\<rparr>) = quorate E c"
  "quorate E (c\<lparr>highest_to_commit_vs := vs\<rparr>) = quorate E c"
  "quorate E (c\<lparr>highest_seen_vs := vs\<rparr>) = quorate E c"
  by (simp_all add: quorate_def fun_eq_iff cong: option.case_cong)

lemma readable_upd [simp]:
  "readable E (c\<lparr>effects := es\<rparr>) = readable E c"
  "readable E (c\<lparr>highest_committed_vs := vs\<rparr>) = readable E c"
  "readable E (c\<lparr>highest_to_commit_vs := vs\<rparr>) = readable E c"
  "readable E (c\<lparr>highest_seen_vs := vs\<rparr>) = readable E c"
  by (simp_all add: readable_def fun_eq_iff)

lemma quorate_readable: "quorate E c k \<Longrightarrow> readable E c k"
  by (auto simp: quorate_def readable_def split: option.splits)

lemma readable_present: "readable E c k \<Longrightarrow> present E c k"
  by (auto simp: readable_def present_def retrieve_def split: option.splits dest: rs.present_ok)

lemma readable_delivery: "readable E c k \<Longrightarrow> delivery E c (ltovs k) \<noteq> None"
  by (auto simp: readable_def delivery_def split: option.splits)

definition leader_body ::
  "'d env \<Rightarrow> bool \<Rightarrow> u64 \<Rightarrow> bytes option \<times> ('d, 'z) comp \<Rightarrow>
    (('d, 'z) comp + bytes option \<times> ('d, 'z) comp) option" where
  "leader_body E f k s = (case s of (d, c) \<Rightarrow>
     (let d' = (case snd (retrieve E c k) of None \<Rightarrow> d | Some b \<Rightarrow> Some b) in
      (case d' of
         None \<Rightarrow> None
       | Some data \<Rightarrow> do {
           r \<leftarrow> dec_request_record data;
           if reached_quorum r (cc_group_size c) then do {
             let c1 = c\<lparr>highest_to_commit_vs := view_stamp_inc (highest_to_commit_vs c)\<rparr>;
             c2 \<leftarrow> (if f then do {
                 c' \<leftarrow> deliver_msg_data E (ltovs k) c1;
                 Some (c'\<lparr>highest_committed_vs := view_stamp_inc (highest_committed_vs c')\<rparr>)
               } else Some c1);
             Some (Inr (d', c2))
           }
           else Some (Inl c)
         })))"

lemma leader_loop_unfold:
  "leader_execute_loop E e f i (fst s) (snd s) =
    (if i \<le> e then
       (case leader_body E f i s of
          None \<Rightarrow> None
        | Some (Inl r) \<Rightarrow> Some r
        | Some (Inr s') \<Rightarrow> leader_execute_loop E e f (i + 1) (fst s') (snd s'))
     else Some (snd s))"
  by (cases s, subst leader_execute_loop.simps)
    (auto simp: leader_body_def Let_def Option.bind_eq_None_conv split: option.split)

interpretation lead: counted_loop "leader_body E f" snd
  "\<lambda>e i s. leader_execute_loop E e f i (fst s) (snd s)" for E :: "'d env" and f
  by unfold_locales (rule leader_loop_unfold)

fun deliveries :: "'d env \<Rightarrow> ('d, 'z) comp \<Rightarrow> u64 list \<Rightarrow> effect list" where
  "deliveries E c [] = []"
| "deliveries E c (k # ks) = the (delivery E c (ltovs k)) @ deliveries E c ks"

lemma deliveries_append [simp]: "deliveries E c (ks @ ls) = deliveries E c ks @ deliveries E c ls"
  by (induction ks) auto

lemma deliveries_cong: "delivery E c = delivery E' c' \<Longrightarrow> deliveries E c ks = deliveries E' c' ks"
  by (induction ks) auto

lemma deliveries_upd [simp]:
  "deliveries E (c\<lparr>effects := es\<rparr>) ks = deliveries E c ks"
  "deliveries E (c\<lparr>highest_committed_vs := vs\<rparr>) ks = deliveries E c ks"
  "deliveries E (c\<lparr>highest_to_commit_vs := vs\<rparr>) ks = deliveries E c ks"
  "deliveries E (c\<lparr>highest_seen_vs := vs\<rparr>) ks = deliveries E c ks"
  by (rule deliveries_cong; simp)+

lemma leader_body_readable:
  assumes "readable E c k"
  shows "\<exists>d'. leader_body E f k (d, c) = Some
     (if quorate E c k then
        Inr (d', c\<lparr>highest_to_commit_vs := view_stamp_inc (highest_to_commit_vs c),
          highest_committed_vs :=
            (if f then view_stamp_inc (highest_committed_vs c) else highest_committed_vs c),
          effects := effects c @ (if f then the (delivery E c (ltovs k)) else [])\<rparr>)
      else Inl c)"
proof -
  from assms obtain b r where b: "snd (retrieve E c k) = Some b" "dec_request_record b = Some r"
    by (auto simp: readable_def split: option.splits)
  obtain es where "delivery E c (ltovs k) = Some es"
    using readable_delivery [OF assms] by auto
  with b show ?thesis
    by (auto simp: leader_body_def quorate_def deliver_alt)
qed

lemma leader_run:
  assumes "\<forall>k \<in> set ks. readable E c k"
  shows "run_keys (leader_body E f) snd ks (d, c) =
    (let qs = takeWhile (quorate E c) ks in
     Some (c\<lparr>highest_to_commit_vs := (view_stamp_inc ^^ length qs) (highest_to_commit_vs c),
       highest_committed_vs := (if f then (view_stamp_inc ^^ length qs) (highest_committed_vs c)
                                else highest_committed_vs c),
       effects := effects c @ (if f then deliveries E c qs else [])\<rparr>))"
  using assms
proof (induction ks arbitrary: d c)
  case (Cons k ks)
  then obtain d' where d': "leader_body E f k (d, c) = Some
     (if quorate E c k then
        Inr (d', c\<lparr>highest_to_commit_vs := view_stamp_inc (highest_to_commit_vs c),
          highest_committed_vs :=
            (if f then view_stamp_inc (highest_committed_vs c) else highest_committed_vs c),
          effects := effects c @ (if f then the (delivery E c (ltovs k)) else [])\<rparr>)
      else Inl c)"
    using leader_body_readable [of E c k f d] by auto
  show ?case
    using Cons.prems by (simp add: d' Cons.IH Let_def funpow_swap1)
qed simp

lemma leader_execute_loop_eq:
  assumes "e \<noteq> - 1" "\<forall>k. i \<le> k \<and> k \<le> e \<longrightarrow> readable E c k"
  shows "leader_execute_loop E e f i d c =
    (let qs = takeWhile (quorate E c) (key_range i e) in
     Some (c\<lparr>highest_to_commit_vs := (view_stamp_inc ^^ length qs) (highest_to_commit_vs c),
       highest_committed_vs := (if f then (view_stamp_inc ^^ length qs) (highest_committed_vs c)
                                else highest_committed_vs c),
       effects := effects c @ (if f then deliveries E c qs else [])\<rparr>))"
  using lead.loop_eq_run_keys [OF assms(1), where f = f and i = i and s = "(d, c)"]
    leader_run [of "key_range i e" E c f d] assms(2)
  by (simp add: set_key_range)

section \<open>The retransmission loop\<close>

definition progress_body ::
  "'d env \<Rightarrow> u64 \<Rightarrow> ('d, 'z) comp \<Rightarrow> (('d, 'z) comp + ('d, 'z) comp) option" where
  "progress_body E k c =
     (case snd (retrieve E c k) of
        None \<Rightarrow> None
      | Some record_data \<Rightarrow> do {
          r \<leftarrow> dec_request_record record_data;
          c \<leftarrow> (if \<not> reached_quorum r (cc_group_size c) then do {
              m \<leftarrow> build_accept_req E c (REQ_RECORD_SIZE r) record_data (ltovs k);
              (case m of None \<Rightarrow> Some c | Some msg \<Rightarrow> call_uc msg (- 1) c)
            } else Some c);
          Some (Inr c)
        })"

lemma progress_loop_unfold:
  "make_progress_loop E e i c =
    (if i \<le> e then
       (case progress_body E i c of
          None \<Rightarrow> None
        | Some (Inl r) \<Rightarrow> Some r
        | Some (Inr c') \<Rightarrow> make_progress_loop E e (i + 1) c')
     else Some c)"
  by (subst make_progress_loop.simps)
    (auto simp: progress_body_def Option.bind_eq_None_conv split: option.split)

interpretation progress: counted_loop "progress_body E" "\<lambda>c. c" "make_progress_loop E"
  for E :: "'d env"
  by unfold_locales (rule progress_loop_unfold)

section \<open>Loops up to the largest record number\<close>

text \<open>With \<open>end = 2 ^ 64 - 1\<close> the index wraps around and the loop goes on.\<close>

lemma execute_loop_at_maximum: "execute_loop E (- 1) f i c = None"
proof (rule ccontr)
  assume "execute_loop E (- 1) f i c \<noteq> None"
  then obtain c' where "execute_loop E (- 1) f i c = Some c'" by auto
  then have "(- 1 :: u64) \<noteq> - 1"
  proof (rule execute_loop.raw_induct [where P = "\<lambda>E e f i c c'. e \<noteq> - 1", rotated])
    fix loop E e f i and c c' :: "('a, 'b) comp"
    assume IH: "\<And>E e f i c c'. loop E e f i c = Some (c' :: ('a, 'b) comp) \<Longrightarrow> e \<noteq> - 1"
      and eq: "(if i \<le> e then do {
          let missing_vs = ltovs i;
          let missing = (fst (retrieve E c i) \<noteq> 0);
          c1 \<leftarrow> (if missing then send_missing_req E missing_vs c else Some c);
          let exec_flag' = (f \<and> \<not> missing);
          c2 \<leftarrow> (if exec_flag' then do {
              c' \<leftarrow> deliver_msg_data E missing_vs c1;
              Some (c'\<lparr>highest_committed_vs := view_stamp_inc (highest_committed_vs c')\<rparr>)
            } else Some c1);
          loop E e exec_flag' (i + 1) c2
        } else Some c) = Some c'"
    then show "e \<noteq> - 1"
      by (cases "e = - 1") (auto simp: Let_def dest: IH)
  qed
  then show False by simp
qed

end
