(* ===== verification/ConsensusFacts.thy ===== *)
theory ConsensusFacts
  imports ConsensusExec
begin

text \<open>
  What the operations of the consensus component compute: the quorum of a record, execution at
  the leader and at a follower, and the replication of one request from \<open>submit\<close> to the
  acknowledgement.
\<close>

section \<open>Quorums\<close>

text \<open>A certificate is backed by a set of nodes that is more than half of the group.\<close>

locale quorum_certificates =
  fixes nodes :: "nat set"
    and valid :: "'c \<Rightarrow> bool"
    and backers :: "'c \<Rightarrow> nat set"
  assumes finite_nodes: "finite nodes"
    and backers_nodes: "valid c \<Longrightarrow> backers c \<subseteq> nodes"
    and majority: "valid c \<Longrightarrow> card nodes < 2 * card (backers c)"
begin

lemma finite_backers: "valid c \<Longrightarrow> finite (backers c)"
  using finite_nodes backers_nodes finite_subset by blast

lemma backers_intersect:
  assumes "valid c" "valid c'"
  shows "backers c \<inter> backers c' \<noteq> {}"
proof
  assume disj: "backers c \<inter> backers c' = {}"
  have "card (backers c \<union> backers c') \<le> card nodes"
    using assms backers_nodes finite_nodes by (meson Un_least card_mono)
  then have "card (backers c) + card (backers c') \<le> card nodes"
    using assms disj finite_backers by (simp add: card_Un_disjoint)
  then show False
    using majority [OF assms(1)] majority [OF assms(2)] by linarith
qed

lemma backers_beat_minority:
  assumes "valid c" "S \<subseteq> nodes" "2 * card S < card nodes"
  shows "\<not> backers c \<subseteq> S"
proof
  assume "backers c \<subseteq> S"
  then have "card (backers c) \<le> card S"
    using assms(2) finite_nodes finite_subset card_mono by metis
  with majority [OF assms(1)] assms(3) show False by linarith
qed

end

lemma reached_quorum_card:
  "reached_quorum r gs \<longleftrightarrow> sint gs sdiv 2 + 1 \<le> int (card (bits (rr_bit_map r)))"
  by (simp add: reached_quorum_def popcount_card)

lemma reached_quorum_mono:
  "reached_quorum r gs \<Longrightarrow> bits (rr_bit_map r) \<subseteq> bits (rr_bit_map r') \<Longrightarrow> reached_quorum r' gs"
  unfolding reached_quorum_card by (erule order_trans) (simp add: card_mono)

lemma sint_small: "unat (w :: u32) < 2147483648 \<Longrightarrow> sint w = int (unat w)"
proof -
  assume "unat w < 2147483648"
  then have "int (unat w) < 2147483648" by linarith
  then have "uint w < 2 ^ 31" by simp
  moreover have "- (2 ^ 31) \<le> uint w" by (rule order_trans [OF _ uint_nonnegative]) simp
  ultimately have "signed_take_bit 31 (uint w) = uint w"
    by (rule signed_take_bit_int_eq_self [rotated])
  then show ?thesis by (simp add: sint_uint)
qed

lemma sdiv_2: "0 \<le> i \<Longrightarrow> i sdiv 2 = i div (2 :: int)"
  by (cases "i = 0") (auto simp: signed_divide_int_def)

lemma reached_quorum_majority:
  assumes "unat gs < 2147483648"
  shows "reached_quorum r gs \<longleftrightarrow> unat gs < 2 * card (bits (rr_bit_map r))"
  unfolding reached_quorum_card sint_small [OF assms] sdiv_2 [OF of_nat_0_le_iff] by linarith

definition in_group :: "u32 \<Rightarrow> request_record \<Rightarrow> bool" where
  "in_group gs r \<longleftrightarrow> unat gs < 2147483648 \<and> bits (rr_bit_map r) \<subseteq> {..<unat gs}"

interpretation quorum: quorum_certificates "{..<unat gs}"
    "\<lambda>r. in_group gs r \<and> reached_quorum r gs" "\<lambda>r. bits (rr_bit_map r)" for gs
  by unfold_locales (auto simp: in_group_def reached_quorum_majority)

section \<open>The store as the component sees it\<close>

lemma retrieve_store:
  assumes "bdb_contract E" "store E c k v = (r, c')" "v \<noteq> []"
  shows "retrieve E c' k' = (if k' = k \<and> r = 0 then (0, Some v) else retrieve E c k')"
proof -
  from assms(2) obtain d where "store_record E (cc_db_ptr c) k v (disk c) = (r, d)"
    and c': "c' = c\<lparr>disk := d\<rparr>"
    by (auto simp: store_def split: prod.splits)
  from rs.retrieve_after_store [OF assms(1) this(1) assms(3)] show ?thesis
    by (simp add: retrieve_def c')
qed

lemma retrieve_snd_store:
  assumes "bdb_contract E" "v \<noteq> []"
  shows "retrieve E (snd (store E c k v)) k' =
    (if k' = k \<and> fst (store E c k v) = 0 then (0, Some v) else retrieve E c k')"
  using retrieve_store [OF assms(1) _ assms(2), of c k "fst (store E c k v)" "snd (store E c k v)"]
  by simp

lemma enc_request_record_not_Nil [simp]: "enc_request_record r @ xs \<noteq> []"
  using length_enc(9) [of r] by (metis append_is_Nil_conv list.size(3) zero_neq_numeral)

lemma dec_stored [simp]: "dec_request_record (enc_request_record r @ data) = Some r"
  by (simp add: request_record.dec_enc_append)

lemma not_present_retrieve: "\<not> present E c k \<Longrightarrow> snd (retrieve E c k) = None"
  unfolding present_def retrieve_def by (rule rs.retrieve_error)

section \<open>Execution at the leader\<close>

lemma keys_within_view:
  assumes "vs_view_id vs = vs_view_id ws" "length ks \<le> length (key_range (vstol vs + 1) (vstol ws))"
    "vs \<le> ws" "vstol vs \<noteq> - 1"
  shows "(view_stamp_inc ^^ length ks) vs \<le> ws"
    and "vs \<le> (view_stamp_inc ^^ length ks) vs"
    and "vstol ((view_stamp_inc ^^ length ks) vs) = vstol vs + of_nat (length ks)"
  using inc_pow_within [OF assms(1) _ assms(3), of "length ks"] assms(2)
  by (simp_all add: length_keys_after [OF assms(4)])

lemma leader_try_to_execute_eq:
  assumes "vs_view_id (highest_seen_vs c) = vs_view_id (highest_to_commit_vs c)"
    "vstol (highest_seen_vs c) \<noteq> - 1"
    "\<forall>k. vstol (highest_to_commit_vs c) < k \<and> k \<le> vstol (highest_seen_vs c) \<longrightarrow> readable E c k"
    "highest_to_commit_vs c \<le> highest_seen_vs c"
  shows "leader_try_to_execute E c =
    (let f = (highest_committed_vs c = highest_to_commit_vs c);
         qs = takeWhile (quorate E c)
                (key_range (vstol (highest_to_commit_vs c) + 1) (vstol (highest_seen_vs c))) in
     Some (c\<lparr>highest_to_commit_vs := (view_stamp_inc ^^ length qs) (highest_to_commit_vs c),
       highest_committed_vs := (if f then (view_stamp_inc ^^ length qs) (highest_committed_vs c)
                                else highest_committed_vs c),
       effects := effects c @ (if f then deliveries E c qs else [])\<rparr>))"
proof -
  have "vstol (highest_to_commit_vs c) \<noteq> - 1"
    using assms(2,4) by (metis vstol_le_iff word_order.extremum_uniqueI)
  then have "vstol (highest_to_commit_vs c) + 1 \<le> k \<Longrightarrow> vstol (highest_to_commit_vs c) < k" for k
    using word_less_plus_1 less_le_trans by blast
  then show ?thesis
    using assms by (simp add: leader_try_to_execute_def leader_execute_loop_eq Let_def)
qed

section \<open>Execution at a follower\<close>

text \<open>
  Reporting a missing record takes a network callback and, because the code allocates 2 bytes
  for a message of 24, an allocator that makes at least 24 bytes usable.
\<close>

definition can_report :: "'d env \<Rightarrow> ('d, 'z) comp \<Rightarrow> bool" where
  "can_report E c \<longleftrightarrow>
     uc_set c \<and> (case malloc_usable E 2 of None \<Rightarrow> True | Some k \<Rightarrow> missing_req_len \<le> k)"

definition missing_report :: "'d env \<Rightarrow> ('d, 'z) comp \<Rightarrow> u64 \<Rightarrow> (bytes \<times> i32) list" where
  "missing_report E c k =
     (if malloc_usable E 2 = None then []
      else [(enc_missing_req (junk32 E 4)
               \<lparr>mr_node_id = ucast (cc_node_id c), mr_missing_vs = ltovs k\<rparr>, - 1)])"

lemma missing_notice_reports:
  assumes "can_report E c"
  shows "\<exists>es. missing_notice E c (ltovs k) = Some es \<and> user_cbs es = [] \<and>
    upcalls es = missing_report E c k"
  using assms by (auto simp: can_report_def missing_notice_def build_missing_req_def alloc_fill_def
      missing_report_def split: option.splits)

lemma delivery_upcalls: "delivery E c vs = Some es \<Longrightarrow> upcalls es = []"
  by (auto simp: delivery_def split: if_splits option.splits)

lemma execute_effects_reports:
  assumes "can_report E c" "\<forall>k \<in> set ks. present E c k \<longrightarrow> readable E c k"
  shows "\<exists>es. execute_effects E c f ks = Some es \<and>
    user_cbs es = user_cbs (deliveries E c (delivered E c f ks)) \<and>
    upcalls es = concat (map (missing_report E c) (filter (\<lambda>k. \<not> present E c k) ks))"
  using assms(2)
proof (induction ks arbitrary: f)
  case (Cons k ks)
  obtain fs where fs: "execute_effects E c (f \<and> present E c k) ks = Some fs"
    "user_cbs fs = user_cbs (deliveries E c (delivered E c (f \<and> present E c k) ks))"
    "upcalls fs = concat (map (missing_report E c) (filter (\<lambda>k. \<not> present E c k) ks))"
    using Cons by auto
  show ?case
  proof (cases "present E c k")
    case True
    with Cons.prems obtain es where "delivery E c (ltovs k) = Some es"
      using readable_delivery [of E c k] by auto
    with True fs show ?thesis
      by (cases f) (auto simp: delivered_def dest: delivery_upcalls)
  next
    case False
    with missing_notice_reports [OF assms(1), of k] fs show ?thesis
      by (auto simp: delivered_def)
  qed
qed (simp add: delivered_def)

lemma follower_execute_loop:
  assumes "can_report E c" "\<forall>k. i \<le> k \<and> k \<le> e \<and> present E c k \<longrightarrow> readable E c k" "e \<noteq> - 1"
  shows "\<exists>es. execute_loop E e True i c = Some (c\<lparr>highest_committed_vs :=
        (view_stamp_inc ^^ length (takeWhile (present E c) (key_range i e))) (highest_committed_vs c),
        effects := effects c @ es\<rparr>) \<and>
      user_cbs es = user_cbs (deliveries E c (takeWhile (present E c) (key_range i e))) \<and>
      upcalls es =
        concat (map (missing_report E c) (filter (\<lambda>k. \<not> present E c k) (key_range i e)))"
proof -
  have "\<forall>k \<in> set (key_range i e). present E c k \<longrightarrow> readable E c k"
    using assms(2) by (simp add: set_key_range)
  from execute_effects_reports [OF assms(1) this, of True] show ?thesis
    by (auto simp: execute_loop_eq [OF assms(3)] delivered_def)
qed

section \<open>Replicating one request\<close>

lemma ld_code [layout]: "ld 4 0 (enc_accept_req m @ xs) = Some (con_code_val ACCEPT_REQ)"
  "ld 4 0 (enc_accept_ack p a) = Some (con_code_val ACCEPT_ACK)"
  by (simp_all add: enc_accept_req_def enc_accept_ack_def layout)

lemma drop_enc [simp]:
  "drop 36 (enc_accept_req m @ xs) = xs" "drop 33 (enc_request_record r @ xs) = xs"
  by simp_all

lemma ld_bytes_record [simp]:
  "length data = n \<Longrightarrow> ld_bytes n 33 (enc_request_record r @ data) = Some data"
  "length data = n \<Longrightarrow> ld_bytes n 33 (enc_request_record r @ data @ xs) = Some data"
  by (simp_all add: ld_bytes_def)

end
