(* ===== verification/ConsensusProps.thy ===== *)
theory ConsensusProps
  imports ConsensusFacts
begin

text \<open>
  Properties of the single operations of the consensus component.
\<close>

section \<open>A concrete component\<close>

text \<open>A three-node group in view 1 with leader 0, used by the witnesses.\<close>

definition demo_comp :: "u32 \<Rightarrow> ((string \<times> db_key_type) \<times> bytes) list \<Rightarrow> mem_db consensus_component" where
  "demo_comp node records =
     \<lparr>my_role = (if node = 0 then LEADER else SECONDARY), cc_node_id = node, deliver_mode = 1,
      cc_group_size = 3, cur_view = \<lparr>v_view_id = 1, v_leader_id = 0, v_req_id = 0\<rparr>,
      highest_seen_vs = VS 1 0, highest_to_commit_vs = VS 1 0, highest_committed_vs = VS 1 0,
      cc_db_ptr = Some \<lparr>bdb_ptr = Some ''d''\<rparr>, uc_set = True, ucb_set = True,
      disk = map_of records, effects = []\<rparr>"

definition demo_record :: "u64 \<Rightarrow> bytes \<Rightarrow> bytes" where
  "demo_record bitmap data =
     enc_request_record \<lparr>rr_created_time = \<lparr>tv_sec = 9, tv_usec = 9\<rparr>, rr_is_closed = 0,
       rr_bit_map = bitmap, rr_data_size = of_nat (length data)\<rparr> @ data"

section \<open>Quorums\<close>

lemma bits_code: "bits w = set (filter (bit w) [0..<64])"
  by (auto simp: bits_def dest: bit_u64D)

lemma node_bit_small: "unat n < 31 \<Longrightarrow> node_bit n = Some (push_bit (unat n) 1)"
proof -
  assume n: "unat n < 31"
  have "(scast (push_bit (unat n) (1 :: i32)) :: u64) = push_bit (unat n) 1"
    using n by (intro bit_word_eqI) (auto simp: bit_simps bit_1_iff min_def)
  with n show ?thesis by (simp add: node_bit_def)
qed

lemma unat_ucast_small: "unat (w :: u64) < 4294967296 \<Longrightarrow> unat (ucast w :: u32) = unat w"
  by (rule trans [OF unsigned_ucast_eq take_bit_nat_eq_self]) simp

text \<open>Two records of one group that both reached a quorum were acknowledged by a common node,
  if only nodes of the group acknowledged them.\<close>

lemma quorums_intersect:
  assumes "in_group gs r" "reached_quorum r gs" "in_group gs r'" "reached_quorum r' gs"
  shows "\<exists>n < unat gs. bit (rr_bit_map r) n \<and> bit (rr_bit_map r') n"
proof -
  have "bits (rr_bit_map r) \<inter> bits (rr_bit_map r') \<noteq> {}"
    using assms by (intro quorum.backers_intersect [of gs]) auto
  then show ?thesis
    using assms(1) by (auto simp: bits_def in_group_def)
qed

definition rec_of :: "u64 \<Rightarrow> request_record" where
  "rec_of b = \<lparr>rr_created_time = \<lparr>tv_sec = 0, tv_usec = 0\<rparr>, rr_is_closed = 0, rr_bit_map = b,
     rr_data_size = 0\<rparr>"

lemma quorums_intersect_witness:
  "in_group 3 (rec_of 3) \<and> reached_quorum (rec_of 3) 3 \<and> in_group 3 (rec_of 6) \<and>
   reached_quorum (rec_of 6) 3 \<and>
   (\<exists>n < unat (3 :: u32). bit (rr_bit_map (rec_of 3)) n \<and> bit (rr_bit_map (rec_of 6)) n)"
proof -
  have "bits 3 \<subseteq> {..<3}" "bits 6 \<subseteq> {..<3}"
    unfolding bits_code by code_simp+
  then have g: "in_group 3 (rec_of 3)" "in_group 3 (rec_of 6)"
    by (simp_all add: in_group_def rec_of_def)
  have q: "reached_quorum (rec_of 3) 3" "reached_quorum (rec_of 6) 3" by code_simp+
  from quorums_intersect [OF g(1) q(1) g(2) q(2)] g q show ?thesis by simp
qed

section \<open>Acknowledgements\<close>

text \<open>C18 the leader's handling of an acknowledgement sets exactly the sender's bit in the stored
  record and leaves the request and every other record alone, before it tries to execute.\<close>

theorem accept_ack_counts:
  assumes "bdb_contract E" "my_role c = LEADER" "dec_accept_ack blk = Some msg"
    and "highest_committed_vs c < aa_msg_vs msg"
    and "snd (retrieve E c (vstol (aa_msg_vs msg))) = Some (enc_request_record r @ data)"
    and "length data = unat (rr_data_size r)" "aa_node_id msg < 31"
    and "\<forall>v. fst (store E c (vstol (aa_msg_vs msg)) v) = 0"
  shows "\<exists>c1. handle_accept_ack E blk c = try_to_execute E c1 \<and>
    c1 = c\<lparr>disk := disk c1\<rparr> \<and>
    (\<forall>k. retrieve E c1 k = (if k = vstol (aa_msg_vs msg)
      then (0, Some (enc_request_record
        (r\<lparr>rr_bit_map := rr_bit_map r OR push_bit (unat (aa_node_id msg)) 1\<rparr>) @ data))
      else retrieve E c k))"
proof -
  define r' where "r' = r\<lparr>rr_bit_map := rr_bit_map r OR push_bit (unat (aa_node_id msg)) 1\<rparr>"
  have n: "unat (aa_node_id msg) < 31"
    using assms(7) by (simp add: word_less_nat_alt)
  then have u: "update_record r (ucast (aa_node_id msg)) = Some r'"
    by (simp add: update_record_def node_bit_small unat_ucast_small r'_def)
  define c1 where "c1 = snd (store E c (vstol (aa_msg_vs msg)) (enc_request_record r' @ data))"
  have "\<not> aa_msg_vs msg \<le> highest_committed_vs c" using assms(4) by simp
  then have "handle_accept_ack E blk c = try_to_execute E c1"
    using assms by (simp add: handle_accept_ack_def u c1_def)
  moreover have "c1 = c\<lparr>disk := disk c1\<rparr>"
    by (simp add: c1_def store_def split_beta)
  ultimately show ?thesis
    using retrieve_snd_store [OF assms(1) enc_request_record_not_Nil, of c "vstol (aa_msg_vs msg)" r' data]
      assms(8) unfolding c1_def [symmetric] r'_def [symmetric] by auto
qed

theorem accept_ack_counts_witness:
  "\<exists>c1. handle_accept_ack mem_env (enc_accept_ack 0 \<lparr>aa_msg_vs = VS 1 1, aa_node_id = 2\<rparr>)
      (demo_comp 0 [((''d'', vstol (VS 1 1)), demo_record 1 [7])]) = try_to_execute mem_env c1 \<and>
    retrieve mem_env c1 (vstol (VS 1 1)) = (0, Some (demo_record 5 [7]))"
proof -
  let ?c = "demo_comp 0 [((''d'', vstol (VS 1 1)), demo_record 1 [7])]"
  let ?m = "\<lparr>aa_msg_vs = VS 1 1, aa_node_id = 2\<rparr>"
  let ?r = "\<lparr>rr_created_time = \<lparr>tv_sec = 9, tv_usec = 9\<rparr>, rr_is_closed = 0, rr_bit_map = 1,
    rr_data_size = 1\<rparr>"
  have h: "dec_accept_ack (enc_accept_ack 0 ?m) = Some ?m" "my_role ?c = LEADER"
    "highest_committed_vs ?c < aa_msg_vs ?m"
    "snd (retrieve mem_env ?c (vstol (aa_msg_vs ?m))) = Some (enc_request_record ?r @ [7])"
    "\<forall>v. fst (store mem_env ?c (vstol (aa_msg_vs ?m)) v) = 0"
    by (simp_all add: accept_ack.dec_enc demo_comp_def vs_less_iff retrieve_def retrieve_record_def
        store_def store_record_def mem_env_def demo_record_def split_beta)
  show ?thesis
    using accept_ack_counts [OF mem_env_bdb h(2,1,3,4) _ _ h(5)]
    by (auto simp: demo_record_def)
qed

definition rejected :: "('d, 'z) comp \<Rightarrow> accept_req \<Rightarrow> bool" where
  "rejected c msg \<longleftrightarrow>
     vs_view_id (ar_msg_vs msg) < v_view_id (cur_view c) \<or>
     vs_view_id (ar_msg_vs msg) = v_view_id (cur_view c) \<and>
       ar_node_id msg \<noteq> v_leader_id (cur_view c) \<or>
     ar_msg_vs msg \<le> highest_committed_vs c"

definition accept_update :: "accept_req \<Rightarrow> ('d, 'z) comp \<Rightarrow> ('d, 'z) comp" where
  "accept_update msg c = c\<lparr>highest_seen_vs := max (highest_seen_vs c) (ar_msg_vs msg),
     highest_to_commit_vs := max (highest_to_commit_vs c) (ar_req_canbe_exed msg)\<rparr>"

lemma handle_accept_req_alt:
  "handle_accept_req E blk c = do {
     msg \<leftarrow> dec_accept_req blk;
     if rejected c msg then try_to_execute E c
     else do {
       c \<leftarrow> handle_accept_req_store E msg (drop accept_req_len blk) (accept_update msg c);
       try_to_execute E c
     }
   }"
proof -
  have "(let c = (if view_stamp_comp (ar_msg_vs msg) (highest_seen_vs c) > 0
                  then c\<lparr>highest_seen_vs := ar_msg_vs msg\<rparr> else c);
             c = (if view_stamp_comp (ar_req_canbe_exed msg) (highest_to_commit_vs c) > 0
                  then c\<lparr>highest_to_commit_vs := ar_req_canbe_exed msg\<rparr> else c)
         in f c) = f (accept_update msg c)" for f :: "_ \<Rightarrow> ('a, 'b) comp option" and msg
    by (cases "highest_seen_vs c < ar_msg_vs msg";
        cases "highest_to_commit_vs c < ar_req_canbe_exed msg")
      (auto simp: accept_update_def Let_def not_less dest: leD)
  note * = this
  show ?thesis
    unfolding handle_accept_req_def by (cases "dec_accept_req blk") (simp, simp only: * rejected_def, simp)
qed

lemma accept_update_simps [simp]:
  "same_config c (accept_update msg c)" "effects (accept_update msg c) = effects c"
  "highest_committed_vs (accept_update msg c) = highest_committed_vs c"
  "highest_seen_vs (accept_update msg c) = max (highest_seen_vs c) (ar_msg_vs msg)"
  "highest_to_commit_vs (accept_update msg c) =
    max (highest_to_commit_vs c) (ar_req_canbe_exed msg)"
  "disk (accept_update msg c) = disk c" "retrieve E (accept_update msg c) = retrieve E c"
  by (simp_all add: accept_update_def)

lemma only_executes_retrieve: "only_executes c c' \<Longrightarrow> retrieve E c' = retrieve E c"
  by (auto simp: only_executes_def retrieve_def fun_eq_iff same_configD)

lemma only_executes_no_ack:
  assumes "only_executes c c'" "(m, t) \<in> set (upcalls (drop (length (effects c)) (effects c')))"
  shows "ld 4 0 m = Some (con_code_val MISSING_REQ)"
  using assms by (auto simp: only_executes_def)

lemma accept_store_acks:
  assumes "bdb_contract E" "handle_accept_req_store E msg blk c = Some c'"
  shows "effects c' = effects c \<or> (\<exists>r data origin p.
    dec_request_record blk = Some origin \<and>
    ld_bytes (unat (rr_data_size origin)) request_record_len blk = Some data \<and>
    rr_data_size r = rr_data_size origin \<and>
    retrieve E c' (vstol (ar_msg_vs msg)) = (0, Some (enc_request_record r @ data)) \<and>
    effects c' = effects c @ [Upcall (enc_accept_ack p \<lparr>aa_msg_vs = ar_msg_vs msg,
      aa_node_id = ucast (cc_node_id c)\<rparr>) (ucast (ar_node_id msg))])"
proof -
  from assms(2) obtain origin where o: "dec_request_record blk = Some origin"
    unfolding handle_accept_req_store_def by auto
  show ?thesis
  proof (cases "malloc_usable E (unat (REQ_RECORD_SIZE origin))")
    case None
    with assms(2) o show ?thesis by (auto simp: handle_accept_req_store_def)
  next
    case (Some k)
    define r where "r = origin\<lparr>rr_created_time := now E, rr_bit_map := junk_bit_map E\<rparr>"
    from assms(2) o Some obtain data where
      data: "ld_bytes (unat (rr_data_size origin)) request_record_len blk = Some data"
      unfolding handle_accept_req_store_def by (auto split: option.splits)
    define st where "st = store E c (vstol (ar_msg_vs msg)) (enc_request_record r @ data)"
    have st: "same_config c (snd st)" "effects (snd st) = effects c"
      by (simp_all add: st_def store_def split_beta)
    from assms(2) o Some data have ret: "fst st \<noteq> 0 \<and> c' = snd st \<or> fst st = 0 \<and>
        (\<exists>m. build_accept_ack E (snd st) (ar_msg_vs msg) = Some m \<and>
          (case m of None \<Rightarrow> Some (snd st)
           | Some reply \<Rightarrow> call_uc reply (ucast (ar_node_id msg)) (snd st)) = Some c')"
      unfolding handle_accept_req_store_def
      by (auto simp: r_def [symmetric] st_def split_beta alloc_fill_def Let_def split: if_splits option.splits)
    have "retrieve E (snd st) (vstol (ar_msg_vs msg)) = (0, Some (enc_request_record r @ data))"
      if "fst st = 0"
      using retrieve_snd_store [OF assms(1) enc_request_record_not_Nil,
          of c "vstol (ar_msg_vs msg)" r data "vstol (ar_msg_vs msg)"] that
      by (simp add: st_def)
    with ret st o data show ?thesis
      by (auto simp: build_accept_ack_def call_uc_def same_configD r_def
          split: option.splits if_splits dest!: alloc_fill_Some_SomeD)
  qed
qed

text \<open>C16 a node acknowledges an accept request only if it has stored the request: behind every
  acknowledgement that the handler sends, the database holds the request's data under the
  acknowledged view stamp.\<close>

theorem acked_is_stored:
  assumes "bdb_contract E" "handle_accept_req E blk c = Some c'"
    and "(m, t) \<in> set (upcalls (drop (length (effects c)) (effects c')))"
    and "ld 4 0 m = Some (con_code_val ACCEPT_ACK)"
  shows "\<exists>msg r data origin. dec_accept_req blk = Some msg \<and>
    dec_request_record (drop accept_req_len blk) = Some origin \<and>
    ld_bytes (unat (rr_data_size origin)) 69 blk = Some data \<and>
    rr_data_size r = rr_data_size origin \<and>
    retrieve E c' (vstol (ar_msg_vs msg)) = (0, Some (enc_request_record r @ data)) \<and>
    (\<exists>p. m = enc_accept_ack p \<lparr>aa_msg_vs = ar_msg_vs msg, aa_node_id = ucast (cc_node_id c)\<rparr>)"
proof -
  have quiet: "\<not> only_executes c c'"
    using only_executes_no_ack assms(3,4) by fastforce
  from assms(2) obtain msg where msg: "dec_accept_req blk = Some msg"
    unfolding handle_accept_req_def by auto
  with assms(2) quiet obtain c1 c2 where c1: "same_config c c1" "effects c1 = effects c"
    and c2: "handle_accept_req_store E msg (drop accept_req_len blk) c1 = Some c2"
    and c': "only_executes c2 c'"
    unfolding handle_accept_req_alt
    by (auto split: if_splits dest!: try_to_execute_executes intro: that [of "accept_update msg c"])
  have "effects c2 \<noteq> effects c1"
    using c' only_executes_no_ack [OF c', of m t] assms(3,4) c1 by auto
  with accept_store_acks [OF assms(1) c2] obtain r data origin p where
    s: "dec_request_record (drop accept_req_len blk) = Some origin"
    "ld_bytes (unat (rr_data_size origin)) request_record_len (drop accept_req_len blk) = Some data"
    "rr_data_size r = rr_data_size origin"
    "retrieve E c2 (vstol (ar_msg_vs msg)) = (0, Some (enc_request_record r @ data))"
    and e: "effects c2 = effects c1 @ [Upcall (enc_accept_ack p \<lparr>aa_msg_vs = ar_msg_vs msg,
      aa_node_id = ucast (cc_node_id c1)\<rparr>) (ucast (ar_node_id msg))]"
    by auto
  have "m = enc_accept_ack p \<lparr>aa_msg_vs = ar_msg_vs msg, aa_node_id = ucast (cc_node_id c)\<rparr>"
    using c' assms(3,4) e c1 by (fastforce simp: only_executes_def same_configD)
  with msg s only_executes_retrieve [OF c', of E] show ?thesis
    by (auto simp: ld_bytes_def split: if_splits)
qed

definition demo_accept :: "view_stamp \<Rightarrow> bytes \<Rightarrow> bytes" where
  "demo_accept ex data = enc_accept_req \<lparr>ar_msg_vs = VS 1 1, ar_req_canbe_exed = ex,
     ar_node_id = 0, ar_data_size = 33 + of_nat (length data)\<rparr> @ demo_record 1 data"

lemma handled_demo_accept:
  "map_option effects (handle_accept_req mem_env (demo_accept (VS 1 0) [7, 8]) (demo_comp 1 [])) =
    Some [Upcall (enc_accept_ack (junk32 mem_env 12) \<lparr>aa_msg_vs = VS 1 1, aa_node_id = 1\<rparr>) 0]"
  by code_simp

theorem acked_is_stored_witness:
  "\<exists>c' r. handle_accept_req mem_env (demo_accept (VS 1 0) [7, 8]) (demo_comp 1 []) = Some c' \<and>
     upcalls (effects c') =
       [(enc_accept_ack (junk32 mem_env 12) \<lparr>aa_msg_vs = VS 1 1, aa_node_id = 1\<rparr>, 0)] \<and>
     retrieve mem_env c' (vstol (VS 1 1)) = (0, Some (enc_request_record r @ [7, 8]))"
proof -
  obtain c' where c': "handle_accept_req mem_env (demo_accept (VS 1 0) [7, 8]) (demo_comp 1 []) = Some c'"
    and e: "effects c' =
      [Upcall (enc_accept_ack (junk32 mem_env 12) \<lparr>aa_msg_vs = VS 1 1, aa_node_id = 1\<rparr>) 0]"
    using handled_demo_accept by auto
  have "effects (demo_comp 1 []) = []" by (simp add: demo_comp_def)
  then have m: "(enc_accept_ack (junk32 mem_env 12) \<lparr>aa_msg_vs = VS 1 1, aa_node_id = 1\<rparr>, 0) \<in>
    set (upcalls (drop (length (effects (demo_comp 1 []))) (effects c')))"
    by (simp add: e)
  have d: "dec_accept_req (demo_accept (VS 1 0) [7, 8]) = Some \<lparr>ar_msg_vs = VS 1 1,
      ar_req_canbe_exed = VS 1 0, ar_node_id = 0, ar_data_size = 33 + of_nat (length [7, 8 :: u8])\<rparr>"
    "drop accept_req_len (demo_accept (VS 1 0) [7, 8]) = demo_record 1 [7, 8]"
    unfolding demo_accept_def by (simp_all add: accept_req.dec_enc_append)
  have "ld_bytes 2 69 (demo_accept (VS 1 0) [7, 8]) = Some [7, 8]"
    by (simp add: demo_accept_def demo_record_def ld_bytes_def)
  with acked_is_stored [OF mem_env_bdb c' m ld_code(2)] d c' e show ?thesis
    by (auto simp: demo_record_def)
qed

section \<open>Submission\<close>

text \<open>C17 a submission to the leader of a larger group stores the request under the next view stamp
  with the leader's own vote, advances the highest seen view stamp by one and sends every node an
  accept request that carries the stored record and what may be executed; nothing is executed.\<close>

theorem leader_submit_replicates:
  assumes "bdb_contract E" "malloc_contract E" "\<forall>n. malloc_usable E n \<noteq> None"
    and "uc_set c" "unat (cc_node_id c) < 31" "1 < cc_group_size c"
    and "length data + 69 < 18446744073709551616"
    and "\<forall>v. fst (store E c (vstol (get_next_view_stamp c)) v) = 0"
  shows "\<exists>c' msg r. leader_handle_submit_req E (of_nat (length data)) data c =
      Some (0, Some (get_next_view_stamp c), c') \<and>
    r = \<lparr>rr_created_time = now E, rr_is_closed = 0,
      rr_bit_map = push_bit (unat (cc_node_id c)) 1, rr_data_size = of_nat (length data)\<rparr> \<and>
    same_config c c' \<and> highest_seen_vs c' = get_next_view_stamp c \<and>
    highest_to_commit_vs c' = highest_to_commit_vs c \<and>
    highest_committed_vs c' = highest_committed_vs c \<and>
    effects c' = effects c @ [Upcall (enc_accept_req msg @ enc_request_record r @ data) (- 1)] \<and>
    msg = \<lparr>ar_msg_vs = get_next_view_stamp c, ar_req_canbe_exed = highest_to_commit_vs c,
      ar_node_id = ucast (cc_node_id c), ar_data_size = 33 + of_nat (length data)\<rparr> \<and>
    (\<forall>k. retrieve E c' k = (if k = vstol (get_next_view_stamp c)
      then (0, Some (enc_request_record r @ data)) else retrieve E c k))"
proof -
  let ?vs = "get_next_view_stamp c"
  let ?n = "of_nat (length data) :: u64"
  define r where "r = \<lparr>rr_created_time = now E, rr_is_closed = 0,
      rr_bit_map = push_bit (unat (cc_node_id c)) 1, rr_data_size = ?n\<rparr>"
  have rd: "\<lparr>rr_created_time = now E, rr_is_closed = 0, rr_bit_map = 2 ^ unat (cc_node_id c),
      rr_data_size = ?n\<rparr> = r"
    by (simp add: r_def)
  define c1 where "c1 = snd (store E c (vstol ?vs) (enc_request_record r @ data))"
  have n: "unat ?n = length data" "unat (?n + 33) = length data + 33"
    "unat (33 + ?n) = length data + 33" "unat (36 + (33 + ?n)) = length data + 69"
    using assms(7) by (simp_all add: unat_of_nat_small unat_word_ariths)
  have st: "store E c (vstol ?vs) (enc_request_record r @ data) = (0, c1)"
    using assms(8) by (auto simp: c1_def intro: prod_eqI)
  have c1: "c1 = c\<lparr>disk := disk c1\<rparr>"
    by (simp add: c1_def store_def split_beta)
  have g: "cc_group_size c1 = cc_group_size c"
    by (rule same_configD [OF store_frame [OF st]])
  have inc: "view_stamp_inc (highest_seen_vs c) = ?vs"
    by (simp add: view_stamp_inc_def get_next_view_stamp_def)
  have al: "alloc_fill E (length data + 33) (enc_request_record r @ data) =
      Some (Some (enc_request_record r @ data))"
    using assms(2,3) by (intro alloc_fill_fits) auto
  define msg where "msg = \<lparr>ar_msg_vs = ?vs, ar_req_canbe_exed = highest_to_commit_vs c,
      ar_node_id = ucast (cc_node_id c), ar_data_size = 33 + ?n\<rparr>"
  define c2 where "c2 = c\<lparr>highest_seen_vs := ?vs, disk := disk c1\<rparr>"
  have c2: "c1\<lparr>highest_seen_vs := view_stamp_inc (highest_seen_vs c1)\<rparr> = c2"
    unfolding c2_def by (subst (1 2) c1) (simp add: inc)
  have c2s: "highest_to_commit_vs c2 = highest_to_commit_vs c" "cc_node_id c2 = cc_node_id c"
    "uc_set c2" "effects c2 = effects c" "cc_group_size c2 = cc_group_size c"
    using assms(4) by (simp_all add: c2_def)
  have am: "build_accept_req E c2 (REQ_RECORD_SIZE r) (enc_request_record r @ data) ?vs =
      Some (Some (enc_accept_req msg @ enc_request_record r @ data))"
    using assms(2,3) n
    by (simp add: build_accept_req_def c2s REQ_RECORD_SIZE_def r_def msg_def alloc_fill_fits ld_bytes_def)
  have "leader_handle_submit_req E ?n data c = Some (0, Some ?vs,
      c2\<lparr>effects := effects c @ [Upcall (enc_accept_req msg @ enc_request_record r @ data) (- 1)]\<rparr>)"
    using assms(5,6) n
    by (simp add: leader_handle_submit_req_def node_bit_small ld_bytes_def Let_def rd al st
        c2 c2s g am call_uc_def)
  moreover have "retrieve E (c2\<lparr>effects := es\<rparr>) k = retrieve E c1 k" for es k
    using same_configD [OF store_frame [OF st]] by (simp add: retrieve_def c2_def)
  ultimately show ?thesis
    unfolding r_def [symmetric] msg_def [symmetric]
    using retrieve_store [OF assms(1) st enc_request_record_not_Nil]
    by (simp add: c2_def same_config_def)
qed

theorem leader_submit_replicates_witness:
  "\<exists>c' msg r. leader_handle_submit_req mem_env 2 [1, 2] (demo_comp 0 []) =
      Some (0, Some (VS 1 1), c') \<and> highest_seen_vs c' = VS 1 1 \<and>
      effects c' = [Upcall (enc_accept_req msg @ enc_request_record r @ [1, 2]) (- 1)] \<and>
      retrieve mem_env c' (vstol (VS 1 1)) = (0, Some (enc_request_record r @ [1, 2]))"
proof -
  have h: "\<forall>n. malloc_usable mem_env n \<noteq> None" "uc_set (demo_comp 0 [])"
    "unat (cc_node_id (demo_comp 0 [])) < 31" "1 < cc_group_size (demo_comp 0 [])"
    "length [1 :: u8, 2] + 69 < 18446744073709551616"
    "\<forall>v. fst (store mem_env (demo_comp 0 []) (vstol (get_next_view_stamp (demo_comp 0 []))) v) = 0"
    by (simp_all add: mem_env_def demo_comp_def store_def store_record_def)
  have v: "get_next_view_stamp (demo_comp 0 []) = VS 1 1" "effects (demo_comp 0 []) = []"
    by (simp_all add: get_next_view_stamp_def demo_comp_def)
  from leader_submit_replicates [OF mem_env_bdb mem_env_malloc h] show ?thesis
    unfolding v by fastforce
qed

section \<open>Execution\<close>

text \<open>The requests numbered after \<open>vs\<close> up to \<open>ws\<close>.\<close>

abbreviation keys_after :: "view_stamp \<Rightarrow> view_stamp \<Rightarrow> u64 list" where
  "keys_after vs ws \<equiv> key_range (vstol vs + 1) (vstol ws)"

lemma less_Suc_key: "k \<noteq> - 1 \<Longrightarrow> k + 1 \<le> l \<longleftrightarrow> k < (l :: u64)"
  using word_less_plus_1 less_le_trans word_plus_1_le by blast

lemma key_not_max: "vs \<le> ws \<Longrightarrow> vstol ws \<noteq> - 1 \<Longrightarrow> vstol vs \<noteq> - 1"
  by (metis vstol_le_iff word_order.extremum_uniqueI)

lemma keys_after_take:
  assumes "vstol ws = vstol vs + of_nat n" "n \<le> length (keys_after vs us)" "vstol vs \<noteq> - 1"
  shows "keys_after vs ws = take n (keys_after vs us)"
proof -
  have n: "unat (vstol vs) + n \<le> unat (vstol us) \<or> n = 0"
    using assms(2) by (auto simp: length_keys_after [OF assms(3)])
  then have "unat (vstol vs) + n < 2 ^ LENGTH(64)"
    using unat_bound [of "vstol us"] unat_bound [of "vstol vs"] by auto
  then have "unat (vstol vs + of_nat n) = unat (vstol vs) + n"
    by (simp add: unat_word_ariths unat_of_nat take_bit_nat_eq_self)
  then show ?thesis
    using n unat_plus_1 [OF assms(3)]
    by (auto simp: key_range_def assms(1) take_map simp del: upt_Suc)
qed

lemma execute_loop_done [simp]: "e < i \<Longrightarrow> execute_loop E e f i c = Some c"
  using exec.loop_beyond [of e i E "(f, c)"] by simp

text \<open>C14 a leader whose own executions have kept up moves its commit point over the longest
  prefix of the outstanding requests that reached a quorum, executes exactly these requests in
  order, and stops at the first one that lacks a quorum.\<close>

theorem leader_commits_quorum_prefix:
  assumes "my_role c = LEADER" "v_view_id (cur_view c) \<noteq> 0"
    and "vs_view_id (highest_seen_vs c) = vs_view_id (highest_to_commit_vs c)"
    and "highest_committed_vs c = highest_to_commit_vs c"
    and "highest_to_commit_vs c \<le> highest_seen_vs c" "vstol (highest_seen_vs c) \<noteq> - 1"
    and "\<forall>k. vstol (highest_to_commit_vs c) < k \<and> k \<le> vstol (highest_seen_vs c) \<longrightarrow> readable E c k"
  shows "\<exists>c' vs. try_to_execute E c = Some c' \<and>
    highest_committed_vs c' = vs \<and> highest_to_commit_vs c' = vs \<and>
    keys_after (highest_to_commit_vs c) vs =
      takeWhile (quorate E c) (keys_after (highest_to_commit_vs c) (highest_seen_vs c)) \<and>
    highest_to_commit_vs c \<le> vs \<and> vs \<le> highest_seen_vs c \<and>
    effects c' = effects c @ deliveries E c (keys_after (highest_to_commit_vs c) vs) \<and>
    only_executes c c'"
proof -
  define vs where "vs = highest_to_commit_vs c"
  define ks where "ks = keys_after vs (highest_seen_vs c)"
  define qs where "qs = takeWhile (quorate E c) ks"
  define ws where "ws = (view_stamp_inc ^^ length qs) vs"
  have max: "vstol vs \<noteq> - 1" using assms(5,6) by (simp add: vs_def key_not_max)
  have len: "length qs \<le> length ks" unfolding qs_def by (rule length_takeWhile_le)
  have ws: "ws \<le> highest_seen_vs c" "vs \<le> ws" "vstol ws = vstol vs + of_nat (length qs)"
    using keys_within_view [of vs "highest_seen_vs c" qs] assms(3,5) len max
    unfolding ws_def vs_def ks_def by auto
  have kws: "keys_after vs ws = qs"
    using keys_after_take [OF ws(3) len [unfolded ks_def] max] takeWhile_eq_take [of "quorate E c" ks]
    by (simp add: qs_def ks_def)
  define c1 where "c1 = c\<lparr>highest_to_commit_vs := ws, highest_committed_vs := ws,
    effects := effects c @ deliveries E c qs\<rparr>"
  have "leader_try_to_execute E c = Some c1"
    using leader_try_to_execute_eq [of c E] assms(3-7)
    by (simp add: Let_def c1_def ws_def qs_def ks_def vs_def)
  moreover have "vstol ws < vstol ws + 1"
    using ws(1) assms(6) key_not_max by (blast intro: word_less_plus_1)
  ultimately have t: "try_to_execute E c = Some c1"
    using assms(1,2) by (simp add: try_to_execute_def Let_def c1_def)
  with t ws(1,2) kws try_to_execute_executes [OF t] show ?thesis
    by (auto simp: c1_def qs_def ks_def vs_def)
qed

lemma between_iff:
  "a \<noteq> - 1 \<Longrightarrow> (\<forall>k. a < k \<and> k \<le> b \<longrightarrow> P k) = list_all P (key_range (a + 1) b)"
  by (auto simp: list_all_iff set_key_range less_Suc_key)

definition demo_log :: "((string \<times> db_key_type) \<times> bytes) list" where
  "demo_log = [((''d'', 0x100000001), demo_record 3 [7]), ((''d'', 0x100000002), demo_record 1 [8])]"

lemma demo_keys: "keys_after (VS 1 0) (VS 1 2) = [0x100000001, 0x100000002]"
  and demo_keys_1: "keys_after (VS 1 0) (VS 1 1) = [0x100000001]"
  by (simp_all add: vstol_def key_range_Cons)

lemma demo_readable: "list_all (readable mem_env (demo_comp n demo_log)) [0x100000001, 0x100000002]"
  unfolding demo_log_def demo_record_def readable_def
  by (simp add: demo_comp_def retrieve_def retrieve_record_def mem_env_def)

lemma demo_quorate: "quorate mem_env (demo_comp 0 demo_log) 0x100000001"
  "\<not> quorate mem_env (demo_comp 0 demo_log) 0x100000002"
  by code_simp+

lemma keys_after_single:
  assumes "keys_after vs ws = [k]" "k + 1 \<noteq> 0"
  shows "vstol ws = k"
proof (rule ccontr)
  assume "vstol ws \<noteq> k"
  moreover have "vstol vs + 1 \<le> k" "k \<le> vstol ws"
    using assms(1) set_key_range [of k "vstol vs + 1" "vstol ws"] by auto
  moreover have "k < k + 1" using assms(2) by (simp add: word_plus_1_eq_0_iff word_less_plus_1)
  ultimately have "k + 1 \<in> set (keys_after vs ws)"
    by (simp add: set_key_range word_plus_1_le)
  with assms(1) \<open>k < k + 1\<close> show False by simp
qed

theorem leader_commits_quorum_prefix_witness:
  "\<exists>c'. try_to_execute mem_env ((demo_comp 0 demo_log)\<lparr>highest_seen_vs := VS 1 2\<rparr>) = Some c' \<and>
     highest_committed_vs c' = VS 1 1 \<and> effects c' = [UserCb 1 [7]]"
proof -
  let ?c = "(demo_comp 0 demo_log)\<lparr>highest_seen_vs := VS 1 2\<rparr>"
  have sel: "my_role ?c = LEADER" "v_view_id (cur_view ?c) \<noteq> 0"
    "highest_committed_vs ?c = VS 1 0" "highest_to_commit_vs ?c = VS 1 0" "highest_seen_vs ?c = VS 1 2"
    "effects ?c = []"
    by (simp_all add: demo_comp_def)
  have "vstol (VS 1 0) \<noteq> - 1" "vstol (VS 1 2) \<noteq> - 1" by (simp_all add: vstol_def)
  then have r: "\<forall>k. vstol (VS 1 0) < k \<and> k \<le> vstol (VS 1 2) \<longrightarrow> readable mem_env ?c k"
    using demo_readable by (simp add: between_iff demo_keys)
  obtain c' vs where c': "try_to_execute mem_env ?c = Some c'" "highest_committed_vs c' = vs"
    and k: "keys_after (VS 1 0) vs = [0x100000001]"
    and e: "effects c' = deliveries mem_env ?c [0x100000001]"
    using leader_commits_quorum_prefix [OF sel(1,2), of mem_env] r sel \<open>vstol (VS 1 2) \<noteq> - 1\<close>
    by (auto simp: demo_keys demo_quorate vs_le_iff)
  have "vstol vs = vstol (VS 1 1)" using keys_after_single [OF k] by (simp add: vstol_def)
  then have "vs = VS 1 1" by simp
  moreover have "deliveries mem_env ?c [0x100000001] = [UserCb 1 [7]]" by code_simp
  ultimately show ?thesis using c' e by simp
qed

text \<open>C15 a follower executes, in order and each once, exactly the outstanding requests before the
  first one it has not received, and asks every node for each one that it lacks. It returns
  although the requests for missing records are allocated too small, if the allocator rounds up.\<close>

theorem follower_delivers_prefix:
  assumes "my_role c = SECONDARY" "v_view_id (cur_view c) \<noteq> 0" "can_report E c"
    and "vs_view_id (highest_to_commit_vs c) = vs_view_id (highest_committed_vs c)"
    and "highest_committed_vs c \<le> highest_to_commit_vs c" "vstol (highest_to_commit_vs c) \<noteq> - 1"
    and "\<forall>k. vstol (highest_committed_vs c) < k \<and> k \<le> vstol (highest_to_commit_vs c) \<longrightarrow>
      present E c k \<longrightarrow> readable E c k"
  shows "\<exists>c' vs es. try_to_execute E c = Some c' \<and> highest_committed_vs c' = vs \<and>
    highest_to_commit_vs c' = highest_to_commit_vs c \<and>
    keys_after (highest_committed_vs c) vs =
      takeWhile (present E c) (keys_after (highest_committed_vs c) (highest_to_commit_vs c)) \<and>
    highest_committed_vs c \<le> vs \<and> vs \<le> highest_to_commit_vs c \<and>
    effects c' = effects c @ es \<and>
    user_cbs es = user_cbs (deliveries E c (keys_after (highest_committed_vs c) vs)) \<and>
    upcalls es = concat (map (missing_report E c) (filter (\<lambda>k. \<not> present E c k)
      (keys_after (highest_committed_vs c) (highest_to_commit_vs c))))"
proof -
  define vs where "vs = highest_committed_vs c"
  define ks where "ks = keys_after vs (highest_to_commit_vs c)"
  define ps where "ps = takeWhile (present E c) ks"
  define ws where "ws = (view_stamp_inc ^^ length ps) vs"
  have max: "vstol vs \<noteq> - 1" using assms(5,6) by (simp add: vs_def key_not_max)
  have len: "length ps \<le> length ks" unfolding ps_def by (rule length_takeWhile_le)
  have ws: "ws \<le> highest_to_commit_vs c" "vs \<le> ws" "vstol ws = vstol vs + of_nat (length ps)"
    using keys_within_view [of vs "highest_to_commit_vs c" ps] assms(4,5) len max
    unfolding ws_def vs_def ks_def by auto
  have kws: "keys_after vs ws = ps"
    using keys_after_take [OF ws(3) len [unfolded ks_def] max] takeWhile_eq_take [of "present E c" ks]
    by (simp add: ps_def ks_def)
  obtain es where "execute_loop E (vstol (highest_to_commit_vs c)) True (vstol vs + 1) c =
      Some (c\<lparr>highest_committed_vs := ws, effects := effects c @ es\<rparr>)"
    "user_cbs es = user_cbs (deliveries E c ps)"
    "upcalls es = concat (map (missing_report E c) (filter (\<lambda>k. \<not> present E c k) ks))"
    using follower_execute_loop [OF assms(3) _ assms(6), of "vstol vs + 1"] assms(7)
    unfolding ws_def ps_def ks_def vs_def less_Suc_key [OF max [unfolded vs_def]] by blast
  with assms(1,2,4) kws ws show ?thesis
    by (auto simp: try_to_execute_def Let_def vs_def ps_def ks_def)
qed

definition demo_gap :: "((string \<times> db_key_type) \<times> bytes) list" where
  "demo_gap = [((''d'', 0x100000001), demo_record 3 [7]), ((''d'', 0x100000003), demo_record 1 [8])]"

lemma demo_gap_present: "present mem_env (demo_comp 1 demo_gap) 0x100000001"
  "\<not> present mem_env (demo_comp 1 demo_gap) 0x100000002"
  "present mem_env (demo_comp 1 demo_gap) 0x100000003"
  "readable mem_env (demo_comp 1 demo_gap) 0x100000001"
  "readable mem_env (demo_comp 1 demo_gap) 0x100000003"
  by code_simp+

lemma demo_gap_report: "can_report mem_env (demo_comp 1 demo_gap)"
  by (simp add: can_report_def mem_env_def glibc_usable_def demo_comp_def)

theorem follower_delivers_prefix_witness:
  "\<exists>c' es. try_to_execute mem_env ((demo_comp 1 demo_gap)\<lparr>highest_to_commit_vs := VS 1 3\<rparr>) = Some c' \<and>
     highest_committed_vs c' = VS 1 1 \<and> effects c' = es \<and> user_cbs es = [(1, [7])] \<and>
     upcalls es = [(enc_missing_req (junk32 mem_env 4) \<lparr>mr_node_id = 1, mr_missing_vs = VS 1 2\<rparr>, - 1)]"
proof -
  let ?c = "(demo_comp 1 demo_gap)\<lparr>highest_to_commit_vs := VS 1 3\<rparr>"
  have sel: "my_role ?c = SECONDARY" "v_view_id (cur_view ?c) \<noteq> 0"
    "highest_committed_vs ?c = VS 1 0" "highest_to_commit_vs ?c = VS 1 3" "effects ?c = []"
    by (simp_all add: demo_comp_def)
  have max: "vstol (VS 1 0) \<noteq> - 1" "vstol (VS 1 3) \<noteq> - 1" by (simp_all add: vstol_def)
  have keys: "keys_after (VS 1 0) (VS 1 3) = [0x100000001, 0x100000002, 0x100000003]"
    by (simp add: vstol_def key_range_Cons)
  have room: "can_report mem_env ?c" using demo_gap_report by (simp add: can_report_def)
  have r: "\<forall>k. vstol (VS 1 0) < k \<and> k \<le> vstol (VS 1 3) \<longrightarrow> present mem_env ?c k \<longrightarrow> readable mem_env ?c k"
    using demo_gap_present by (simp add: between_iff [OF max(1)] keys)
  obtain c' vs es where c': "try_to_execute mem_env ?c = Some c'" "highest_committed_vs c' = vs"
    and k: "keys_after (VS 1 0) vs = [0x100000001]" and e: "effects c' = es"
    and u: "user_cbs es = user_cbs (deliveries mem_env (demo_comp 1 demo_gap) [0x100000001])"
    "upcalls es = missing_report mem_env ?c 0x100000002"
    using follower_delivers_prefix [OF sel(1,2) room] r sel max
    by (auto simp: keys demo_gap_present vs_le_iff)
  have "vstol vs = vstol (VS 1 1)" using keys_after_single [OF k] by (simp add: vstol_def)
  then have "vs = VS 1 1" by simp
  moreover have "deliveries mem_env (demo_comp 1 demo_gap) [0x100000001] = [UserCb 1 [7]]"
    by code_simp
  moreover have "ltovs 0x100000002 = VS 1 2" by code_simp
  ultimately show ?thesis
    using c' e u by (simp add: missing_report_def mem_env_def demo_comp_def)
qed

end
