(* ===== verification/ConsensusErrors.thy ===== *)
theory ConsensusErrors
  imports ConsensusProps
begin

text \<open>
  Where the consensus component fails: messages that are allocated too small, the shift that makes
  a node's bit, an initialisation that returns what it freed, and loops that do not end.
\<close>

section \<open>Where the component fails\<close>

lemma scast_ucast_small: "unat w < 2147483648 \<Longrightarrow> scast (ucast w :: i32) = (w :: u64)"
proof -
  assume w: "unat w < 2147483648"
  have "take_bit 31 w = w"
  proof -
    have "unat (take_bit 31 w) = unat w"
      using w by (simp add: unsigned_take_bit_eq take_bit_nat_eq_self)
    then show ?thesis by (simp only: word_unat_eq_iff)
  qed
  then have b: "bit w i \<Longrightarrow> i < 31" for i
    by (metis bit_take_bit_iff)
  show ?thesis
  proof (rule bit_word_eqI)
    fix i
    assume "i < LENGTH(64)"
    then show "bit (scast (ucast w :: i32) :: u64) i = bit w i"
      using b [of i] b [of 31] by (cases "i < 31") (auto simp: bit_simps min_def)
  qed
qed

text \<open>C35 the reply to a request for a missing record never fits the block allocated for it unless
  the allocator gives 28 bytes more than asked for: the code allocates the size of the reply and
  then copies that many bytes of the record behind the reply's header.\<close>

theorem missing_ack_overflows:
  assumes "snd (retrieve E c (vstol vs)) = Some (enc_request_record r @ data)"
    and "length data = unat (rr_data_size r)" "length data < 2147483619"
    and "malloc_usable E (28 + length data) = Some k" "k < 56 + length data"
  shows "build_missing_ack E c vs = None"
proof -
  have n: "unat (28 + rr_data_size r) = 28 + length data"
    using assms(2,3) by (simp add: unat_word_ariths)
  have "(scast (ucast (MISSING_ACK_SIZE (rr_data_size r)) :: i32) :: u64) = 28 + rr_data_size r"
    unfolding MISSING_ACK_SIZE_def by (rule scast_ucast_small) (use n assms(3) in simp)
  then show ?thesis
    using assms n by (simp add: build_missing_ack_def alloc_fill_def ld_bytes_def)
qed

theorem missing_ack_overflows_witness:
  "build_missing_ack mem_env (demo_comp 0 demo_log) (VS 1 1) = None"
proof -
  let ?r = "\<lparr>rr_created_time = \<lparr>tv_sec = 9, tv_usec = 9\<rparr>, rr_is_closed = 0, rr_bit_map = 3,
    rr_data_size = 1\<rparr>"
  have "snd (retrieve mem_env (demo_comp 0 demo_log) (vstol (VS 1 1))) =
      Some (enc_request_record ?r @ [7])"
    by (simp add: demo_log_def demo_record_def demo_comp_def retrieve_def retrieve_record_def
        mem_env_def vstol_def)
  from missing_ack_overflows [OF this, of 40] show ?thesis
    by (simp add: mem_env_def glibc_usable_def)
qed

text \<open>A follower that lacks a record cannot ask for it when the allocator gives exactly what is
  asked for, as the message is allocated with its code, 2, as the size: \<open>try_to_execute\<close> then
  writes outside the block at the first missing record.\<close>

lemma missing_req_needs_slack:
  assumes "malloc_usable E 2 = Some k" "k < missing_req_len" "i \<le> e" "\<not> present E c i"
  shows "execute_loop E e f i c = None"
  using assms by (subst execute_loop.simps)
    (simp add: present_def send_missing_req_def build_missing_req_def alloc_fill_def)

lemma missing_req_needs_slack_witness:
  "execute_loop (mem_env\<lparr>malloc_usable := Some\<rparr>) 0x100000001 True 0x100000001 (demo_comp 1 []) = None"
  by (rule missing_req_needs_slack [where k = 2])
    (simp_all add: demo_comp_def present_def retrieve_def retrieve_record_def mem_env_def)

text \<open>The shift that makes a node's bit is done on a 32-bit \<open>int\<close>: the bits of nodes up to 30
  are distinct single bits, the one of node 31 is 33 bits, and from 32 on the shift is undefined,
  although the bit map is said to serve groups of 64.\<close>

lemma node_bits:
  "(\<forall>n. unat n < 31 \<longrightarrow> (\<exists>b. node_bit n = Some b \<and> bits b = {unat n})) \<and>
   node_bit 31 = Some 0xFFFFFFFF80000000 \<and> (\<forall>n. 32 \<le> unat n \<longrightarrow> node_bit n = None)"
proof (intro conjI allI impI)
  fix n :: u32
  assume "unat n < 31"
  then show "\<exists>b. node_bit n = Some b \<and> bits b = {unat n}"
    by (auto simp: node_bit_small bits_def bit_simps)
next
  show "node_bit 31 = Some 0xFFFFFFFF80000000" by code_simp
next
  fix n :: u32
  assume "32 \<le> unat n"
  then show "node_bit n = None" by (simp add: node_bit_def)
qed

lemma node_bits_witness:
  "(\<exists>b. node_bit 5 = Some b \<and> bits b = {5}) \<and> node_bit 40 = None"
proof -
  have "unat (5 :: u32) < 31" "32 \<le> unat (40 :: u32)" "unat (5 :: u32) = 5" by simp_all
  with node_bits show ?thesis by metis
qed

text \<open>When the component cannot open its database, the initialisation frees it and returns the
  pointer to it all the same, so that the caller's test for \<open>NULL\<close> does not notice.\<close>

lemma init_failure_dangles:
  assumes "mode \<noteq> 50" "malloc_usable E 104 \<noteq> None"
    and "initialize_db E db_name 0 (disk c) = Some (None, d)"
  shows "init_consensus_comp E node_id db_name mode db_ptr gs have_ucb have_uc c =
    Some (Dangling, c\<lparr>disk := d\<rparr>)"
  using assms by (auto simp: init_consensus_comp_def)

lemma init_failure_dangles_witness:
  "init_consensus_comp (mem_env\<lparr>bdb_open := \<lambda>d _. (22, d)\<rparr>) 1 ''d'' 0 None 3 True True (demo_comp 1 []) =
    Some (Dangling, (demo_comp 1 [])\<lparr>disk := Map.empty\<rparr>)"
  by (rule init_failure_dangles)
    (simp_all add: initialize_db_def mem_env_def demo_comp_def db_dir_def)

text \<open>C33 the execution loop of a follower that can report missing requests returns for every bound
  but the largest record number: there the index wraps around and the loop goes on for ever.\<close>

theorem execute_loop_returns_iff:
  assumes "can_report E c" "\<forall>k. i \<le> k \<and> k \<le> e \<and> present E c k \<longrightarrow> readable E c k"
  shows "(\<exists>c'. execute_loop E e True i c = Some c') \<longleftrightarrow> e \<noteq> - 1"
  using follower_execute_loop [OF assms] by (cases "e = - 1") (auto simp: execute_loop_at_maximum)

theorem execute_loop_returns_iff_witness:
  "\<exists>c'. execute_loop mem_env 0x100000003 True 0x100000001 (demo_comp 1 demo_gap) = Some c'"
proof -
  have "k \<in> set (key_range 0x100000001 0x100000003) \<Longrightarrow> present mem_env (demo_comp 1 demo_gap) k \<Longrightarrow>
      readable mem_env (demo_comp 1 demo_gap) k" for k
    using demo_gap_present by (auto simp: key_range_Cons)
  then have "\<forall>k. 0x100000001 \<le> k \<and> k \<le> 0x100000003 \<and> present mem_env (demo_comp 1 demo_gap) k \<longrightarrow>
      readable mem_env (demo_comp 1 demo_gap) k"
    by (simp add: set_key_range)
  from execute_loop_returns_iff [OF demo_gap_report this] show ?thesis by simp
qed

end
