(* ===== verification/ConsensusView.thy ===== *)
theory ConsensusView
  imports ConsensusProps
begin

text \<open>
  Execution within one view: the chain of record numbers that an execution announces to the user
  of the component, and what one execution does to the two commit points.
\<close>

section \<open>Chains of record numbers\<close>

lemma keys_after_self [simp]: "vstol vs \<noteq> - 1 \<Longrightarrow> keys_after vs vs = []"
  by (rule key_range_empty) (rule word_less_plus_1)

lemma keys_after_append:
  assumes "a \<le> b" "b \<le> c" "vstol c \<noteq> - 1"
  shows "keys_after a b @ keys_after b c = keys_after a c"
proof -
  have m: "vstol a \<noteq> - 1" "vstol b \<noteq> - 1" using assms key_not_max by (blast intro: order_trans)+
  have "unat (vstol a) \<le> unat (vstol b)" "unat (vstol b) \<le> unat (vstol c)"
    using assms by (simp_all add: word_le_nat_alt [symmetric])
  then show ?thesis
    using upt_add_eq_append [of "Suc (unat (vstol a))" "Suc (unat (vstol b))"
        "unat (vstol c) - unat (vstol b)"]
    by (simp add: key_range_def unat_plus_1 m map_append [symmetric] del: upt_Suc map_append)
qed

lemma set_keys_after:
  "vstol a \<noteq> - 1 \<Longrightarrow> k \<in> set (keys_after a b) \<longleftrightarrow> vstol a < k \<and> k \<le> vstol b"
  by (simp add: set_key_range less_Suc_key)

lemma prefix_keys_after: "a \<le> b \<Longrightarrow> b \<le> c \<Longrightarrow> vstol c \<noteq> - 1 \<Longrightarrow> prefix (keys_after a b) (keys_after a c)"
  using keys_after_append [of a b c] by (metis prefixI)

lemma key_bound: "v \<noteq> - 1 \<Longrightarrow> vs_view_id vs = v \<Longrightarrow> vstol vs \<noteq> - 1"
proof
  assume v: "v \<noteq> - 1" "vs_view_id vs = v" and "vstol vs = - 1"
  then have "vs = ltovs (- 1)" by (metis ltovs_vstol)
  moreover have "vs_view_id (ltovs (- 1)) = - 1" by code_simp
  ultimately show False using v by simp
qed

section \<open>Execution within a view\<close>

definition announce :: "u64 \<Rightarrow> u64 \<times> bytes" where
  "announce k = (8, le 8 k)"

lemma announce_eq [simp]: "announce k = announce l \<longleftrightarrow> k = l"
  by (metis announce_def of_le_le8 prod.inject)

definition within :: "view_id_t \<Rightarrow> ('d, 'z) comp \<Rightarrow> bool" where
  "within v c \<longleftrightarrow> v \<noteq> - 1 \<and> vs_view_id (highest_committed_vs c) = v \<and>
     vs_view_id (highest_to_commit_vs c) = v \<and> vs_view_id (highest_seen_vs c) = v \<and>
     highest_committed_vs c \<le> highest_to_commit_vs c \<and> deliver_mode c \<noteq> 1 \<and> ucb_set c"

lemma delivery_announces:
  assumes "deliver_mode c \<noteq> 1" "ucb_set c"
  shows "delivery E c (ltovs k) = Some [UserCb 8 (le 8 k)]"
  using assms by (simp add: delivery_def)

lemma deliveries_announce:
  assumes "deliver_mode c \<noteq> 1" "ucb_set c"
  shows "user_cbs (deliveries E c ks) = map announce ks"
  by (induction ks) (simp_all add: delivery_announces [OF assms] announce_def)

lemma missing_notice_quiet: "missing_notice E c vs = Some es \<Longrightarrow> user_cbs es = []"
  by (auto simp: missing_notice_def split: option.splits if_splits)

lemma execute_effects_announce:
  assumes "execute_effects E c f ks = Some es" "deliver_mode c \<noteq> 1" "ucb_set c"
  shows "user_cbs es = map announce (delivered E c f ks)"
  using assms(1)
proof (induction ks arbitrary: f es)
  case (Cons k ks)
  then show ?case
    using delivery_announces [OF assms(2,3), of E k]
    by (cases "present E c k"; cases f)
      (auto simp: delivered_def announce_def dest!: Cons.IH missing_notice_quiet)
qed (simp add: delivered_def)

text \<open>What one execution does: it moves the two commit points forward and announces what lies
  between the old and the new one.\<close>

definition executes :: "'d env \<Rightarrow> ('d, 'z) comp \<Rightarrow> ('d, 'z) comp \<Rightarrow> bool" where
  "executes E c c' \<longleftrightarrow> only_executes c c' \<and>
     highest_committed_vs c \<le> highest_committed_vs c' \<and>
     highest_to_commit_vs c \<le> highest_to_commit_vs c' \<and>
     user_cbs (effects c') = user_cbs (effects c) @
       map announce (keys_after (highest_committed_vs c) (highest_committed_vs c')) \<and>
     (\<forall>k. vstol (highest_to_commit_vs c) < k \<and> k \<le> vstol (highest_to_commit_vs c') \<longrightarrow>
        my_role c = LEADER \<and> k \<le> vstol (highest_seen_vs c) \<and> quorate E c k)"

lemma quorate_same: "only_executes c c' \<Longrightarrow> quorate E c' = quorate E c"
  using only_executes_retrieve [of c c' E] same_configD(4) [OF only_executesD [of c c']]
  by (simp add: fun_eq_iff quorate_def cong: option.case_cong)

lemma executes_trans:
  assumes "executes E a b" "executes E b c" "vstol (highest_committed_vs c) \<noteq> - 1"
  shows "executes E a c"
proof -
  have o: "only_executes a b" "only_executes b c" using assms by (simp_all add: executes_def)
  have r: "my_role b = my_role a" "highest_seen_vs b = highest_seen_vs a" "quorate E b = quorate E a"
    using o quorate_same [OF o(1)] by (auto simp: only_executes_def same_configD)
  have k: "keys_after (highest_committed_vs a) (highest_committed_vs b) @
      keys_after (highest_committed_vs b) (highest_committed_vs c) =
      keys_after (highest_committed_vs a) (highest_committed_vs c)"
    using assms by (intro keys_after_append) (simp_all add: executes_def)
  have "\<not> vstol (highest_to_commit_vs b) < k \<longrightarrow> k \<le> vstol (highest_to_commit_vs b)" for k
    by auto
  then show ?thesis
    using assms(1,2) only_executes_trans [OF o] r k unfolding executes_def
    by (metis (no_types, lifting) append.assoc map_append order_trans)
qed

lemma execute_loop_within:
  assumes "within v c" "execute_loop E (vstol (highest_to_commit_vs c)) True
    (vstol (highest_committed_vs c) + 1) c = Some c'"
  shows "executes E c c' \<and> within v c' \<and>
    (\<forall>k \<in> set (keys_after (highest_committed_vs c) (highest_committed_vs c')). present E c k)"
proof -
  let ?vs = "highest_committed_vs c"
  let ?ks = "keys_after ?vs (highest_to_commit_vs c)"
  define qs where "qs = takeWhile (present E c) ?ks"
  define ws where "ws = (view_stamp_inc ^^ length qs) ?vs"
  have w: "vs_view_id ?vs = v" "vs_view_id (highest_to_commit_vs c) = v" "?vs \<le> highest_to_commit_vs c"
    "v \<noteq> - 1" "deliver_mode c \<noteq> 1" "ucb_set c"
    using assms(1) by (simp_all add: within_def)
  have max: "vstol ?vs \<noteq> - 1" "vstol (highest_to_commit_vs c) \<noteq> - 1"
    using w key_bound by blast+
  have len: "length qs \<le> length ?ks" unfolding qs_def by (rule length_takeWhile_le)
  have ws: "ws \<le> highest_to_commit_vs c" "?vs \<le> ws" "vstol ws = vstol ?vs + of_nat (length qs)"
    using keys_within_view [of ?vs "highest_to_commit_vs c" qs] w len max unfolding ws_def by auto
  have kws: "keys_after ?vs ws = qs"
    using keys_after_take [OF ws(3) len max(1)] takeWhile_eq_take [of "present E c" ?ks]
    by (simp add: qs_def)
  from assms(2) obtain es where es: "execute_effects E c True ?ks = Some es"
    and c': "c' = c\<lparr>highest_committed_vs := ws, effects := effects c @ es\<rparr>"
    by (auto simp: execute_loop_eq [OF max(2)] delivered_def ws_def qs_def)
  have "user_cbs es = map announce qs"
    using execute_effects_announce [OF es w(5,6)] by (simp add: delivered_def qs_def)
  moreover have "\<forall>k \<in> set qs. present E c k" unfolding qs_def by (auto dest: set_takeWhileD)
  ultimately show ?thesis
    using execute_loop_executes [OF assms(2)] ws kws w assms(1)
    by (auto simp: executes_def within_def c' ws_def)
qed

lemma leader_try_within:
  assumes "within v c" "highest_to_commit_vs c \<le> highest_seen_vs c" "my_role c = LEADER"
    and "\<forall>k. vstol (highest_to_commit_vs c) < k \<and> k \<le> vstol (highest_seen_vs c) \<longrightarrow> readable E c k"
  shows "\<exists>c'. leader_try_to_execute E c = Some c' \<and> executes E c c' \<and> within v c' \<and>
    highest_to_commit_vs c' \<le> highest_seen_vs c' \<and>
    (highest_committed_vs c = highest_to_commit_vs c \<longrightarrow> highest_committed_vs c' = highest_to_commit_vs c')"
proof -
  let ?vs = "highest_to_commit_vs c"
  let ?ks = "keys_after ?vs (highest_seen_vs c)"
  define qs where "qs = takeWhile (quorate E c) ?ks"
  define ws where "ws = (view_stamp_inc ^^ length qs) ?vs"
  have w: "vs_view_id ?vs = v" "vs_view_id (highest_seen_vs c) = v" "v \<noteq> - 1"
    "deliver_mode c \<noteq> 1" "ucb_set c"
    using assms(1) by (simp_all add: within_def)
  have max: "vstol ?vs \<noteq> - 1" "vstol (highest_seen_vs c) \<noteq> - 1" "vstol (highest_committed_vs c) \<noteq> - 1"
    using w key_bound assms(1) by (auto simp: within_def)
  have len: "length qs \<le> length ?ks" unfolding qs_def by (rule length_takeWhile_le)
  have ws: "ws \<le> highest_seen_vs c" "?vs \<le> ws" "vstol ws = vstol ?vs + of_nat (length qs)"
    using keys_within_view [of ?vs "highest_seen_vs c" qs] w len max assms(2) unfolding ws_def by auto
  have kws: "keys_after ?vs ws = qs"
    using keys_after_take [OF ws(3) len max(1)] takeWhile_eq_take [of "quorate E c" ?ks]
    by (simp add: qs_def)
  define f where "f = (highest_committed_vs c = ?vs)"
  define c' where "c' = c\<lparr>highest_to_commit_vs := ws,
    highest_committed_vs := (if f then ws else highest_committed_vs c),
    effects := effects c @ (if f then deliveries E c qs else [])\<rparr>"
  have t: "leader_try_to_execute E c = Some c'"
    using leader_try_to_execute_eq [of c E] assms(2,4) w max
    by (simp add: Let_def c'_def ws_def qs_def f_def)
  have "\<forall>k \<in> set (keys_after ?vs ws). quorate E c k"
    unfolding kws qs_def by (auto dest: set_takeWhileD)
  then have q: "vstol ?vs < k \<and> k \<le> vstol ws \<longrightarrow> quorate E c k \<and> k \<le> vstol (highest_seen_vs c)" for k
    using ws(1) max by (auto simp: set_keys_after intro: order_trans)
  have "executes E c c'"
    using leader_try_to_execute_executes [OF t] ws(2) q assms(3) kws max w
    by (auto simp: executes_def c'_def f_def deliveries_announce)
  moreover have "within v c'"
    using assms(1) ws by (auto simp: within_def c'_def f_def ws_def)
  ultimately show ?thesis
    using t ws(1) by (auto simp: c'_def f_def)
qed

lemma try_to_execute_within:
  assumes "within v c" "try_to_execute E c = Some c'"
    and "my_role c = LEADER \<Longrightarrow> highest_to_commit_vs c \<le> highest_seen_vs c \<and>
      (\<forall>k. vstol (highest_to_commit_vs c) < k \<and> k \<le> vstol (highest_seen_vs c) \<longrightarrow> readable E c k)"
  shows "executes E c c' \<and> within v c' \<and>
    (my_role c = LEADER \<longrightarrow> highest_to_commit_vs c' \<le> highest_seen_vs c') \<and>
    (highest_committed_vs c = highest_to_commit_vs c \<longrightarrow> highest_committed_vs c' = highest_to_commit_vs c')"
proof (cases "v_view_id (cur_view c) = 0")
  case True
  with assms show ?thesis
    by (auto simp: try_to_execute_def executes_def within_def key_bound)
next
  case False
  define lead where "lead = (if my_role c = LEADER then leader_try_to_execute E c else Some c)"
  have "\<exists>c1. lead = Some c1 \<and> executes E c c1 \<and> within v c1 \<and>
      (my_role c = LEADER \<longrightarrow> highest_to_commit_vs c1 \<le> highest_seen_vs c1) \<and>
      (highest_committed_vs c = highest_to_commit_vs c \<longrightarrow> highest_committed_vs c1 = highest_to_commit_vs c1)"
  proof (cases "my_role c = LEADER")
    case True
    with leader_try_within [OF assms(1), of E] assms(3) show ?thesis by (auto simp: lead_def)
  next
    case False
    with assms(1) show ?thesis
      by (auto simp: lead_def executes_def within_def key_bound)
  qed
  then obtain c1 where c1: "lead = Some c1" "executes E c c1" "within v c1"
    "my_role c = LEADER \<longrightarrow> highest_to_commit_vs c1 \<le> highest_seen_vs c1"
    "highest_committed_vs c = highest_to_commit_vs c \<longrightarrow> highest_committed_vs c1 = highest_to_commit_vs c1" by auto
  have "try_to_execute E c = execute_loop E (vstol (highest_to_commit_vs c1)) True
      (vstol (highest_committed_vs c1) + 1) c1"
    using False c1 by (simp add: try_to_execute_def lead_def [symmetric] within_def)
  with assms(2) have l: "execute_loop E (vstol (highest_to_commit_vs c1)) True
      (vstol (highest_committed_vs c1) + 1) c1 = Some c'" by simp
  from execute_loop_within [OF c1(3) l] have e: "executes E c1 c'" "within v c'" by simp_all
  have "highest_to_commit_vs c' = highest_to_commit_vs c1"
  proof -
    have "vstol (highest_to_commit_vs c1) \<noteq> - 1" using c1(3) key_bound by (auto simp: within_def)
    with l show ?thesis by (auto simp: execute_loop_eq)
  qed
  moreover have "highest_seen_vs c' = highest_seen_vs c1"
    using e(1) by (simp add: executes_def only_executes_def)
  moreover have "highest_committed_vs c' = highest_committed_vs c1"
    if "highest_committed_vs c1 = highest_to_commit_vs c1"
  proof -
    have "vstol (highest_to_commit_vs c1) \<noteq> - 1" using c1(3) key_bound by (auto simp: within_def)
    then have "vstol (highest_to_commit_vs c1) < vstol (highest_committed_vs c1) + 1"
      using that by (simp add: word_less_plus_1)
    with l show ?thesis by simp
  qed
  ultimately show ?thesis
    using executes_trans [OF c1(2) e(1)] e(2) c1(4,5) key_bound by (auto simp: within_def)
qed

end
