(* ===== verification/GroupLeader.thy ===== *)
theory GroupLeader
  imports ConsensusView
begin

text \<open>
  The leader's side of a group in one view: what the nodes hold, what the messages between them
  say (\<open>msg_ok\<close>), the leader's invariant \<open>lead_inv\<close> (every request up to the highest seen one has
  a record, the bit map of the record names only nodes that have the request, and what may be
  executed has reached a quorum), and that every operation of the leader is a \<open>lead_step\<close>, which
  keeps it.
\<close>

section \<open>What the nodes hold\<close>

definition holds :: "'d env \<Rightarrow> ('d, 'z) comp \<Rightarrow> u64 \<Rightarrow> bytes \<Rightarrow> bool" where
  "holds E c k data \<longleftrightarrow> (\<exists>r. snd (retrieve E c k) = Some (enc_request_record r @ data) \<and>
     length data = unat (rr_data_size r))"

lemma holds_unique: "holds E c k d \<Longrightarrow> holds E c k d' \<Longrightarrow> d = d'"
  by (auto simp: holds_def)

lemma holds_cong: "snd (retrieve E c k) = snd (retrieve E' c' k) \<Longrightarrow> holds E c k = holds E' c' k"
  by (simp add: holds_def fun_eq_iff)

text \<open>The leader's record of a request: the bit map names the leader, and who it names has the
  request too.\<close>

definition backed ::
  "'d env \<Rightarrow> nat \<Rightarrow> nat \<Rightarrow> (nat \<Rightarrow> ('d, 'z) comp) \<Rightarrow> ('d, 'z) comp \<Rightarrow> u64 \<Rightarrow> bool" where
  "backed E N l others c k \<longleftrightarrow> (\<exists>r data.
     snd (retrieve E c k) = Some (enc_request_record r @ data) \<and>
     length data = unat (rr_data_size r) \<and> length data < 4294967296 \<and> bit (rr_bit_map r) l \<and>
     (\<forall>n. bit (rr_bit_map r) n \<longrightarrow> n < N \<and> (n \<noteq> l \<longrightarrow> holds E (others n) k data)))"

lemma backed_readable: "backed E N l others c k \<Longrightarrow> readable E c k"
  by (auto simp: backed_def readable_def)

lemma backed_cong:
  "snd (retrieve E c k) = snd (retrieve E c' k) \<Longrightarrow> backed E N l others c k = backed E N l others c' k"
  by (simp add: backed_def)

lemma quorate_cong:
  "snd (retrieve E c k) = snd (retrieve E c' k) \<Longrightarrow> cc_group_size c = cc_group_size c' \<Longrightarrow>
    quorate E c k = quorate E c' k"
  by (simp add: quorate_def cong: option.case_cong)

text \<open>Record numbers of the view up to a view stamp.\<close>

definition keys_to :: "view_id_t \<Rightarrow> view_stamp \<Rightarrow> u64 set" where
  "keys_to v vs = {k. vstol (VS v 0) < k \<and> k \<le> vstol vs}"

lemma keys_to_mono: "k \<in> keys_to v a \<Longrightarrow> a \<le> b \<Longrightarrow> k \<in> keys_to v b"
  by (auto simp: keys_to_def intro: order_trans)

lemma VS_least [simp]: "vs_view_id vs = v \<Longrightarrow> VS v 0 \<le> vs"
  by (simp add: vs_le_iff)

section \<open>What the messages say\<close>

definition benign :: "bytes \<Rightarrow> bool" where
  "benign m \<longleftrightarrow> (\<exists>code \<in> {MISSING_REQ, MISSING_ACK, FORWARD_REQ}. ld 4 0 m = Some (con_code_val code))"

inductive msg_ok ::
  "'d env \<Rightarrow> view_id_t \<Rightarrow> nat \<Rightarrow> ('d, 'z) comp \<Rightarrow> nat \<Rightarrow> ('d, 'z) comp \<Rightarrow> bytes \<Rightarrow> bool"
  for E v l L src c where
  benign: "benign m \<Longrightarrow> msg_ok E v l L src c m"
| accept: "\<lbrakk>src = l; vs_view_id (ar_msg_vs a) = v; vstol (ar_msg_vs a) \<in> keys_to v (highest_seen_vs L);
    vs_view_id (ar_req_canbe_exed a) = v; ar_req_canbe_exed a \<le> highest_to_commit_vs L;
    holds E L (vstol (ar_msg_vs a)) data; length data = unat (rr_data_size r)\<rbrakk> \<Longrightarrow>
    msg_ok E v l L src c (enc_accept_req a @ enc_request_record r @ data)"
| ack: "\<lbrakk>aa_node_id a = of_nat src; vstol (aa_msg_vs a) \<in> keys_to v (highest_seen_vs L);
    holds E L (vstol (aa_msg_vs a)) data; holds E c (vstol (aa_msg_vs a)) data\<rbrakk> \<Longrightarrow>
    msg_ok E v l L src c (enc_accept_ack p a)"
| force: "\<lbrakk>src = l; vs_view_id (fe_highest_committed_op f) = v;
    fe_highest_committed_op f \<le> highest_to_commit_vs L\<rbrakk> \<Longrightarrow>
    msg_ok E v l L src c (enc_force_exec p f)"

section \<open>The leader\<close>

text \<open>The leader announces a request when it counts it as committed.\<close>

definition level :: "('d, 'z) comp \<Rightarrow> bool" where
  "level c \<longleftrightarrow> highest_committed_vs c = highest_to_commit_vs c"

lemma level_update [simp]:
  "level (c\<lparr>effects := e\<rparr>) = level c" "level (c\<lparr>disk := d\<rparr>) = level c"
  "level (c\<lparr>highest_seen_vs := vs\<rparr>) = level c"
  by (simp_all add: level_def)

lemma level_cong:
  "highest_to_commit_vs c' = highest_to_commit_vs c \<Longrightarrow> highest_committed_vs c' = highest_committed_vs c \<Longrightarrow>
   level c' = level c"
  by (simp add: level_def)

definition lead_inv ::
  "'d env \<Rightarrow> view_id_t \<Rightarrow> nat \<Rightarrow> nat \<Rightarrow> (nat \<Rightarrow> ('d, 'z) comp) \<Rightarrow> ('d, 'z) comp \<Rightarrow> bool" where
  "lead_inv E v N l others c \<longleftrightarrow> within v c \<and> my_role c = LEADER \<and>
     cc_node_id c = of_nat l \<and> cc_group_size c = of_nat N \<and> l < N \<and> N < 32 \<and>
     highest_to_commit_vs c \<le> highest_seen_vs c \<and> level c \<and>
     (\<forall>k \<in> keys_to v (highest_seen_vs c). backed E N l others c k) \<and>
     (\<forall>k \<in> keys_to v (highest_to_commit_vs c). quorate E c k) \<and>
     user_cbs (effects c) = map announce (keys_after (VS v 0) (highest_committed_vs c))"

text \<open>What every step of the leader keeps, and what it sends.\<close>

definition lead_mono :: "'d env \<Rightarrow> view_id_t \<Rightarrow> ('d, 'z) comp \<Rightarrow> ('d, 'z) comp \<Rightarrow> bool" where
  "lead_mono E v c c' \<longleftrightarrow> highest_seen_vs c \<le> highest_seen_vs c' \<and>
     highest_to_commit_vs c \<le> highest_to_commit_vs c' \<and>
     (\<forall>k \<in> keys_to v (highest_seen_vs c). \<forall>d. holds E c k d \<longrightarrow> holds E c' k d)"

definition new_calls :: "('d, 'z) comp \<Rightarrow> ('d, 'z) comp \<Rightarrow> (bytes \<times> i32) list" where
  "new_calls c c' = upcalls (drop (length (effects c)) (effects c'))"

lemma new_calls_same [simp]: "effects c' = effects c \<Longrightarrow> new_calls c c' = []"
  by (simp add: new_calls_def)

lemma new_calls_append: "effects c' = effects c @ es \<Longrightarrow> new_calls c c' = upcalls es"
  by (simp add: new_calls_def)

lemma new_calls_trans:
  assumes "same_config a b" "same_config b c"
  shows "new_calls a c = new_calls a b @ new_calls b c"
proof -
  obtain es fs where "effects b = effects a @ es" "effects c = effects b @ fs"
    using assms same_config_effects by blast
  then show ?thesis by (simp add: new_calls_def)
qed

definition sends_ok :: "'d env \<Rightarrow> view_id_t \<Rightarrow> nat \<Rightarrow> ('d, 'z) comp \<Rightarrow> nat \<Rightarrow> ('d, 'z) comp \<Rightarrow>
    ('d, 'z) comp \<Rightarrow> bool" where
  "sends_ok E v l L src c c' \<longleftrightarrow> (\<forall>(m, t) \<in> set (new_calls c c'). msg_ok E v l L src c' m)"

lemma lead_mono_refl [simp]: "lead_mono E v c c"
  by (simp add: lead_mono_def)

lemma lead_mono_trans: "lead_mono E v a b \<Longrightarrow> lead_mono E v b c \<Longrightarrow> lead_mono E v a c"
  unfolding lead_mono_def by (meson order_trans keys_to_mono)

lemma msg_ok_mono:
  assumes "msg_ok E v l L src c m" "lead_mono E v L L'"
    and "\<And>k d. k \<in> keys_to v (highest_seen_vs L) \<Longrightarrow> holds E L k d \<Longrightarrow> holds E c k d \<Longrightarrow> holds E c' k d"
  shows "msg_ok E v l L' src c' m"
  using assms(1)
proof cases
  case benign
  then show ?thesis by (rule msg_ok.benign)
next
  case (accept a data r)
  then show ?thesis
    using assms(2) by (auto simp: lead_mono_def intro!: msg_ok.accept intro: keys_to_mono order_trans)
next
  case (ack a data p)
  then show ?thesis
    using assms(2,3) by (auto simp: lead_mono_def intro!: msg_ok.ack [where data = data] intro: keys_to_mono)
next
  case (force f p)
  then show ?thesis
    using assms(2) by (auto simp: lead_mono_def intro!: msg_ok.force intro: order_trans)
qed

lemma executes_sends: "executes E c c' \<Longrightarrow> sends_ok E v l L src c c'"
  by (auto simp: executes_def only_executes_def sends_ok_def new_calls_append benign_def
      intro!: msg_ok.benign)

lemma executes_log:
  assumes "executes E c c'" "within v c" "within v c'"
    and "user_cbs (effects c) = map announce (keys_after (VS v 0) (highest_committed_vs c))"
  shows "user_cbs (effects c') = map announce (keys_after (VS v 0) (highest_committed_vs c'))"
proof -
  have "keys_after (VS v 0) (highest_committed_vs c) @
      keys_after (highest_committed_vs c) (highest_committed_vs c') =
      keys_after (VS v 0) (highest_committed_vs c')"
    using assms key_bound [of v "highest_committed_vs c'"]
    by (intro keys_after_append) (auto simp: within_def executes_def)
  with assms show ?thesis by (metis executes_def map_append)
qed

definition lead_step ::
  "'d env \<Rightarrow> view_id_t \<Rightarrow> nat \<Rightarrow> nat \<Rightarrow> (nat \<Rightarrow> ('d, 'z) comp) \<Rightarrow> ('d, 'z) comp \<Rightarrow> ('d, 'z) comp \<Rightarrow> bool" where
  "lead_step E v N l others c c' \<longleftrightarrow> same_config c c' \<and> lead_inv E v N l others c' \<and>
     lead_mono E v c c' \<and> sends_ok E v l c' l c c'"

lemma lead_step_refl: "lead_inv E v N l others c \<Longrightarrow> lead_step E v N l others c c"
  by (simp add: lead_step_def sends_ok_def)

lemma lead_step_trans:
  assumes "lead_step E v N l others a b" "lead_step E v N l others b c"
  shows "lead_step E v N l others a c"
proof -
  have s: "same_config a b" "same_config b c" and m: "lead_mono E v a b" "lead_mono E v b c"
    using assms by (simp_all add: lead_step_def)
  have "msg_ok E v l c l c x" if "msg_ok E v l b l b x" for x
    using msg_ok_mono [OF that m(2), of c] m(2) by (auto simp: lead_mono_def)
  then have "sends_ok E v l c l a c"
    using assms by (auto simp: lead_step_def sends_ok_def new_calls_trans [OF s])
  then show ?thesis
    using assms same_config_trans [OF s] lead_mono_trans [OF m] by (simp add: lead_step_def)
qed

lemma lead_readable:
  assumes "lead_inv E v N l others c"
    and "vstol (highest_to_commit_vs c) < k" "k \<le> vstol (highest_seen_vs c)"
  shows "readable E c k"
proof -
  have "vstol (VS v 0) \<le> vstol (highest_to_commit_vs c)"
    using assms(1) unfolding vstol_le_iff by (simp add: within_def lead_inv_def)
  with assms(2,3) have "k \<in> keys_to v (highest_seen_vs c)"
    unfolding keys_to_def by (blast intro: le_less_trans)
  with assms(1) have "backed E N l others c k" by (simp add: lead_inv_def)
  then show ?thesis by (rule backed_readable)
qed

lemma lead_executes:
  assumes "lead_inv E v N l others c" "executes E c c'" "within v c'"
    "highest_to_commit_vs c' \<le> highest_seen_vs c'" "level c'"
  shows "lead_step E v N l others c c'"
proof -
  have w: "within v c" using assms(1) by (simp add: lead_inv_def)
  have o: "only_executes c c'" using assms(2) by (simp add: executes_def)
  have r: "retrieve E c' = retrieve E c" by (rule only_executes_retrieve [OF o])
  have s: "highest_seen_vs c' = highest_seen_vs c" using o by (simp add: only_executes_def)
  note cfg = same_configD [OF only_executesD [OF o]]
  have q: "quorate E c' k" if "k \<in> keys_to v (highest_to_commit_vs c')" for k
  proof -
    have "quorate E c k"
      using that assms(1,2) unfolding keys_to_def lead_inv_def executes_def
      by (cases "k \<le> vstol (highest_to_commit_vs c)") (auto simp: keys_to_def)
    then show ?thesis using quorate_same [OF o] by simp
  qed
  have "lead_inv E v N l others c'"
    using assms q s cfg executes_log [OF assms(2) w assms(3)]
    by (auto simp: lead_inv_def backed_def r)
  moreover have "lead_mono E v c c'"
    using assms(2) s by (simp add: lead_mono_def holds_def r executes_def)
  ultimately show ?thesis
    using executes_sends [OF assms(2)] only_executesD [OF o] by (auto simp: lead_step_def)
qed

lemma lead_try:
  assumes "lead_inv E v N l others c" "try_to_execute E c = Some c'"
  shows "lead_step E v N l others c c'"
proof -
  have w: "within v c" "my_role c = LEADER" "highest_to_commit_vs c \<le> highest_seen_vs c"
    "highest_committed_vs c = highest_to_commit_vs c"
    using assms(1) by (simp_all add: lead_inv_def level_def)
  from try_to_execute_within [OF w(1) assms(2)] w lead_readable [OF assms(1)] show ?thesis
    by (intro lead_executes [OF assms(1)]) (auto simp: level_def)
qed

lemma lead_leader_try:
  assumes "lead_inv E v N l others c" "leader_try_to_execute E c = Some c'"
  shows "lead_step E v N l others c c'"
proof -
  have w: "within v c" "my_role c = LEADER" "highest_to_commit_vs c \<le> highest_seen_vs c"
    "highest_committed_vs c = highest_to_commit_vs c"
    using assms(1) by (simp_all add: lead_inv_def level_def)
  from leader_try_within [OF w(1,3,2), of E] lead_readable [OF assms(1)] assms(2) w(4)
  show ?thesis by (intro lead_executes [OF assms(1)]) (auto simp: level_def)
qed

text \<open>Writing to the database where no request of the view is.\<close>

lemma lead_write:
  assumes "lead_inv E v N l others c" "bdb_contract E" "store E c k b = (r, c')" "b \<noteq> []"
    and "k \<notin> keys_to v (highest_seen_vs c)"
  shows "lead_step E v N l others c c'"
proof -
  have c': "c' = c\<lparr>disk := disk c'\<rparr>" using assms(3) by (auto simp: store_def split: prod.splits)
  have r: "retrieve E c' k' = retrieve E c k'" if "k' \<in> keys_to v (highest_seen_vs c)" for k'
    using retrieve_store [OF assms(2-4), of k'] that assms(5) by auto
  have sel: "highest_seen_vs c' = highest_seen_vs c" "highest_to_commit_vs c' = highest_to_commit_vs c"
    "highest_committed_vs c' = highest_committed_vs c" "effects c' = effects c"
    "cc_group_size c' = cc_group_size c" "my_role c' = my_role c" "cc_node_id c' = cc_node_id c"
    "deliver_mode c' = deliver_mode c" "ucb_set c' = ucb_set c"
    by (subst c', simp)+
  have "backed E N l others c' k' = backed E N l others c k'"
    "quorate E c' k' = quorate E c k'" "holds E c' k' = holds E c k'"
    if "k' \<in> keys_to v (highest_seen_vs c)" for k'
    using r [OF that] sel(5) by (auto intro!: backed_cong quorate_cong holds_cong)
  moreover have "k' \<in> keys_to v (highest_to_commit_vs c) \<Longrightarrow> k' \<in> keys_to v (highest_seen_vs c)" for k'
    using assms(1) keys_to_mono by (auto simp: lead_inv_def)
  ultimately show ?thesis
    using assms(1) sel store_frame [OF assms(3)] level_cong [OF sel(2,3)]
    by (auto simp: lead_step_def lead_inv_def lead_mono_def sends_ok_def within_def)
qed

lemma lead_send:
  assumes "lead_inv E v N l others c" "call_uc m t c = Some c'" "msg_ok E v l c l c m"
  shows "lead_step E v N l others c c'"
proof -
  have c': "c' = c\<lparr>effects := effects c @ [Upcall m t]\<rparr>"
    using assms(2) by (auto simp: call_uc_def split: if_splits)
  have r: "retrieve E c' = retrieve E c" by (simp add: c')
  have m: "lead_mono E v c c'" by (simp add: lead_mono_def c' holds_def)
  have "msg_ok E v l c' l c' m"
    by (rule msg_ok_mono [OF assms(3) m]) (simp add: c' holds_def)
  then show ?thesis
    using assms(1) m call_uc_frame [OF assms(2)]
    by (auto simp: lead_step_def lead_inv_def sends_ok_def new_calls_def within_def c' backed_def
        quorate_def)
qed

lemma lead_send_option:
  assumes "lead_inv E v N l others c" "(case m of None \<Rightarrow> Some c | Some msg \<Rightarrow> call_uc msg t c) = Some c'"
    and "\<And>msg. m = Some msg \<Longrightarrow> msg_ok E v l c l c msg"
  shows "lead_step E v N l others c c'"
  using assms lead_send lead_step_refl by (auto split: option.splits)

section \<open>Acknowledgements and missing records\<close>

lemma dec_front [simp]:
  "dec_accept_ack (enc_accept_ack p a @ rest) = Some a"
  "dec_accept_req (enc_accept_req q @ rest) = Some q"
  "dec_force_exec (enc_force_exec p f @ rest) = Some f"
  by (simp_all add: accept_ack.dec_enc_append accept_req.dec_enc_append force_exec.dec_enc_append)

lemma enc_request_record_nonempty [simp]: "enc_request_record r \<noteq> []"
  using length_enc(9) [of r] by (metis list.size(3) zero_neq_numeral)

lemma enc_request_record_eq [simp]: "enc_request_record r = enc_request_record r' \<longleftrightarrow> r = r'"
  using request_record.enc_inj by auto

lemma lead_step_try:
  assumes "lead_step E v N l others c c1" "try_to_execute E c1 = Some c'"
  shows "lead_step E v N l others c c'"
proof -
  have "lead_inv E v N l others c1" using assms(1) by (simp add: lead_step_def)
  from lead_step_trans [OF assms(1) lead_try [OF this assms(2)]] show ?thesis .
qed

lemma lead_vote:
  assumes "lead_inv E v N l others c" "bdb_contract E" "k \<in> keys_to v (highest_seen_vs c)"
    and "snd (retrieve E c k) = Some (enc_request_record r @ data)" "length data = unat (rr_data_size r)"
    and "src < N" "holds E (others src) k data"
    and "r' = r\<lparr>rr_bit_map := rr_bit_map r OR push_bit src 1\<rparr>"
    and "store E c k (enc_request_record r' @ data) = (ret, c')"
  shows "lead_step E v N l others c c'"
proof -
  have c': "c' = c\<lparr>disk := disk c'\<rparr>" using assms(9) by (auto simp: store_def split: prod.splits)
  have sel: "highest_seen_vs c' = highest_seen_vs c" "highest_to_commit_vs c' = highest_to_commit_vs c"
    "highest_committed_vs c' = highest_committed_vs c" "effects c' = effects c"
    "cc_group_size c' = cc_group_size c" "my_role c' = my_role c" "cc_node_id c' = cc_node_id c"
    "deliver_mode c' = deliver_mode c" "ucb_set c' = ucb_set c"
    by (subst c', simp)+
  have r: "retrieve E c' k' = (if k' = k \<and> ret = 0 then (0, Some (enc_request_record r' @ data))
      else retrieve E c k')" for k'
    by (rule retrieve_store [OF assms(2,9)]) simp
  have b: "backed E N l others c k" using assms(1,3) by (simp add: lead_inv_def)
  then have bits: "length data < 4294967296" "bit (rr_bit_map r) l"
    "bit (rr_bit_map r) n \<Longrightarrow> n < N \<and> (n \<noteq> l \<longrightarrow> holds E (others n) k data)" for n
    using assms(4) by (auto simp: backed_def)
  have h: "holds E c' k' = holds E c k'" for k'
    using r [of k'] assms(4,5,8) by (auto simp: holds_def fun_eq_iff)
  have "bit (rr_bit_map r') n \<Longrightarrow> bit (rr_bit_map r) n \<or> n = src" "bit (rr_bit_map r) n \<Longrightarrow> bit (rr_bit_map r') n" for n
    by (auto simp: assms(8) bit_simps)
  then have bb: "backed E N l others c' k'" if "backed E N l others c k'" for k'
    using that r [of k'] bits assms(5-8) by (cases "k' = k \<and> ret = 0") (auto simp: backed_def)
  have "bits (rr_bit_map r) \<subseteq> bits (rr_bit_map r')" by (simp add: assms(8))
  then have "reached_quorum r gs \<Longrightarrow> reached_quorum r' gs" for gs
    by (rule reached_quorum_mono [rotated])
  then have q: "quorate E c' k'" if "quorate E c k'" for k'
    using that r [of k'] assms(4) sel(5)
    by (cases "k' = k \<and> ret = 0") (auto simp: quorate_def split: option.splits)
  show ?thesis
    using assms(1) sel bb q h store_frame [OF assms(9)] level_cong [OF sel(2,3)]
    by (auto simp: lead_step_def lead_inv_def lead_mono_def sends_ok_def within_def)
qed

lemma lead_ack:
  assumes "lead_inv E v N l others c" "bdb_contract E"
    and "handle_accept_ack E (enc_accept_ack p a @ rest) c = Some c'"
    and "aa_node_id a = of_nat src" "src < N" "vstol (aa_msg_vs a) \<in> keys_to v (highest_seen_vs c)"
    and "holds E c (vstol (aa_msg_vs a)) data" "holds E (others src) (vstol (aa_msg_vs a)) data"
  shows "lead_step E v N l others c c'"
proof (cases "aa_msg_vs a \<le> highest_committed_vs c")
  case True
  with assms(1,3) show ?thesis by (auto simp: handle_accept_ack_def lead_inv_def intro: lead_try)
next
  case False
  let ?k = "vstol (aa_msg_vs a)"
  from assms(7) obtain r where r: "snd (retrieve E c ?k) = Some (enc_request_record r @ data)"
    "length data = unat (rr_data_size r)" by (auto simp: holds_def)
  have N: "N < 32" "my_role c = LEADER" using assms(1) by (simp_all add: lead_inv_def)
  then have "unat (ucast (of_nat src :: u64) :: u32) = src"
    using assms(5) by (simp add: unat_ucast_small unat_of_nat_small)
  with N assms(4,5) have u: "update_record r (ucast (aa_node_id a)) =
      Some (r\<lparr>rr_bit_map := rr_bit_map r OR push_bit src 1\<rparr>)"
    by (simp add: update_record_def node_bit_small)
  obtain ret c1 where st: "store E c ?k (enc_request_record
      (r\<lparr>rr_bit_map := rr_bit_map r OR push_bit src 1\<rparr>) @ data) = (ret, c1)"
    by (meson surj_pair)
  with assms(3) False N r u have t: "try_to_execute E c1 = Some c'"
    by (simp add: handle_accept_ack_def)
  have "lead_step E v N l others c c1"
    by (rule lead_vote [OF assms(1,2,6) r assms(5,8) refl st])
  then show ?thesis using t by (rule lead_step_try)
qed

lemma build_missing_ack_benign:
  "build_missing_ack E c vs = Some (Some m) \<Longrightarrow> benign m"
  unfolding build_missing_ack_def
  by (auto simp: benign_def enc_missing_ack_def Let_def dest!: alloc_fill_Some_SomeD split: option.splits if_splits)
    (auto simp: layout)

lemma lead_missing_req:
  assumes "lead_inv E v N l others c" "handle_missing_req E blk c = Some c'"
  shows "lead_step E v N l others c c'"
proof -
  from assms(2) obtain x where x: "dec_missing_req blk = Some x"
    unfolding handle_missing_req_def by auto
  then obtain m where m: "build_missing_ack E c (mr_missing_vs x) = Some m"
    using assms(2) unfolding handle_missing_req_def by auto
  show ?thesis
    using assms(2) x m by (intro lead_send_option [OF assms(1)])
      (auto simp: handle_missing_req_def intro!: msg_ok.benign dest: build_missing_ack_benign)
qed

lemma handle_missing_ackE:
  assumes "handle_missing_ack E blk c = Some c'"
  obtains "c' = c"
  | k r data ret c1 where "snd (retrieve E c k) = None" "store E c k (enc_request_record r @ data) = (ret, c1)"
      "try_to_execute E c1 = Some c'"
proof -
  from assms obtain msg where msg: "dec_missing_ack blk = Some msg"
    unfolding handle_missing_ack_def by auto
  let ?k = "vstol (ma_missing_vs msg)"
  show thesis
  proof (cases "ma_missing_vs msg \<le> highest_committed_vs c \<or> snd (retrieve E c ?k) \<noteq> None")
    case True
    with assms msg show thesis by (intro that(1)) (auto simp: handle_missing_ack_def Let_def split: if_splits)
  next
    case False
    with assms msg show thesis
      by (auto simp: handle_missing_ack_def alloc_fill_def Let_def split: if_splits option.splits
          intro: that(1) that(2) [OF _ prod.collapse [symmetric]])
  qed
qed

lemma lead_missing_ack:
  assumes "lead_inv E v N l others c" "bdb_contract E" "handle_missing_ack E blk c = Some c'"
  shows "lead_step E v N l others c c'"
  using assms(3)
proof (cases rule: handle_missing_ackE)
  case 1
  with assms(1) show ?thesis by (simp add: lead_step_refl)
next
  case (2 k r data ret c1)
  have "k \<notin> keys_to v (highest_seen_vs c)"
    using 2(1) assms(1) by (auto simp: lead_inv_def backed_def)
  then have "lead_step E v N l others c c1"
    by (intro lead_write [OF assms(1,2) 2(2)]) simp_all
  then show ?thesis using 2(3) by (rule lead_step_try)
qed

section \<open>Submitting\<close>

lemma build_accept_of_record:
  assumes "build_accept_req E c (REQ_RECORD_SIZE r) (enc_request_record r @ data) vs = Some (Some m)"
    and "length data = unat (rr_data_size r)" "length data < 4294967296"
  shows "\<exists>a. m = enc_accept_req a @ enc_request_record r @ data \<and> ar_msg_vs a = vs \<and>
    ar_req_canbe_exed a = highest_to_commit_vs c"
proof -
  have "unat (REQ_RECORD_SIZE r) = length (enc_request_record r @ data)"
    using assms(2,3) by (simp add: REQ_RECORD_SIZE_def unat_word_ariths)
  with assms(1) show ?thesis
    by (auto simp: build_accept_req_def ld_bytes_def split: if_splits dest!: alloc_fill_Some_SomeD)
qed

lemma lead_accept_ok:
  assumes "lead_inv E v N l others c" "k \<in> keys_to v (highest_seen_vs c)" "ltovs k = vs" "vs_view_id vs = v"
    and "snd (retrieve E c k) = Some (enc_request_record r @ data)"
    and "length data = unat (rr_data_size r)" "length data < 4294967296"
    and "build_accept_req E c (REQ_RECORD_SIZE r) (enc_request_record r @ data) vs = Some (Some m)"
  shows "msg_ok E v l c l c m"
proof -
  from build_accept_of_record [OF assms(8,6,7)] obtain a where a:
    "m = enc_accept_req a @ enc_request_record r @ data" "ar_msg_vs a = vs"
    "ar_req_canbe_exed a = highest_to_commit_vs c" by auto
  have "vstol vs = k" using assms(3) by auto
  moreover have "holds E c k data" using assms(5,6) by (auto simp: holds_def)
  ultimately show ?thesis
    unfolding a(1) using a(2,3) assms(1,2,4,6)
    by (intro msg_ok.accept) (auto simp: lead_inv_def within_def)
qed

lemma le_plus_1: "y \<noteq> - 1 \<Longrightarrow> x \<le> y + 1 \<longleftrightarrow> x = y + 1 \<or> x \<le> (y :: u64)"
  using unat_plus_1 [of y] by (auto simp: word_le_nat_alt word_unat_eq_iff le_Suc_eq)

lemma next_key:
  assumes "vs_view_id vs = v" "vs_req_id vs \<noteq> - 1"
  shows "vstol (view_stamp_inc vs) = vstol vs + 1" "vs < view_stamp_inc vs"
    "vs_view_id (view_stamp_inc vs) = v"
    "keys_to v (view_stamp_inc vs) = insert (vstol (view_stamp_inc vs)) (keys_to v vs)"
proof -
  have u: "unat (vstol (view_stamp_inc vs)) = Suc (unat (vstol vs))"
    using unat_plus_1 [OF assms(2)] by (simp add: unat_vstol view_stamp_inc_def)
  show v: "vs_view_id (view_stamp_inc vs) = v" using assms(1) by (simp add: view_stamp_inc_def)
  show lt: "vs < view_stamp_inc vs"
    using u unfolding vstol_less_iff [symmetric] word_less_nat_alt by simp
  then have "vstol vs \<noteq> - 1"
    using vstol_less_iff by (metis word_order.extremum_strict)
  then have "unat (vstol vs + 1) = Suc (unat (vstol vs))" by (simp add: unat_plus_1)
  with u show e: "vstol (view_stamp_inc vs) = vstol vs + 1" by (simp only: word_unat_eq_iff)
  have "vstol (VS v 0) \<le> vstol vs" unfolding vstol_le_iff using assms(1) by simp
  have "vstol vs < vstol vs + 1" using \<open>vstol vs \<noteq> - 1\<close> by (rule word_less_plus_1)
  from le_less_trans [OF \<open>vstol (VS v 0) \<le> vstol vs\<close> this]
  show "keys_to v (view_stamp_inc vs) = insert (vstol (view_stamp_inc vs)) (keys_to v vs)"
    unfolding keys_to_def e le_plus_1 [OF \<open>vstol vs \<noteq> - 1\<close>] by auto
qed

text \<open>The leader has stored a request under the next number and now counts it as seen.\<close>

lemma lead_number:
  assumes "lead_step E v N l others c c1" "vs_req_id (highest_seen_vs c) \<noteq> - 1"
    and "c1 = c\<lparr>disk := d\<rparr>" "c2 = c1\<lparr>highest_seen_vs := view_stamp_inc (highest_seen_vs c1)\<rparr>"
    and "backed E N l others c1 (vstol (view_stamp_inc (highest_seen_vs c)))"
  shows "lead_step E v N l others c c2"
proof -
  let ?vs = "view_stamp_inc (highest_seen_vs c)"
  have i: "lead_inv E v N l others c1" using assms(1) by (simp add: lead_step_def)
  have v: "vs_view_id (highest_seen_vs c) = v" and le: "highest_to_commit_vs c \<le> highest_seen_vs c"
    using i by (simp_all add: lead_inv_def within_def assms(3))
  note nk = next_key [OF v assms(2)]
  have sc: "highest_seen_vs c1 = highest_seen_vs c" "highest_to_commit_vs c1 = highest_to_commit_vs c"
    by (simp_all add: assms(3))
  have c2: "c2 = c1\<lparr>highest_seen_vs := ?vs\<rparr>" unfolding assms(4) sc by (rule refl)
  have "backed E N l others c2 (vstol ?vs)" using assms(5) by (simp add: c2 backed_def)
  then have "lead_step E v N l others c1 c2"
    using i nk le v sc unfolding lead_step_def lead_inv_def lead_mono_def sends_ok_def c2
    by (auto simp: within_def nk(4) backed_def quorate_def holds_def intro: order_trans less_imp_le)
  with assms(1) show ?thesis by (rule lead_step_trans)
qed

lemma lead_submit:
  assumes "lead_inv E v N l others c" "bdb_contract E" "unat n < 4294967296"
    and "vs_req_id (highest_seen_vs c) \<noteq> - 1"
    and "leader_handle_submit_req E n data c = Some (ret, vs, c')"
  shows "lead_step E v N l others c c'"
proof -
  let ?vs = "view_stamp_inc (highest_seen_vs c)"
  have inc: "get_next_view_stamp c = ?vs"
    by (simp add: view_stamp_inc_def get_next_view_stamp_def)
  have i: "vs_view_id (highest_seen_vs c) = v" "l < N" "N < 32" "cc_node_id c = of_nat l"
    "highest_to_commit_vs c \<le> highest_seen_vs c"
    using assms(1) by (simp_all add: lead_inv_def within_def)
  note nk = next_key [OF i(1) assms(4)]
  have "unat (cc_node_id c) = l" using i by (simp add: unat_of_nat_small)
  define pb :: u64 where "pb = push_bit l 1"
  have nb: "node_bit (cc_node_id c) = Some pb"
    using node_bit_small [of "cc_node_id c"] i(2,3) \<open>unat (cc_node_id c) = l\<close> by (simp add: pb_def)
  have pb: "bit pb n \<longleftrightarrow> n = l" for n using i(2,3) by (auto simp: pb_def bit_simps)
  from assms(5) nb obtain payload where p: "ld_bytes (unat n) 0 data = Some payload"
    unfolding leader_handle_submit_req_def Let_def by auto
  define r where "r = \<lparr>rr_created_time = now E, rr_is_closed = 0, rr_bit_map = pb,
    rr_data_size = n\<rparr>"
  let ?b = "enc_request_record r @ payload"
  have len: "length payload = unat (rr_data_size r)" "length payload < 4294967296"
    using ld_bytes_Some_length [OF p] assms(3) by (simp_all add: r_def)
  obtain st c1 where st: "store E c (vstol ?vs) ?b = (st, c1)" by (meson surj_pair)
  have rest: "(if st \<noteq> 0 then Some (1, Some ?vs, c1)
     else do {
       let c = c1\<lparr>highest_seen_vs := view_stamp_inc (highest_seen_vs c1)\<rparr>;
       if cc_group_size c > 1 then do {
         m \<leftarrow> build_accept_req E c (REQ_RECORD_SIZE r) ?b ?vs;
         (case m of
            None \<Rightarrow> Some (0, Some ?vs, c)
          | Some msg \<Rightarrow> do { c \<leftarrow> call_uc msg (- 1) c; Some (0, Some ?vs, c) })
       }
       else do { c \<leftarrow> try_to_execute E c; Some (0, Some ?vs, c) }
     }) = Some (ret, vs, c')"
    using assms(5) nb p st
    by (auto simp: leader_handle_submit_req_def inc Let_def r_def [symmetric] alloc_fill_def split: option.splits if_splits)
  have "vstol ?vs \<notin> keys_to v (highest_seen_vs c)"
    using nk(2) by (auto simp: keys_to_def)
  from lead_write [OF assms(1,2) st _ this] have w: "lead_step E v N l others c c1" by simp
  show ?thesis
  proof (cases "st = 0")
    case False
    with rest w show ?thesis by simp
  next
    case True
    have c1: "c1 = c\<lparr>disk := disk c1\<rparr>" using st by (auto simp: store_def split: prod.splits)
    define c2 where "c2 = c1\<lparr>highest_seen_vs := view_stamp_inc (highest_seen_vs c1)\<rparr>"
    have sc: "highest_seen_vs c2 = ?vs" by (simp add: c2_def) (subst c1, simp)
    have r2: "retrieve E c2 = retrieve E c1" by (simp add: c2_def)
    have rk: "snd (retrieve E c1 (vstol ?vs)) = Some ?b"
      using retrieve_store [OF assms(2) st, of "vstol ?vs"] True by simp
    have "backed E N l others c1 (vstol ?vs)"
      using rk len i(2) by (auto simp: backed_def r_def pb)
    note t2 = lead_number [OF w assms(4) c1 c2_def this]
    then have l2: "lead_inv E v N l others c2" by (simp add: lead_step_def)
    show ?thesis
    proof (cases "1 < cc_group_size c2")
      case False
      with rest True have "try_to_execute E c2 = Some c'" by (auto simp: Let_def c2_def [symmetric])
      with t2 show ?thesis by (rule lead_step_try)
    next
      case gs: True
      with rest True obtain m where
        m: "build_accept_req E c2 (REQ_RECORD_SIZE r) ?b ?vs = Some m"
          "(case m of None \<Rightarrow> Some c2 | Some msg \<Rightarrow> call_uc msg (- 1) c2) = Some c'"
        by (auto simp: Let_def c2_def [symmetric] split: option.splits)
      have "vstol ?vs \<in> keys_to v (highest_seen_vs c2)" by (simp add: sc nk(4))
      then have "lead_step E v N l others c2 c'"
        using m rk len nk(3) by (intro lead_send_option [OF l2 m(2)])
          (rule lead_accept_ok [OF l2 _ ltovs_vstol, where r = r and data = payload], auto simp: r2)
      with t2 show ?thesis by (rule lead_step_trans)
    qed
  qed
qed

section \<open>Progress and the messages to the leader\<close>

lemma lead_progress_step:
  assumes "lead_inv E v N l others c" "k \<in> keys_to v (highest_seen_vs c)" "vs_view_id (ltovs k) = v"
    and "progress_body E k c = Some (Inr c')"
  shows "lead_step E v N l others c c'"
proof -
  from assms(1,2) obtain r data where r: "snd (retrieve E c k) = Some (enc_request_record r @ data)"
    "length data = unat (rr_data_size r)" "length data < 4294967296"
    by (auto simp: lead_inv_def backed_def)
  show ?thesis
  proof (cases "reached_quorum r (cc_group_size c)")
    case True
    with assms(4) r have "c' = c" by (simp add: progress_body_def)
    with assms(1) show ?thesis by (simp add: lead_step_refl)
  next
    case False
    with assms(4) r obtain m where
      m: "build_accept_req E c (REQ_RECORD_SIZE r) (enc_request_record r @ data) (ltovs k) = Some m"
        "(case m of None \<Rightarrow> Some c | Some msg \<Rightarrow> call_uc msg (- 1) c) = Some c'"
      by (auto simp: progress_body_def)
    show ?thesis
      using m(1) by (intro lead_send_option [OF assms(1) m(2)])
        (rule lead_accept_ok [OF assms(1,2) refl assms(3) r], simp)
  qed
qed

lemma progress_body_Inr: "progress_body E k c = Some x \<Longrightarrow> \<exists>c'. x = Inr c'"
  by (auto simp: progress_body_def split: option.splits if_splits)

lemma key_in_view:
  assumes "vstol (VS v 0) \<le> k" "k \<le> vstol ws" "vs_view_id ws = v"
  shows "vs_view_id (ltovs k) = v"
proof -
  have "VS v 0 \<le> ltovs k" "ltovs k \<le> ws"
    using assms(1,2) vstol_le_iff [of "VS v 0" "ltovs k"] vstol_le_iff [of "ltovs k" ws] by simp_all
  with assms(3) show ?thesis by (auto simp: vs_le_iff)
qed

lemma lead_progress_loop:
  assumes "lead_inv E v N l others c" "make_progress_loop E (vstol (highest_seen_vs c)) i c = Some c'"
    and "vstol (VS v 0) < i"
  shows "lead_step E v N l others c c'"
proof -
  have v: "vs_view_id (highest_seen_vs c) = v" "v \<noteq> - 1"
    using assms(1) by (simp_all add: lead_inv_def within_def)
  then have "vstol (highest_seen_vs c) \<noteq> - 1" by (intro key_bound) simp_all
  from this assms(2) show ?thesis
  proof (rule progress.loop_invariant
      [where P = "\<lambda>c1. lead_step E v N l others c c1 \<and> highest_seen_vs c1 = highest_seen_vs c"])
    show "lead_step E v N l others c c \<and> highest_seen_vs c = highest_seen_vs c"
      using assms(1) by (simp add: lead_step_refl)
  next
    fix k c1 c2
    assume k: "i \<le> k" "k \<le> vstol (highest_seen_vs c)"
      and c1: "lead_step E v N l others c c1 \<and> highest_seen_vs c1 = highest_seen_vs c"
      and b: "progress_body E k c1 = Some (Inr c2)"
    have "k \<in> keys_to v (highest_seen_vs c)"
      using k assms(3) by (auto simp: keys_to_def)
    moreover have "vs_view_id (ltovs k) = v"
      using k assms(3) v by (intro key_in_view [of v k "highest_seen_vs c"]) auto
    ultimately have "lead_step E v N l others c1 c2"
      using c1 b by (intro lead_progress_step) (auto simp: lead_step_def)
    moreover have "highest_seen_vs c2 = highest_seen_vs c1"
      using b by (auto simp: progress_body_def call_uc_def split: option.splits if_splits)
    ultimately show "lead_step E v N l others c c2 \<and> highest_seen_vs c2 = highest_seen_vs c"
      using c1 lead_step_trans by metis
  next
    fix k and c1 r :: "('a, 'b) comp"
    assume "progress_body E k c1 = Some (Inl r)"
    then show "lead_step E v N l others c r" using progress_body_Inr by fastforce
  qed auto
qed

text \<open>\<open>consensus_make_progress\<close> in its three parts.\<close>

definition progress_start :: "('d, 'z) comp \<Rightarrow> view_stamp" where
  "progress_start c =
     (let temp = VS (v_view_id (cur_view c)) 0
      in view_stamp_inc (if temp < highest_committed_vs c then highest_committed_vs c else temp))"

definition resend_all :: "'d env \<Rightarrow> ('d, 'z) comp \<Rightarrow> ('d, 'z) comp option" where
  "resend_all E c =
     (if highest_committed_vs c < highest_seen_vs c \<and> vs_view_id (highest_seen_vs c) = v_view_id (cur_view c)
      then make_progress_loop E (vstol (highest_seen_vs c)) (vstol (progress_start c)) c else Some c)"

lemma make_progress_alt:
  "my_role c = LEADER \<Longrightarrow> consensus_make_progress E c = do {
     c1 \<leftarrow> leader_try_to_execute E c;
     c2 \<leftarrow> resend_all E c1;
     m \<leftarrow> build_force_exec E c2;
     (case m of None \<Rightarrow> Some c2 | Some msg \<Rightarrow> call_uc msg (- 1) c2)
   }"
  by (simp add: consensus_make_progress_def resend_all_def progress_start_def Let_def
      split del: if_split cong: if_cong)

lemma progress_start:
  assumes "within v c" "v_view_id (cur_view c) = v" "highest_committed_vs c < highest_seen_vs c"
  shows "vstol (progress_start c) = vstol (highest_committed_vs c) + 1" "vstol (VS v 0) < vstol (progress_start c)"
proof -
  have v: "vs_view_id (highest_committed_vs c) = v" "vs_view_id (highest_seen_vs c) = v"
    using assms(1) by (simp_all add: within_def)
  have fr: "progress_start c = view_stamp_inc (highest_committed_vs c)"
    using assms(2) VS_least [OF v(1)] by (auto simp: progress_start_def Let_def order.order_iff_strict)
  have "vs_req_id (highest_committed_vs c) < vs_req_id (highest_seen_vs c)"
    using assms(3) v by (auto simp: vs_less_iff)
  then have "vs_req_id (highest_committed_vs c) \<noteq> - 1"
    by (metis word_order.extremum_strict)
  note nx = next_key(1,2) [OF v(1) this]
  show "vstol (progress_start c) = vstol (highest_committed_vs c) + 1" unfolding fr by (rule nx(1))
  have "VS v 0 < progress_start c" unfolding fr by (rule le_less_trans [OF VS_least [OF v(1)] nx(2)])
  then show "vstol (VS v 0) < vstol (progress_start c)" unfolding vstol_less_iff .
qed

lemma lead_resend:
  assumes "lead_inv E v N l others c" "resend_all E c = Some c'"
  shows "lead_step E v N l others c c'"
proof (cases "highest_committed_vs c < highest_seen_vs c \<and>
    vs_view_id (highest_seen_vs c) = v_view_id (cur_view c)")
  case False
  with assms show ?thesis by (auto simp: resend_all_def lead_step_refl)
next
  case True
  have w: "within v c" using assms(1) by (simp add: lead_inv_def)
  with True have "v_view_id (cur_view c) = v" by (simp add: within_def)
  from progress_start(2) [OF w this] True assms(2) show ?thesis
    by (intro lead_progress_loop [OF assms(1)]) (auto simp: resend_all_def)
qed

lemma lead_progress:
  assumes "lead_inv E v N l others c" "consensus_make_progress E c = Some c'"
  shows "lead_step E v N l others c c'"
proof -
  have "my_role c = LEADER" using assms(1) by (simp add: lead_inv_def)
  from assms(2) obtain c1 c2 m where c1: "leader_try_to_execute E c = Some c1"
    and c2: "resend_all E c1 = Some c2" and m: "build_force_exec E c2 = Some m"
      "(case m of None \<Rightarrow> Some c2 | Some msg \<Rightarrow> call_uc msg (- 1) c2) = Some c'"
    unfolding make_progress_alt [OF \<open>my_role c = LEADER\<close>] by auto
  have s1: "lead_step E v N l others c c1" by (rule lead_leader_try [OF assms(1) c1])
  then have i1: "lead_inv E v N l others c1" by (simp add: lead_step_def)
  have s2: "lead_step E v N l others c1 c2" by (rule lead_resend [OF i1 c2])
  then have i2: "lead_inv E v N l others c2" by (simp add: lead_step_def)
  have "lead_step E v N l others c2 c'"
  proof (rule lead_send_option [OF i2 m(2)])
    fix msg
    assume "m = Some msg"
    with m(1) i2 show "msg_ok E v l c2 l c2 msg"
      by (auto simp: build_force_exec_def lead_inv_def within_def dest!: alloc_fill_Some_SomeD
          intro!: msg_ok.force)
  qed
  with s1 s2 show ?thesis using lead_step_trans by blast
qed

lemma lead_forward:
  assumes "lead_inv E v N l others c" "bdb_contract E" "handle_forward_req E blk c = Some c'"
    and "length blk < 4294967296" "vs_req_id (highest_seen_vs c) \<noteq> - 1"
  shows "lead_step E v N l others c c'"
proof -
  have L: "my_role c = LEADER" using assms(1) by (simp add: lead_inv_def)
  with assms(3) obtain msg ret vs where m: "dec_forward_req blk = Some msg"
    "leader_handle_submit_req E (fr_data_size msg) (drop forward_req_len blk) c = Some (ret, vs, c')"
    unfolding handle_forward_req_def by auto
  from m(2) have "unat (fr_data_size msg) \<le> length (drop forward_req_len blk)"
    unfolding leader_handle_submit_req_def by (auto simp: Let_def ld_bytes_def split: if_splits)
  then have "unat (fr_data_size msg) < 4294967296" using assms(4) by simp
  from lead_submit [OF assms(1,2) this assms(5) m(2)] show ?thesis .
qed

text \<open>Every message that reaches the leader.\<close>

lemma ld_code_front [simp]:
  "ld 4 0 (enc_accept_req q @ rest) = Some (con_code_val ACCEPT_REQ)"
  "ld 4 0 (enc_accept_ack p a @ rest) = Some (con_code_val ACCEPT_ACK)"
  "ld 4 0 (enc_force_exec p f @ rest) = Some (con_code_val FORCE_EXEC)"
  by (simp_all add: enc_accept_req_def enc_accept_ack_def enc_force_exec_def layout)

lemma ld_front: "ld n 0 m = Some w \<Longrightarrow> ld n 0 (m @ rest) = Some w"
  by (auto simp: ld_def split: if_splits)

lemma lead_receive:
  assumes "lead_inv E v N l others c" "bdb_contract E" "consensus_handle_msg E (m @ rest) c = Some c'"
    and "length (m @ rest) < 4294967296" "vs_req_id (highest_seen_vs c) \<noteq> - 1"
    and "msg_ok E v l c src (others src) m" "src < N" "src \<noteq> l"
  shows "lead_step E v N l others c c'"
  using assms(6)
proof cases
  case benign
  then obtain w where "w \<in> {con_code_val MISSING_REQ, con_code_val MISSING_ACK, con_code_val FORWARD_REQ}"
    "ld 4 0 (m @ rest) = Some w"
    by (auto simp: benign_def dest: ld_front)
  with assms(3) show ?thesis
    by (elim consensus_handle_msgE) (auto intro: lead_missing_req lead_missing_ack
        lead_forward [OF assms(1,2) _ assms(4,5)] lead_step_refl assms(1,2))
next
  case (accept a data r)
  with assms(8) show ?thesis by simp
next
  case (ack a data p)
  from assms(3) show ?thesis unfolding ack(1)
  proof (cases rule: consensus_handle_msgE)
    case accept_ack
    from lead_ack [OF assms(1,2) this(2) ack(2) assms(7) ack(3,4,5)] show ?thesis .
  qed (simp_all add: lead_step_refl assms(1))
next
  case (force f p)
  with assms(8) show ?thesis by simp
qed

end
