(* ===== verification/GroupFollower.thy ===== *)
theory GroupFollower
  imports GroupLeader
begin

text \<open>
  A follower's side of a group in one view: its commit point stays behind the leader's, it never
  loses a request that the leader has, and it only acknowledges what it has stored. Every operation
  of a follower is a \<open>foll_step\<close>.
\<close>

section \<open>A follower\<close>

definition foll_inv ::
  "view_id_t \<Rightarrow> nat \<Rightarrow> ('d, 'z) comp \<Rightarrow> nat \<Rightarrow> ('d, 'z) comp \<Rightarrow> bool" where
  "foll_inv v l L i c \<longleftrightarrow> within v c \<and> my_role c = SECONDARY \<and> cc_node_id c = of_nat i \<and>
     i \<noteq> l \<and> i < 32 \<and> highest_to_commit_vs c \<le> highest_to_commit_vs L \<and>
     user_cbs (effects c) = map announce (keys_after (VS v 0) (highest_committed_vs c))"

definition foll_step ::
  "'d env \<Rightarrow> view_id_t \<Rightarrow> nat \<Rightarrow> ('d, 'z) comp \<Rightarrow> nat \<Rightarrow> ('d, 'z) comp \<Rightarrow> ('d, 'z) comp \<Rightarrow> bool" where
  "foll_step E v l L i c c' \<longleftrightarrow> same_config c c' \<and> foll_inv v l L i c' \<and>
     (\<forall>k \<in> keys_to v (highest_seen_vs L). \<forall>d. holds E L k d \<longrightarrow> holds E c k d \<longrightarrow> holds E c' k d) \<and>
     sends_ok E v l L i c c'"

lemma foll_step_refl: "foll_inv v l L i c \<Longrightarrow> foll_step E v l L i c c"
  by (simp add: foll_step_def sends_ok_def)

lemma foll_step_trans:
  assumes "foll_step E v l L i a b" "foll_step E v l L i b c"
  shows "foll_step E v l L i a c"
proof -
  have s: "same_config a b" "same_config b c"
    using assms by (simp_all add: foll_step_def)
  have "msg_ok E v l L i c x" if "msg_ok E v l L i b x" for x
    using msg_ok_mono [OF that lead_mono_refl, of c] assms(2) by (auto simp: foll_step_def)
  then have "sends_ok E v l L i a c"
    using assms by (auto simp: foll_step_def sends_ok_def new_calls_trans [OF s])
  then show ?thesis
    using assms same_config_trans [OF s] by (simp add: foll_step_def)
qed

lemma foll_try:
  assumes "foll_inv v l L i c" "try_to_execute E c = Some c'"
  shows "foll_step E v l L i c c'"
proof -
  have w: "within v c" "my_role c = SECONDARY" using assms(1) by (simp_all add: foll_inv_def)
  with try_to_execute_within [OF w(1) assms(2)] have x: "executes E c c'" "within v c'" by simp_all
  have o: "only_executes c c'" using x(1) by (simp add: executes_def)
  have "\<not> vstol (highest_to_commit_vs c) < vstol (highest_to_commit_vs c')"
    using x(1) w(2) unfolding executes_def by fastforce
  then have "highest_to_commit_vs c' \<le> highest_to_commit_vs c" by (simp add: not_less)
  then have "foll_inv v l L i c'"
    using assms(1) x(2) same_configD [OF only_executesD [OF o]] executes_log [OF x(1) w(1) x(2)]
    by (auto simp: foll_inv_def intro: order_trans)
  then show ?thesis
    using executes_sends [OF x(1)] only_executesD [OF o]
    by (simp add: foll_step_def holds_def only_executes_retrieve [OF o])
qed

lemma foll_step_try:
  assumes "foll_step E v l L i c c1" "try_to_execute E c1 = Some c'"
  shows "foll_step E v l L i c c'"
proof -
  have "foll_inv v l L i c1" using assms(1) by (simp add: foll_step_def)
  from foll_step_trans [OF assms(1) foll_try [OF this assms(2)]] show ?thesis .
qed

lemma foll_write:
  assumes "foll_inv v l L i c" "bdb_contract E"
    and "store E c k (enc_request_record r @ data) = (ret, c')"
    and "snd (retrieve E c k) = None \<or> holds E L k data \<and> length data = unat (rr_data_size r)"
  shows "foll_step E v l L i c c'"
proof -
  have c': "c' = c\<lparr>disk := disk c'\<rparr>" using assms(3) by (auto simp: store_def split: prod.splits)
  have sel: "highest_seen_vs c' = highest_seen_vs c" "highest_to_commit_vs c' = highest_to_commit_vs c"
    "highest_committed_vs c' = highest_committed_vs c" "effects c' = effects c"
    "my_role c' = my_role c" "cc_node_id c' = cc_node_id c"
    "deliver_mode c' = deliver_mode c" "ucb_set c' = ucb_set c"
    by (subst c', simp)+
  have r: "retrieve E c' k' = (if k' = k \<and> ret = 0 then (0, Some (enc_request_record r @ data))
      else retrieve E c k')" for k'
    by (rule retrieve_store [OF assms(2,3)]) simp
  have "holds E c' k' d" if "holds E L k' d" "holds E c k' d" for k' d
    using that r [of k'] assms(4) holds_unique [of E L k' d data]
    by (cases "k' = k \<and> ret = 0") (auto simp: holds_def)
  then show ?thesis
    using assms(1) sel store_frame [OF assms(3)]
    by (auto simp: foll_step_def foll_inv_def sends_ok_def within_def)
qed

lemma foll_send:
  assumes "foll_inv v l L i c" "call_uc m t c = Some c'" "msg_ok E v l L i c m"
  shows "foll_step E v l L i c c'"
proof -
  have c': "c' = c\<lparr>effects := effects c @ [Upcall m t]\<rparr>"
    using assms(2) by (auto simp: call_uc_def split: if_splits)
  have "msg_ok E v l L i c' m"
    by (rule msg_ok_mono [OF assms(3) lead_mono_refl]) (simp add: c' holds_def)
  then show ?thesis
    using assms(1) call_uc_frame [OF assms(2)]
    by (auto simp: foll_step_def foll_inv_def sends_ok_def new_calls_def within_def c' holds_def)
qed

lemma foll_send_option:
  assumes "foll_inv v l L i c" "(case m of None \<Rightarrow> Some c | Some msg \<Rightarrow> call_uc msg t c) = Some c'"
    and "\<And>msg. m = Some msg \<Longrightarrow> msg_ok E v l L i c msg"
  shows "foll_step E v l L i c c'"
  using assms foll_send foll_step_refl by (auto split: option.splits)

lemma foll_store_accept:
  assumes "foll_inv v l L i c" "bdb_contract E" "vstol (ar_msg_vs a) \<in> keys_to v (highest_seen_vs L)"
    and "holds E L (vstol (ar_msg_vs a)) data" "length data = unat (rr_data_size r)"
    and "handle_accept_req_store E a (enc_request_record r @ data @ rest) c = Some c'"
  shows "foll_step E v l L i c c'"
proof (cases "malloc_usable E (unat (REQ_RECORD_SIZE r))")
  case None
  with assms(1,6) show ?thesis by (simp add: handle_accept_req_store_def foll_step_refl)
next
  case (Some u)
  let ?k = "vstol (ar_msg_vs a)"
  define r' where "r' = r\<lparr>rr_created_time := now E, rr_bit_map := junk_bit_map E\<rparr>"
  obtain ret c1 where st: "store E c ?k (enc_request_record r' @ data) = (ret, c1)" by (meson surj_pair)
  have s1: "foll_step E v l L i c c1"
    using assms(4,5) by (intro foll_write [OF assms(1,2) st]) (simp add: r'_def)
  then have i1: "foll_inv v l L i c1" by (simp add: foll_step_def)
  show ?thesis
  proof (cases "ret = 0")
    case False
    with assms(5,6) Some st s1 show ?thesis
      by (auto simp: handle_accept_req_store_def Let_def r'_def [symmetric] alloc_fill_def split: if_splits)
  next
    case True
    with assms(5,6) Some st obtain m where m: "build_accept_ack E c1 (ar_msg_vs a) = Some m"
      "(case m of None \<Rightarrow> Some c1 | Some reply \<Rightarrow> call_uc reply (ucast (ar_node_id a)) c1) = Some c'"
      by (auto simp: handle_accept_req_store_def Let_def r'_def [symmetric] alloc_fill_def split: if_splits)
    have h: "holds E c1 ?k data"
      using retrieve_store [OF assms(2) st, of ?k] True assms(5) by (simp add: holds_def r'_def)
    have "ucast (cc_node_id c1) = (of_nat i :: u64)"
      using i1 by (auto simp: foll_inv_def word_unat_eq_iff unsigned_ucast_eq unat_of_nat_small take_bit_nat_eq_self)
    then have "foll_step E v l L i c1 c'"
      using m(1) by (intro foll_send_option [OF i1 m(2)])
        (auto simp: build_accept_ack_def dest!: alloc_fill_Some_SomeD
          intro!: msg_ok.ack [where data = data] assms(3,4) h)
    with s1 show ?thesis by (rule foll_step_trans)
  qed
qed

lemma foll_raise:
  assumes "foll_inv v l L i c" "c' = c\<lparr>highest_seen_vs := vs, highest_to_commit_vs := ws\<rparr>"
    and "vs_view_id vs = v" "vs_view_id ws = v" "highest_to_commit_vs c \<le> ws" "ws \<le> highest_to_commit_vs L"
  shows "foll_step E v l L i c c'"
  using assms by (auto simp: foll_step_def foll_inv_def within_def sends_ok_def new_calls_def holds_def)

lemma foll_accept:
  assumes "foll_inv v l L i c" "bdb_contract E" "vstol (ar_msg_vs a) \<in> keys_to v (highest_seen_vs L)"
    and "holds E L (vstol (ar_msg_vs a)) data" "length data = unat (rr_data_size r)"
    and "vs_view_id (ar_msg_vs a) = v" "vs_view_id (ar_req_canbe_exed a) = v"
    and "ar_req_canbe_exed a \<le> highest_to_commit_vs L"
    and "handle_accept_req E (enc_accept_req a @ enc_request_record r @ data @ rest) c = Some c'"
  shows "foll_step E v l L i c c'"
proof (cases "rejected c a")
  case True
  with assms(1,9) show ?thesis by (auto simp: handle_accept_req_alt intro: foll_try)
next
  case False
  with assms(9) obtain c2 where c2:
    "handle_accept_req_store E a (enc_request_record r @ data @ rest) (accept_update a c) = Some c2"
    "try_to_execute E c2 = Some c'"
    by (auto simp: handle_accept_req_alt)
  have "foll_step E v l L i c (accept_update a c)"
    using assms(1,6,7,8) unfolding accept_update_def
    by (intro foll_raise [OF assms(1) refl]) (auto simp: foll_inv_def within_def max_def)
  moreover then have "foll_inv v l L i (accept_update a c)" by (simp add: foll_step_def)
  from foll_store_accept [OF this assms(2-5) c2(1)]
  have "foll_step E v l L i (accept_update a c) c2" .
  ultimately show ?thesis using c2(2) foll_step_trans foll_step_try by metis
qed

lemma foll_missing_req:
  assumes "foll_inv v l L i c" "handle_missing_req E blk c = Some c'"
  shows "foll_step E v l L i c c'"
proof -
  from assms(2) obtain x where x: "dec_missing_req blk = Some x"
    unfolding handle_missing_req_def by auto
  then obtain m where m: "build_missing_ack E c (mr_missing_vs x) = Some m"
    using assms(2) unfolding handle_missing_req_def by auto
  show ?thesis
    using assms(2) x m by (intro foll_send_option [OF assms(1)])
      (auto simp: handle_missing_req_def intro!: msg_ok.benign dest: build_missing_ack_benign)
qed

lemma foll_missing_ack:
  assumes "foll_inv v l L i c" "bdb_contract E" "handle_missing_ack E blk c = Some c'"
  shows "foll_step E v l L i c c'"
  using assms(3)
proof (cases rule: handle_missing_ackE)
  case 1
  with assms(1) show ?thesis by (simp add: foll_step_refl)
next
  case (2 k r data ret c1)
  then have "foll_step E v l L i c c1"
    by (intro foll_write [OF assms(1,2) 2(2)]) simp
  then show ?thesis using 2(3) by (rule foll_step_try)
qed

lemma foll_force:
  assumes "foll_inv v l L i c" "vs_view_id (fe_highest_committed_op f) = v"
    and "fe_highest_committed_op f \<le> highest_to_commit_vs L"
    and "handle_force_exec E (enc_force_exec p f @ rest) c = Some c'"
  shows "foll_step E v l L i c c'"
proof (cases "fe_node_id f = v_leader_id (cur_view c) \<and> highest_to_commit_vs c < fe_highest_committed_op f")
  case False
  with assms(1,4) show ?thesis by (auto simp: handle_force_exec_def foll_step_refl split: if_splits)
next
  case True
  let ?c1 = "c\<lparr>highest_to_commit_vs := fe_highest_committed_op f\<rparr>"
  have "foll_step E v l L i c ?c1"
    using assms(1-3) True by (intro foll_raise [OF assms(1), where vs = "highest_seen_vs c"])
      (auto simp: foll_inv_def within_def)
  moreover have "try_to_execute E ?c1 = Some c'"
    using assms(4) True by (simp add: handle_force_exec_def)
  ultimately show ?thesis by (rule foll_step_try)
qed

lemma foll_receive:
  assumes "foll_inv v l L i c" "bdb_contract E" "consensus_handle_msg E (m @ rest) c = Some c'"
    and "msg_ok E v l L src s m"
  shows "foll_step E v l L i c c'"
proof -
  have S: "my_role c = SECONDARY" using assms(1) by (simp add: foll_inv_def)
  from assms(4) show ?thesis
  proof cases
    case benign
    then obtain w where "w \<in> {con_code_val MISSING_REQ, con_code_val MISSING_ACK, con_code_val FORWARD_REQ}"
      "ld 4 0 (m @ rest) = Some w"
      by (auto simp: benign_def dest: ld_front)
    with assms(1-3) S show ?thesis
      by (elim consensus_handle_msgE) (auto simp: handle_forward_req_def
          intro: foll_missing_req foll_missing_ack foll_step_refl)
  next
    case (accept a data r)
    from assms(3) show ?thesis unfolding accept(1)
    proof (cases rule: consensus_handle_msgE)
      case accept_req
      with accept assms(1,2) show ?thesis by (auto intro: foll_accept)
    qed (simp_all add: foll_step_refl assms(1))
  next
    case (ack a data p)
    from assms(3) show ?thesis unfolding ack(1)
    proof (cases rule: consensus_handle_msgE)
      case accept_ack
      with S assms(1) show ?thesis by (auto simp: handle_accept_ack_def intro: foll_try)
    qed (simp_all add: foll_step_refl assms(1))
  next
    case (force f p)
    from assms(3) show ?thesis unfolding force(1)
    proof (cases rule: consensus_handle_msgE)
      case force_exec
      with force assms(1) show ?thesis by (auto intro: foll_force)
    qed (simp_all add: foll_step_refl assms(1))
  qed
qed

lemma foll_submit:
  assumes "foll_inv v l L i c" "forward_submit_req E n data c = Some (ret, vs, c')"
  shows "foll_step E v l L i c c'"
proof -
  from assms(2) obtain m where m: "build_forward_req E c n data = Some m"
    "(case m of None \<Rightarrow> Some c | Some msg \<Rightarrow> call_uc msg (ucast (v_leader_id (cur_view c))) c) = Some c'"
    unfolding forward_submit_req_def by (auto split: option.splits)
  have "benign msg" if "m = Some msg" for msg
    using m(1) that by (auto simp: build_forward_req_def benign_def enc_forward_req_def layout
        split: if_splits dest!: alloc_fill_Some_SomeD)
  then show ?thesis
    by (intro foll_send_option [OF assms(1) m(2)] msg_ok.benign)
qed

end
