(* ===== verification/Group.thy ===== *)
theory Group
  imports GroupFollower
begin

text \<open>
  A group of nodes in one view, each running the consensus component on its own database, and the
  messages they have sent. A step delivers any message to a node it is addressed to (again, later
  or never), submits a request, or lets a node make progress; the environment of a step (time,
  allocator, contents of fresh memory, failures of the database) may be a different one each time,
  as long as its database can be read in the same way. The properties hold in every state that is
  reached from the beginning of the view.
\<close>

section \<open>The group\<close>

text \<open>\<open>net\<close> has the sender, the target (negative: all others) and the bytes of every message sent.\<close>

record 'd group =
  nodes :: "nat \<Rightarrow> 'd consensus_component"
  net :: "(nat \<times> i32 \<times> bytes) list"

definition post :: "nat \<Rightarrow> 'd consensus_component \<Rightarrow> 'd group \<Rightarrow> 'd group" where
  "post i c s = \<lparr>nodes = (nodes s)(i := c),
     net = net s @ map (\<lambda>(m, t). (i, t, m)) (new_calls (nodes s i) c)\<rparr>"

definition addressed :: "nat \<Rightarrow> nat \<Rightarrow> i32 \<Rightarrow> bool" where
  "addressed i src t \<longleftrightarrow> src \<noteq> i \<and> (t <s 0 \<or> sint t = int i)"

definition same_store :: "'d env \<Rightarrow> 'd env \<Rightarrow> bool" where
  "same_store E E' \<longleftrightarrow> bdb_contract E' \<and> bdb_get E' = bdb_get E"

definition room :: "'d consensus_component \<Rightarrow> bool" where
  "room c \<longleftrightarrow> vs_req_id (highest_seen_vs c) \<noteq> - 1"

text \<open>
  A block is smaller than 4 GB, and the request numbers of the view do not run out (\<open>room\<close>);
  a follower numbers no requests.
  \<open>rest\<close> is what follows the message in the block it is received in.
\<close>

inductive group_step :: "'d env \<Rightarrow> nat \<Rightarrow> 'd group \<Rightarrow> 'd group \<Rightarrow> bool" for E N where
  receive: "\<lbrakk>i < N; src < N; (src, t, m) \<in> set (net s); addressed i src t; same_store E E';
     length (m @ rest) < 4294967296; my_role (nodes s i) = LEADER \<longrightarrow> room (nodes s i);
     consensus_handle_msg E' (m @ rest) (nodes s i) = Some c\<rbrakk> \<Longrightarrow> group_step E N s (post i c s)"
| submit: "\<lbrakk>i < N; same_store E E'; unat n < 4294967296; room (nodes s i);
     consensus_submit_request E' n data (nodes s i) = Some (ret, vs, c)\<rbrakk> \<Longrightarrow>
     group_step E N s (post i c s)"
| progress: "\<lbrakk>i < N; same_store E E'; consensus_make_progress E' (nodes s i) = Some c\<rbrakk> \<Longrightarrow>
     group_step E N s (post i c s)"

text \<open>The view begins with \<open>consensus_update_role\<close> on every node, records being announced by their
  numbers (delivery mode 0), as the proxy does.\<close>

definition group_start :: "nat \<Rightarrow> nat \<Rightarrow> view_id_t \<Rightarrow> 'd group \<Rightarrow> bool" where
  "group_start N l v s \<longleftrightarrow> l < N \<and> N < 32 \<and> v \<noteq> - 1 \<and> net s = [] \<and>
     (\<forall>i < N. \<exists>c. nodes s i = consensus_update_role c \<and> cc_node_id c = of_nat i \<and>
        cc_group_size c = of_nat N \<and> v_view_id (cur_view c) = v \<and>
        v_leader_id (cur_view c) = of_nat l \<and> deliver_mode c \<noteq> 1 \<and> ucb_set c \<and> effects c = [])"

definition group_reach :: "'d env \<Rightarrow> nat \<Rightarrow> nat \<Rightarrow> view_id_t \<Rightarrow> 'd group \<Rightarrow> bool" where
  "group_reach E N l v s \<longleftrightarrow> (\<exists>s0. group_start N l v s0 \<and> (group_step E N)\<^sup>*\<^sup>* s0 s)"

definition group_inv :: "'d env \<Rightarrow> nat \<Rightarrow> nat \<Rightarrow> view_id_t \<Rightarrow> 'd group \<Rightarrow> bool" where
  "group_inv E N l v s \<longleftrightarrow> l < N \<and> N < 32 \<and> lead_inv E v N l (nodes s) (nodes s l) \<and>
     (\<forall>i < N. i \<noteq> l \<longrightarrow> foll_inv v l (nodes s l) i (nodes s i)) \<and>
     (\<forall>(src, t, m) \<in> set (net s). src < N \<and> msg_ok E v l (nodes s l) src (nodes s src) m)"

lemma same_store_retrieve: "same_store E E' \<Longrightarrow> retrieve E' c = retrieve E c"
  by (rule ext) (simp add: same_store_def retrieve_def retrieve_record_def split: option.split)

lemma same_store_holds: "same_store E E' \<Longrightarrow> holds E' = holds E"
  by (simp add: holds_def fun_eq_iff same_store_retrieve)

lemma same_store_backed: "same_store E E' \<Longrightarrow> backed E' = backed E"
  by (simp add: backed_def fun_eq_iff same_store_retrieve same_store_holds)

lemma same_store_lead_inv: "same_store E E' \<Longrightarrow> lead_inv E' = lead_inv E"
  by (simp add: lead_inv_def fun_eq_iff same_store_backed quorate_def same_store_retrieve)

lemma same_store_msg_ok: "same_store E E' \<Longrightarrow> msg_ok E' = msg_ok E"
proof -
  assume "same_store E E'"
  note h = same_store_holds [OF this]
  have "msg_ok E1 v l L src c m \<Longrightarrow>
      (\<And>(c :: ('a, 'b) comp) k d. holds E1 c k d \<Longrightarrow> holds E2 c k d) \<Longrightarrow> msg_ok E2 v l L src c m"
    for E1 E2 :: "'a env" and v l and L :: "('a, 'b) comp" and src c m
    by (induction rule: msg_ok.induct) (auto intro: msg_ok.intros)
  note 1 = this
  show ?thesis by (intro ext iffI) (erule 1, simp add: h)+
qed

lemma same_store_lead_step: "same_store E E' \<Longrightarrow> lead_step E' = lead_step E"
  by (simp add: lead_step_def fun_eq_iff same_store_lead_inv lead_mono_def same_store_holds
      sends_ok_def same_store_msg_ok)

lemma same_store_foll_step: "same_store E E' \<Longrightarrow> foll_step E' = foll_step E"
  by (simp add: foll_step_def fun_eq_iff same_store_holds sends_ok_def same_store_msg_ok)

lemmas same_store_eq = same_store_lead_inv same_store_msg_ok same_store_lead_step same_store_foll_step

lemma post_lead:
  assumes "group_inv E N l v s" "lead_step E v N l (nodes s) (nodes s l) c"
  shows "group_inv E N l v (post l c s)"
proof -
  have m: "lead_mono E v (nodes s l) c" "lead_inv E v N l (nodes s) c" "sends_ok E v l c l (nodes s l) c"
    using assms(2) by (simp_all add: lead_step_def)
  have "backed E N l ((nodes s)(l := c)) c k" if "backed E N l (nodes s) c k" for k
    using that by (auto simp: backed_def)
  then have "lead_inv E v N l ((nodes s)(l := c)) c"
    using m(2) by (simp add: lead_inv_def)
  moreover have "foll_inv v l c i (nodes s i)" if "foll_inv v l (nodes s l) i (nodes s i)" for i
    using that m(1) by (auto simp: foll_inv_def lead_mono_def intro: order_trans)
  moreover have "msg_ok E v l c src (((nodes s)(l := c)) src) x"
    if "msg_ok E v l (nodes s l) src (nodes s src) x" for src x
    using that m(1) by (intro msg_ok_mono [OF that m(1)]) (auto simp: lead_mono_def)
  ultimately show ?thesis
    using assms(1) m(3) by (fastforce simp: group_inv_def post_def sends_ok_def)
qed

lemma post_foll:
  assumes "group_inv E N l v s" "i < N" "i \<noteq> l" "foll_step E v l (nodes s l) i (nodes s i) c"
  shows "group_inv E N l v (post i c s)"
proof -
  let ?L = "nodes s l"
  have m: "foll_inv v l ?L i c" "sends_ok E v l ?L i (nodes s i) c"
    "\<And>k d. k \<in> keys_to v (highest_seen_vs ?L) \<Longrightarrow> holds E ?L k d \<Longrightarrow> holds E (nodes s i) k d \<Longrightarrow> holds E c k d"
    using assms(4) by (simp_all add: foll_step_def)
  have L: "lead_inv E v N l (nodes s) ?L" using assms(1) by (simp add: group_inv_def)
  have "backed E N l ((nodes s)(i := c)) ?L k"
    if "backed E N l (nodes s) ?L k" "k \<in> keys_to v (highest_seen_vs ?L)" for k
  proof -
    from that(1) obtain r data where r: "snd (retrieve E ?L k) = Some (enc_request_record r @ data)"
      "length data = unat (rr_data_size r)" "length data < 4294967296" "bit (rr_bit_map r) l"
      "\<forall>n. bit (rr_bit_map r) n \<longrightarrow> n < N \<and> (n \<noteq> l \<longrightarrow> holds E (nodes s n) k data)"
      by (auto simp: backed_def)
    then have "holds E ?L k data" by (auto simp: holds_def)
    with r m(3) that(2) show ?thesis by (auto simp: backed_def)
  qed
  then have "lead_inv E v N l ((nodes s)(i := c)) ?L"
    using L by (simp add: lead_inv_def)
  moreover have "msg_ok E v l ?L src (((nodes s)(i := c)) src) x"
    if "msg_ok E v l ?L src (nodes s src) x" for src x
    using m(3) by (intro msg_ok_mono [OF that lead_mono_refl]) auto
  ultimately show ?thesis
    using assms(1-3) m(1,2) by (fastforce simp: group_inv_def post_def sends_ok_def)
qed

lemma lead_role: "lead_inv E v N l others c \<Longrightarrow> my_role c = LEADER"
  by (simp add: lead_inv_def)

text \<open>Every step of the group is a step of one node.\<close>

lemma group_step_cases:
  assumes "group_step E N s s'" "group_inv E N l v s"
  obtains (lead) c where "s' = post l c s" "lead_step E v N l (nodes s) (nodes s l) c"
    | (foll) i c where "s' = post i c s" "i < N" "i \<noteq> l" "foll_step E v l (nodes s l) i (nodes s i) c"
  using assms(1)
proof cases
  case (receive i src t m E' rest c)
  note eq = same_store_eq [OF receive(6)]
  have E': "bdb_contract E'" using receive(6) by (simp add: same_store_def)
  have ok: "msg_ok E v l (nodes s l) src (nodes s src) m"
    using receive(4) assms(2) by (auto simp: group_inv_def)
  show ?thesis
  proof (cases "i = l")
    case True
    with assms(2) receive ok have "lead_step E' v N l (nodes s) (nodes s l) c"
      by (intro lead_receive [OF _ E', where m = m and rest = rest and src = src])
        (auto simp: eq group_inv_def addressed_def room_def lead_role)
    with True receive(1) show ?thesis by (simp add: eq lead)
  next
    case False
    with assms(2) receive ok have "foll_step E' v l (nodes s l) i (nodes s i) c"
      by (intro foll_receive [OF _ E', where m = m and rest = rest]) (auto simp: eq group_inv_def)
    with False receive(1,2) show ?thesis by (simp add: eq foll)
  qed
next
  case (submit i E' n data ret vs c)
  note eq = same_store_eq [OF submit(3)]
  have E': "bdb_contract E'" using submit(3) by (simp add: same_store_def)
  show ?thesis
  proof (cases "i = l")
    case True
    with assms(2) submit have "lead_step E' v N l (nodes s) (nodes s l) c"
      by (intro lead_submit [OF _ E'])
        (auto simp: eq group_inv_def room_def consensus_submit_request_def lead_inv_def)
    with True submit(1) show ?thesis by (simp add: eq lead)
  next
    case False
    with assms(2) submit have "foll_step E' v l (nodes s l) i (nodes s i) c"
      by (intro foll_submit) (auto simp: group_inv_def consensus_submit_request_def foll_inv_def)
    with False submit(1,2) show ?thesis by (simp add: eq foll)
  qed
next
  case (progress i E' c)
  note eq = same_store_eq [OF progress(3)]
  show ?thesis
  proof (cases "i = l")
    case True
    with assms(2) progress have "lead_step E' v N l (nodes s) (nodes s l) c"
      by (intro lead_progress) (auto simp: eq group_inv_def)
    with True progress(1) show ?thesis by (simp add: eq lead)
  next
    case False
    with assms(2) progress have "foll_step E' v l (nodes s l) i (nodes s i) c"
      by (auto simp: group_inv_def consensus_make_progress_def foll_inv_def intro!: foll_step_refl)
    with False progress(1,2) show ?thesis by (simp add: eq foll)
  qed
qed

lemma group_step_inv:
  assumes "group_step E N s s'" "group_inv E N l v s"
  shows "group_inv E N l v s'"
  by (cases rule: group_step_cases [OF assms])
    (auto intro: post_lead [OF assms(2)] post_foll [OF assms(2)])

lemma group_start_inv:
  assumes "group_start N l v s"
  shows "group_inv E N l v s"
proof -
  have g: "l < N" "N < 32" "v \<noteq> - 1" "net s = []"
    using assms by (simp_all add: group_start_def)
  have id: "ucast (of_nat i :: u32) = (of_nat i :: u64)" if "i < N" for i
    using that g(2) by (simp add: word_unat_eq_iff unsigned_ucast_eq unat_of_nat_small take_bit_nat_eq_self)
  have eq: "(of_nat l :: u64) = of_nat i \<longleftrightarrow> i = l" if "i < N" for i
    using that g(1,2) by (auto simp: word_unat_eq_iff unat_of_nat_small)
  have n: "within v (nodes s i) \<and> my_role (nodes s i) = (if i = l then LEADER else SECONDARY) \<and>
      cc_node_id (nodes s i) = of_nat i \<and> cc_group_size (nodes s i) = of_nat N \<and>
      highest_seen_vs (nodes s i) = VS v 0 \<and> highest_to_commit_vs (nodes s i) = VS v 0 \<and>
      highest_committed_vs (nodes s i) = VS v 0 \<and> effects (nodes s i) = []" if "i < N" for i
  proof -
    from assms that obtain c where c: "nodes s i = consensus_update_role c" "cc_node_id c = of_nat i"
      "cc_group_size c = of_nat N" "v_view_id (cur_view c) = v" "v_leader_id (cur_view c) = of_nat l"
      "deliver_mode c \<noteq> 1" "ucb_set c" "effects c = []"
      by (auto simp: group_start_def)
    then show ?thesis
      using g(3) eq [OF that] id [OF that] by (auto simp: consensus_update_role_def within_def Let_def)
  qed
  have "vstol (VS v 0) \<noteq> - 1" using g(3) by (intro key_bound) simp_all
  with n g show ?thesis
    by (auto simp: group_inv_def lead_inv_def foll_inv_def keys_to_def level_def)
qed

lemma group_reach_inv: "group_reach E N l v s \<Longrightarrow> group_inv E N l v s"
proof -
  assume "group_reach E N l v s"
  then obtain s0 where "group_start N l v s0" and r: "(group_step E N)\<^sup>*\<^sup>* s0 s"
    by (auto simp: group_reach_def)
  then have "group_inv E N l v s0" by (simp add: group_start_inv)
  with r show ?thesis by (induction rule: rtranclp_induct) (auto intro: group_step_inv)
qed

section \<open>What holds in every reachable state\<close>

lemma group_reachD:
  assumes "group_reach E N l v s" "i < N"
  shows "within v (nodes s i)" "highest_to_commit_vs (nodes s i) \<le> highest_to_commit_vs (nodes s l)"
    "user_cbs (effects (nodes s i)) =
      map announce (keys_after (VS v 0) (highest_committed_vs (nodes s i)))"
    "lead_inv E v N l (nodes s) (nodes s l)"
  using group_reach_inv [OF assms(1)] assms(2)
  by (cases "i = l"; auto simp: group_inv_def lead_inv_def foll_inv_def)+

lemma executed_key:
  assumes "group_reach E N l v s" "i < N" "announce k \<in> set (user_cbs (effects (nodes s i)))"
  shows "k \<in> keys_to v (highest_to_commit_vs (nodes s l))"
proof -
  have w: "within v (nodes s i)" by (rule group_reachD [OF assms(1,2)])
  then have "vstol (VS v 0) \<noteq> - 1" by (intro key_bound) (simp_all add: within_def)
  with assms(3) have "k \<in> keys_to v (highest_committed_vs (nodes s i))"
    unfolding group_reachD(3) [OF assms(1,2)] by (auto simp: set_keys_after keys_to_def)
  moreover have "highest_committed_vs (nodes s i) \<le> highest_to_commit_vs (nodes s l)"
    using w group_reachD(2) [OF assms(1,2)] by (auto simp: within_def)
  ultimately show ?thesis by (rule keys_to_mono)
qed

lemma quorate_majority:
  assumes "lead_inv E v N l others c" "others l = c" "k \<in> keys_to v (highest_to_commit_vs c)"
  shows "\<exists>data. holds E c k data \<and> N < 2 * card {n. n < N \<and> holds E (others n) k data}"
proof -
  have L: "N < 32" "cc_group_size c = of_nat N" "l < N" "quorate E c k"
    using assms(1,3) by (simp_all add: lead_inv_def)
  have "k \<in> keys_to v (highest_seen_vs c)"
    using assms(1,3) by (auto simp: lead_inv_def intro: keys_to_mono)
  then obtain r data where r: "snd (retrieve E c k) = Some (enc_request_record r @ data)"
    "length data = unat (rr_data_size r)"
    "\<forall>n. bit (rr_bit_map r) n \<longrightarrow> n < N \<and> (n \<noteq> l \<longrightarrow> holds E (others n) k data)"
    using assms(1) by (auto simp: lead_inv_def backed_def)
  then have h: "holds E c k data" by (auto simp: holds_def)
  have N: "unat (of_nat N :: u32) = N" using L(1) by (simp add: unat_of_nat_small)
  have "reached_quorum r (of_nat N)" using L(2,4) r(1) by (simp add: quorate_def)
  then have "N < 2 * card (bits (rr_bit_map r))"
    using L(1) reached_quorum_majority [of "of_nat N" r] unfolding N by simp
  moreover have "bits (rr_bit_map r) \<subseteq> {n. n < N \<and> holds E (others n) k data}"
    using r(3) h assms(2) by (auto simp: bits_def)
  then have "card (bits (rr_bit_map r)) \<le> card {n. n < N \<and> holds E (others n) k data}"
    by (rule card_mono [rotated]) simp
  ultimately show ?thesis using h by (intro exI [of _ data]) linarith
qed

text \<open>C5 whatever the order, loss and duplication of messages within a view, a request that any
  node has handed to its user is stored, with the leader's data, by a majority of the group.\<close>

theorem executed_is_replicated:
  assumes "group_reach E N l v s" "i < N" "announce k \<in> set (user_cbs (effects (nodes s i)))"
  shows "\<exists>data. holds E (nodes s l) k data \<and> N < 2 * card {n. n < N \<and> holds E (nodes s n) k data}"
  using group_reachD(4) [OF assms(1,2)] refl executed_key [OF assms] by (rule quorate_majority)

interpretation majority: quorum_certificates "{..<N}" "\<lambda>S. S \<subseteq> {..<N} \<and> N < 2 * card S"
    "\<lambda>S :: nat set. S" for N :: nat
  by unfold_locales simp_all

text \<open>C6 a request that any node has executed survives in every majority of the group: whatever
  nodes more than half of the group are, one of them has the request with the leader's data.\<close>

theorem executed_survives:
  assumes "group_reach E N l v s" "i < N" "announce k \<in> set (user_cbs (effects (nodes s i)))"
    and "S \<subseteq> {..<N}" "N < 2 * card S"
  shows "\<exists>data. holds E (nodes s l) k data \<and> (\<exists>n \<in> S. holds E (nodes s n) k data)"
proof -
  obtain data where d: "holds E (nodes s l) k data"
    "N < 2 * card {n. n < N \<and> holds E (nodes s n) k data}"
    using quorate_majority [OF group_reachD(4) [OF assms(1,2)] refl executed_key [OF assms(1-3)]] by auto
  have "S \<inter> {n. n < N \<and> holds E (nodes s n) k data} \<noteq> {}"
    using d(2) assms(4,5) by (intro majority.backers_intersect [where N = N]) auto
  with d(1) show ?thesis by auto
qed

text \<open>C9 every node hands the requests of the view to its user in the order of their numbers, from
  the first one on without a gap and each of them once, up to the last one it has committed.\<close>

theorem executes_in_order:
  assumes "group_reach E N l v s" "i < N"
  shows "user_cbs (effects (nodes s i)) =
      map announce (keys_after (VS v 0) (highest_committed_vs (nodes s i))) \<and>
    distinct (user_cbs (effects (nodes s i)))"
  using group_reachD(3) [OF assms] by (simp add: distinct_map distinct_key_range inj_on_def)

lemma executions_prefix:
  assumes "group_reach E N l v s" "i < N" "j < N"
  shows "prefix (user_cbs (effects (nodes s i))) (user_cbs (effects (nodes s j))) \<or>
    prefix (user_cbs (effects (nodes s j))) (user_cbs (effects (nodes s i)))"
proof -
  have p: "prefix (user_cbs (effects (nodes s i))) (user_cbs (effects (nodes s j)))"
    if "i < N" "j < N" "highest_committed_vs (nodes s i) \<le> highest_committed_vs (nodes s j)" for i j
  proof -
    have w: "within v (nodes s i)" "within v (nodes s j)"
      using that group_reachD(1) [OF assms(1)] by auto
    then have "vstol (highest_committed_vs (nodes s j)) \<noteq> - 1"
      by (intro key_bound) (auto simp: within_def)
    with that(3) w have "prefix (keys_after (VS v 0) (highest_committed_vs (nodes s i)))
        (keys_after (VS v 0) (highest_committed_vs (nodes s j)))"
      by (intro prefix_keys_after) (auto simp: within_def)
    then show ?thesis
      unfolding group_reachD(3) [OF assms(1) that(1)] group_reachD(3) [OF assms(1) that(2)]
      by (rule map_mono_prefix)
  qed
  then show ?thesis using assms(2,3) linear by metis
qed

text \<open>C10 the leader is ahead: no node commits a request that the leader has not committed, and the
  leader none that it has not numbered.\<close>

theorem leader_is_ahead:
  assumes "group_reach E N l v s" "i < N"
  shows "highest_committed_vs (nodes s i) \<le> highest_to_commit_vs (nodes s i) \<and>
    highest_to_commit_vs (nodes s i) \<le> highest_to_commit_vs (nodes s l) \<and>
    highest_to_commit_vs (nodes s l) \<le> highest_seen_vs (nodes s l)"
  using group_reachD [OF assms] by (auto simp: within_def lead_inv_def)


section \<open>A run of three nodes\<close>

text \<open>Node 0 submits a request, node 1 stores it and acknowledges, node 0 executes it.\<close>

definition run_node :: "u32 \<Rightarrow> mem_db consensus_component" where
  "run_node i = consensus_update_role ((demo_comp i [])\<lparr>deliver_mode := 0\<rparr>)"

definition run_group :: "mem_db group" where
  "run_group = \<lparr>nodes = (\<lambda>i. run_node (of_nat i)), net = []\<rparr>"

definition run_request :: bytes where
  "run_request = enc_accept_req \<lparr>ar_msg_vs = VS 1 1, ar_req_canbe_exed = VS 1 0, ar_node_id = 0,
     ar_data_size = 34\<rparr> @ enc_request_record \<lparr>rr_created_time = now mem_env, rr_is_closed = 0,
     rr_bit_map = 1, rr_data_size = 1\<rparr> @ [7]"

definition run_ack :: bytes where
  "run_ack = enc_accept_ack (junk32 mem_env 12) \<lparr>aa_msg_vs = VS 1 1, aa_node_id = 1\<rparr>"

definition run_leader :: "mem_db consensus_component" where
  "run_leader = snd (snd (the (consensus_submit_request mem_env 1 [7] (run_node 0))))"

definition run_follower :: "mem_db consensus_component" where
  "run_follower = the (consensus_handle_msg mem_env run_request (run_node 1))"

definition run_leader_end :: "mem_db consensus_component" where
  "run_leader_end = the (consensus_handle_msg mem_env run_ack run_leader)"

definition run_end :: "mem_db group" where
  "run_end = post 0 run_leader_end (post 1 run_follower (post 0 run_leader run_group))"

lemma run_evaluated_submit:
  "map_option (fst \<circ> snd) (consensus_submit_request mem_env 1 [7] (run_node 0)) = Some (Some (VS 1 1))"
  "new_calls (run_node 0) run_leader = [(run_request, - 1)]"
  by code_simp+

lemma run_evaluated_accept:
  "map_option (\<lambda>_. ()) (consensus_handle_msg mem_env run_request (run_node 1)) = Some ()"
  by code_simp

lemma run_evaluated_ack:
  "map_option (\<lambda>_. ()) (consensus_handle_msg mem_env run_ack run_leader) = Some ()"
  by code_simp

lemma run_evaluated_accept_sends: "new_calls (run_node 1) run_follower = [(run_ack, 0)]"
  by code_simp

lemma run_evaluated_executes: "user_cbs (effects run_leader_end) = [announce 0x100000001]"
  by code_simp

lemma run_evaluated_sizes:
  "highest_seen_vs run_leader = VS 1 1" "length run_request = 70" "length run_ack = 24"
  by code_simp+

lemmas run_evaluated = run_evaluated_submit(1) run_evaluated_accept run_evaluated_ack
  run_evaluated_submit(2) run_evaluated_accept_sends run_evaluated_executes run_evaluated_sizes

lemma run_calls:
  "consensus_submit_request mem_env 1 [7] (nodes run_group 0) =
    Some (fst (the (consensus_submit_request mem_env 1 [7] (run_node 0))), Some (VS 1 1), run_leader)"
  "consensus_handle_msg mem_env (run_request @ []) (nodes (post 0 run_leader run_group) 1) = Some run_follower"
  "consensus_handle_msg mem_env (run_ack @ [])
    (nodes (post 1 run_follower (post 0 run_leader run_group)) 0) = Some run_leader_end"
  using run_evaluated(1-3)
  by (auto simp: run_leader_def run_follower_def run_leader_end_def post_def run_group_def)

lemma run_states:
  "(0, - 1, run_request) \<in> set (net (post 0 run_leader run_group))"
  "(1, 0, run_ack) \<in> set (net (post 1 run_follower (post 0 run_leader run_group)))"
  "room (nodes run_group 0)" "my_role (nodes (post 0 run_leader run_group) 1) = SECONDARY"
  "room (nodes (post 1 run_follower (post 0 run_leader run_group)) 0)"
  "same_store mem_env mem_env" "length (run_request @ []) < 4294967296" "length (run_ack @ []) < 4294967296"
  using run_evaluated(4,5)
  by (simp_all add: post_def run_group_def room_def run_evaluated run_node_def consensus_update_role_def
      demo_comp_def Let_def same_store_def mem_env_bdb)

lemma run_steps:
  "group_start 3 0 1 run_group" "group_step mem_env 3 run_group (post 0 run_leader run_group)"
  "group_step mem_env 3 (post 0 run_leader run_group) (post 1 run_follower (post 0 run_leader run_group))"
  "group_step mem_env 3 (post 1 run_follower (post 0 run_leader run_group)) run_end"
proof -
  have "i < 3 \<Longrightarrow> \<exists>c. run_node (of_nat i) = consensus_update_role c \<and> cc_node_id c = of_nat i \<and>
      cc_group_size c = of_nat 3 \<and> v_view_id (cur_view c) = 1 \<and>
      v_leader_id (cur_view c) = of_nat 0 \<and> deliver_mode c \<noteq> 1 \<and> ucb_set c \<and> effects c = []" for i
    unfolding run_node_def
    by (intro exI [of _ "(demo_comp (of_nat i) [])\<lparr>deliver_mode := 0\<rparr>"]) (simp add: demo_comp_def)
  then show "group_start 3 0 1 run_group" by (simp add: group_start_def run_group_def)
  show "group_step mem_env 3 run_group (post 0 run_leader run_group)"
    by (rule group_step.submit [OF _ run_states(6) _ run_states(3) run_calls(1)]) simp_all
  show "group_step mem_env 3 (post 0 run_leader run_group) (post 1 run_follower (post 0 run_leader run_group))"
    by (rule group_step.receive [OF _ _ run_states(1) _ run_states(6,7) _ run_calls(2)])
      (simp_all add: addressed_def run_states(4) del: append_Nil2 One_nat_def)
  show "group_step mem_env 3 (post 1 run_follower (post 0 run_leader run_group)) run_end"
    unfolding run_end_def
    by (rule group_step.receive [OF _ _ run_states(2) _ run_states(6,8) _ run_calls(3)])
      (simp_all add: addressed_def run_states(5) del: append_Nil2 One_nat_def)
qed

lemma run_reached: "group_reach mem_env 3 0 1 run_end"
  using run_steps unfolding group_reach_def
  by (meson converse_rtranclp_into_rtranclp rtranclp.rtrancl_refl)

lemma run_executed: "user_cbs (effects (nodes run_end 0)) = [announce 0x100000001]"
  "effects (nodes run_end 1) = effects run_follower"
  by (simp_all add: run_end_def post_def run_evaluated)

theorem executed_is_replicated_witness:
  "\<exists>data. holds mem_env (nodes run_end 0) 0x100000001 data \<and>
     3 < 2 * card {n. n < 3 \<and> holds mem_env (nodes run_end n) 0x100000001 data}"
  using executed_is_replicated [OF run_reached, of 0 "0x100000001"] run_executed(1) by simp

theorem executed_survives_witness:
  "\<exists>data. holds mem_env (nodes run_end 0) 0x100000001 data \<and>
     (\<exists>n \<in> {1, 2}. holds mem_env (nodes run_end n) 0x100000001 data)"
  using executed_survives [OF run_reached, of 0 "0x100000001" "{1, 2}"] run_executed(1) by simp

theorem executes_in_order_witness:
  "keys_after (VS 1 0) (highest_committed_vs (nodes run_end 0)) = [0x100000001]"
proof -
  have "map announce (keys_after (VS 1 0) (highest_committed_vs (nodes run_end 0))) =
      map announce [0x100000001]"
    using executes_in_order [OF run_reached, of 0] run_executed(1) by simp
  then show ?thesis by (rule map_injective) (simp add: inj_on_def)
qed

theorem leader_is_ahead_witness:
  "highest_to_commit_vs (nodes run_end 1) \<le> highest_to_commit_vs (nodes run_end 0) \<and>
   highest_to_commit_vs (nodes run_end 0) \<le> highest_seen_vs (nodes run_end 0)"
  using leader_is_ahead [OF run_reached, of 1] by simp

end
