(* ===== verification/GroupReturns.thy ===== *)
theory GroupReturns
  imports Group
begin

text \<open>
  When nothing fails, the operations of the consensus component return and do what the normal case
  takes: the leader sends every request that has no quorum, a follower stores what it is sent and
  acknowledges it, the leader counts the acknowledgement and executes what has a quorum. Nothing
  fails if the environment is \<open>generous\<close> and the node \<open>equipped\<close>. The steps are put together in
  theory \<open>GroupLiveness\<close>.
\<close>

section \<open>Environments in which nothing fails\<close>

text \<open>Every allocation and every write to the database succeeds, and a block of two bytes has room for
  24, as with the allocator of glibc.\<close>

definition generous :: "'d env \<Rightarrow> bool" where
  "generous E \<longleftrightarrow> bdb_contract E \<and> malloc_contract E \<and>
     (\<forall>n. \<exists>k. malloc_usable E n = Some k \<and> n \<le> k \<and> missing_req_len \<le> k) \<and>
     (\<forall>d b k v. fst (bdb_put E d b k v) = 0)"

definition equipped :: "view_id_t \<Rightarrow> nat \<Rightarrow> ('d, 'z) comp \<Rightarrow> bool" where
  "equipped v l c \<longleftrightarrow> uc_set c \<and> (\<exists>h b. cc_db_ptr c = Some h \<and> bdb_ptr h = Some b) \<and>
     v \<noteq> 0 \<and> v_view_id (cur_view c) = v \<and> v_leader_id (cur_view c) = of_nat l"

lemma equipped_same: "same_config c c' \<Longrightarrow> equipped v l c \<Longrightarrow> equipped v l c'"
  by (simp add: equipped_def same_configD)

lemma generous_alloc: "generous E \<Longrightarrow> length content \<le> n \<Longrightarrow> alloc_fill E n content = Some (Some content)"
  unfolding generous_def by (metis alloc_fill_fits option.distinct(1))

lemma generous_malloc: "generous E \<Longrightarrow> malloc_usable E n \<noteq> None"
  unfolding generous_def by (metis option.distinct(1))

lemma generous_store:
  assumes "generous E" "equipped v l c"
  shows "fst (store E c k b) = 0"
  using assms by (auto simp: store_def store_record_def equipped_def generous_def split_beta)

lemma generous_reports:
  assumes "generous E" "equipped v l c"
  shows "can_report E c"
proof -
  obtain k where "malloc_usable E 2 = Some k" "missing_req_len \<le> k"
    using assms(1) unfolding generous_def by blast
  with assms(2) show ?thesis by (simp add: can_report_def equipped_def)
qed

section \<open>Execution returns\<close>

lemma within_bound:
  assumes "within v c"
  shows "vstol (highest_seen_vs c) \<noteq> - 1" "vstol (highest_to_commit_vs c) \<noteq> - 1"
    "vstol (highest_committed_vs c) \<noteq> - 1"
  using assms key_bound [of v "highest_seen_vs c"] key_bound [of v "highest_to_commit_vs c"]
    key_bound [of v "highest_committed_vs c"] by (simp_all add: within_def)

lemma execute_effects_return:
  assumes "can_report E c" "deliver_mode c \<noteq> 1"
  shows "\<exists>es. execute_effects E c f ks = Some es"
proof (induction ks arbitrary: f)
  case (Cons k ks)
  obtain es where "missing_notice E c (ltovs k) = Some es" using missing_notice_reports [OF assms(1)] by blast
  with Cons assms(2) show ?case by (auto simp: delivery_def)
qed simp

lemma execute_loop_return:
  assumes "can_report E c" "deliver_mode c \<noteq> 1" "e \<noteq> - 1"
  shows "\<exists>c'. execute_loop E e f i c = Some c'"
  using execute_effects_return [OF assms(1,2)] by (simp add: execute_loop_eq [OF assms(3)])

lemma follower_try_returns:
  assumes "foll_inv v l L i c" "generous E" "equipped v l c"
  shows "\<exists>c'. try_to_execute E c = Some c'"
proof -
  have w: "within v c" "my_role c = SECONDARY" using assms(1) by (simp_all add: foll_inv_def)
  with within_bound(2) [OF w(1)] execute_loop_return [OF generous_reports [OF assms(2,3)]] show ?thesis
    by (auto simp: try_to_execute_def within_def)
qed

lemma takeWhile_all: "\<forall>x \<in> set xs. P x \<Longrightarrow> takeWhile P xs = xs"
  by (simp add: takeWhile_eq_all_conv)

lemma inc_to:
  assumes "vs_view_id vs = vs_view_id ws" "vs \<le> ws" "vstol vs \<noteq> - 1"
  shows "(view_stamp_inc ^^ length (keys_after vs ws)) vs = ws"
proof -
  have "vstol ((view_stamp_inc ^^ length (keys_after vs ws)) vs) = vstol vs + of_nat (length (keys_after vs ws))"
    using keys_within_view(3) [OF assms(1) _ assms(2,3)] by blast
  also have "\<dots> = vstol ws"
    using assms(2) by (simp add: length_keys_after [OF assms(3)] word_unat_eq_iff unat_word_ariths
        vstol_le_iff [symmetric] word_le_nat_alt del: vstol_le_iff)
  finally show ?thesis by simp
qed

text \<open>The leader's execution returns, and executes what it counts as committed; if every outstanding
  request has a quorum, it executes them all.\<close>

lemma execute_loop_none: "e < i \<Longrightarrow> execute_loop E e f i c = Some c"
  by (subst execute_loop.simps) (auto dest: leD)

lemma lead_returns:
  assumes "lead_inv E v N l others c"
  shows "\<exists>c'. leader_try_to_execute E c = Some c' \<and> executes E c c' \<and>
    ((\<forall>k. vstol (highest_to_commit_vs c) < k \<and> k \<le> vstol (highest_seen_vs c) \<longrightarrow> quorate E c k) \<longrightarrow>
      highest_to_commit_vs c' = highest_seen_vs c)"
proof -
  have w: "within v c" "my_role c = LEADER" "highest_to_commit_vs c \<le> highest_seen_vs c"
    using assms by (simp_all add: lead_inv_def)
  let ?s = "highest_seen_vs c" and ?t = "highest_to_commit_vs c"
  have max: "vstol ?s \<noteq> - 1" "vstol ?t \<noteq> - 1"
    using within_bound [OF w(1)] by simp_all
  have ws: "vs_view_id ?s = v" "vs_view_id ?t = v" using w(1) by (simp_all add: within_def)
  have rd: "\<forall>k. vstol ?t < k \<and> k \<le> vstol ?s \<longrightarrow> readable E c k"
    using lead_readable [OF assms] by blast
  from leader_try_within [OF w(1,3,2) rd] obtain c' where c': "leader_try_to_execute E c = Some c'"
    "executes E c c'" by blast
  have "highest_to_commit_vs c' = ?s"
    if q: "\<forall>k. vstol ?t < k \<and> k \<le> vstol ?s \<longrightarrow> quorate E c k"
  proof -
    have "takeWhile (quorate E c) (keys_after ?t ?s) = keys_after ?t ?s"
      using q max by (intro takeWhile_all) (simp add: set_keys_after)
    with leader_try_to_execute_eq [OF _ max(1) rd w(3)] c'(1) ws
    have "highest_to_commit_vs c' = (view_stamp_inc ^^ length (keys_after ?t ?s)) ?t"
      by (auto simp: Let_def)
    also have "\<dots> = ?s" using ws w(3) max by (intro inc_to) auto
    finally show ?thesis .
  qed
  with c' show ?thesis by blast
qed

lemma lead_try_is:
  assumes "lead_inv E v N l others c" "equipped v l c"
  shows "try_to_execute E c = leader_try_to_execute E c"
proof -
  obtain c1 where c1: "leader_try_to_execute E c = Some c1" using lead_returns [OF assms(1)] by blast
  have "lead_inv E v N l others c1"
    using lead_leader_try [OF assms(1) c1] by (simp add: lead_step_def)
  then have h: "within v c1" "highest_committed_vs c1 = highest_to_commit_vs c1"
    by (simp_all add: lead_inv_def level_def)
  then have "vstol (highest_to_commit_vs c1) < vstol (highest_committed_vs c1) + 1"
    using within_bound(2) [OF h(1)] by (simp add: word_less_plus_1)
  then have "execute_loop E (vstol (highest_to_commit_vs c1)) True (vstol (highest_committed_vs c1) + 1) c1 = Some c1"
    by (rule execute_loop_none)
  with c1 h assms show ?thesis
    by (simp add: try_to_execute_def equipped_def lead_role)
qed

section \<open>The leader sends what has no quorum\<close>

text \<open>The header of the accept request for a record.\<close>

definition accept_of :: "('d, 'z) comp \<Rightarrow> u64 \<Rightarrow> request_record \<Rightarrow> accept_req" where
  "accept_of c k r = \<lparr>ar_msg_vs = ltovs k, ar_req_canbe_exed = highest_to_commit_vs c,
     ar_node_id = ucast (cc_node_id c), ar_data_size = REQ_RECORD_SIZE r\<rparr>"

text \<open>Data for which the accept request is smaller than 4 GB.\<close>

definition fits :: "bytes \<Rightarrow> bool" where
  "fits data \<longleftrightarrow> length data + 69 < 4294967296"

lemma unat_record_size:
  assumes "length data = unat (rr_data_size r)" "fits data"
  shows "unat (REQ_RECORD_SIZE r) = 33 + length data" "unat (36 + REQ_RECORD_SIZE r) = 69 + length data"
  using assms by (simp_all add: REQ_RECORD_SIZE_def unat_word_ariths fits_def)

lemma build_accept_returns:
  assumes "generous E" "length data = unat (rr_data_size r)" "fits data"
  shows "build_accept_req E c (REQ_RECORD_SIZE r) (enc_request_record r @ data) (ltovs k) =
    Some (Some (enc_accept_req (accept_of c k r) @ enc_request_record r @ data))"
  using unat_record_size [OF assms(2,3)] generous_malloc [OF assms(1)] assms
  by (simp add: build_accept_req_def ld_bytes_def accept_of_def generous_alloc)

text \<open>What one iteration of \<open>make_progress_loop\<close> sends.\<close>

definition resend :: "'d env \<Rightarrow> ('d, 'z) comp \<Rightarrow> u64 \<Rightarrow> effect list \<Rightarrow> bool" where
  "resend E c k es \<longleftrightarrow> (\<exists>r data. snd (retrieve E c k) = Some (enc_request_record r @ data) \<and>
     length data = unat (rr_data_size r) \<and>
     es = (if quorate E c k then []
           else [Upcall (enc_accept_req (accept_of c k r) @ enc_request_record r @ data) (- 1)]))"

lemma accept_of_upd [simp]: "accept_of (c\<lparr>effects := es\<rparr>) = accept_of c"
  by (simp add: accept_of_def fun_eq_iff)

lemma resend_upd [simp]: "resend E (c\<lparr>effects := es\<rparr>) = resend E c"
  by (simp add: resend_def fun_eq_iff)

lemma holds_effects [simp]: "holds E (c\<lparr>effects := es\<rparr>) = holds E c"
  by (simp add: holds_def fun_eq_iff)

lemma backed_effects [simp]: "backed E N l others (c\<lparr>effects := es\<rparr>) = backed E N l others c"
  by (simp add: backed_def fun_eq_iff)

lemma progress_body_resends:
  assumes "generous E" "uc_set c" "backed E N l others c k" "\<And>d. holds E c k d \<Longrightarrow> fits d"
  shows "\<exists>es. progress_body E k c = Some (Inr (c\<lparr>effects := effects c @ es\<rparr>)) \<and> resend E c k es"
proof -
  from assms(3) obtain r data where r: "snd (retrieve E c k) = Some (enc_request_record r @ data)"
    "length data = unat (rr_data_size r)" by (auto simp: backed_def)
  then have "fits data" using assms(4) [of data] by (auto simp: holds_def)
  note b = build_accept_returns [OF assms(1) r(2) this, of c k]
  have q: "quorate E c k = reached_quorum r (cc_group_size c)" using r(1) by (simp add: quorate_def)
  show ?thesis
    using r b assms(2)
    by (intro exI [of _ "if quorate E c k then []
        else [Upcall (enc_accept_req (accept_of c k r) @ enc_request_record r @ data) (- 1)]"])
      (auto simp: progress_body_def q resend_def call_uc_def)
qed

lemma progress_run:
  assumes "generous E" "uc_set c" "\<forall>k \<in> set ks. backed E N l others c k \<and> (\<forall>d. holds E c k d \<longrightarrow> fits d)"
  shows "\<exists>ess. run_keys (progress_body E) (\<lambda>c. c) ks c =
    Some (c\<lparr>effects := effects c @ concat ess\<rparr>) \<and> list_all2 (resend E c) ks ess"
  using assms(2,3)
proof (induction ks arbitrary: c)
  case Nil
  show ?case by (intro exI [of _ "[]"]) simp
next
  case (Cons k ks)
  have k: "backed E N l others c k" "\<And>d. holds E c k d \<Longrightarrow> fits d" using Cons.prems(2) by simp_all
  obtain es where es: "progress_body E k c = Some (Inr (c\<lparr>effects := effects c @ es\<rparr>))" "resend E c k es"
    using progress_body_resends [OF assms(1) Cons.prems(1) k] by blast
  let ?c = "c\<lparr>effects := effects c @ es\<rparr>"
  have "\<forall>k \<in> set ks. backed E N l others ?c k \<and> (\<forall>d. holds E ?c k d \<longrightarrow> fits d)" "uc_set ?c"
    using Cons.prems by simp_all
  from Cons.IH [OF this(2,1)] obtain ess where
    "run_keys (progress_body E) (\<lambda>c. c) ks ?c = Some (?c\<lparr>effects := effects ?c @ concat ess\<rparr>)"
    "list_all2 (resend E ?c) ks ess" by blast
  with es show ?case by (intro exI [of _ "es # ess"]) simp
qed

lemma force_returns:
  assumes "generous E" "uc_set c"
  shows "\<exists>m. build_force_exec E c = Some (Some m)"
  using assms by (simp add: build_force_exec_def generous_alloc length_enc)

lemma outstanding_keys:
  assumes "within v c" "k \<in> set (keys_after (highest_committed_vs c) (highest_seen_vs c))"
  shows "k \<in> keys_to v (highest_seen_vs c)"
proof -
  have "vstol (VS v 0) \<le> vstol (highest_committed_vs c)"
    using assms(1) unfolding vstol_le_iff by (simp add: within_def)
  with assms show ?thesis
    unfolding set_keys_after [OF within_bound(3) [OF assms(1)]] keys_to_def by (blast intro: le_less_trans)
qed

lemma resend_all_returns:
  assumes "lead_inv E v N l others c" "equipped v l c" "generous E"
    and "\<forall>k \<in> keys_to v (highest_seen_vs c). \<forall>d. holds E c k d \<longrightarrow> fits d"
  shows "\<exists>ess. resend_all E c = Some (c\<lparr>effects := effects c @ concat ess\<rparr>) \<and>
    list_all2 (resend E c) (keys_after (highest_committed_vs c) (highest_seen_vs c)) ess"
proof -
  let ?ks = "keys_after (highest_committed_vs c) (highest_seen_vs c)"
  have w: "within v c" and e: "uc_set c" "v_view_id (cur_view c) = v"
    using assms(1,2) by (simp_all add: lead_inv_def equipped_def)
  note max = within_bound [OF w]
  have "\<forall>k \<in> keys_to v (highest_seen_vs c). backed E N l others c k"
    using assms(1) by (simp add: lead_inv_def)
  then have "\<forall>k \<in> set ?ks. backed E N l others c k \<and> (\<forall>d. holds E c k d \<longrightarrow> fits d)"
    using outstanding_keys [OF w] assms(4) by blast
  from progress_run [OF assms(3) e(1) this] obtain ess where
    ess: "run_keys (progress_body E) (\<lambda>c. c) ?ks c = Some (c\<lparr>effects := effects c @ concat ess\<rparr>)"
      "list_all2 (resend E c) ?ks ess" by blast
  have "resend_all E c = Some (c\<lparr>effects := effects c @ concat ess\<rparr>)"
  proof (cases "highest_committed_vs c < highest_seen_vs c")
    case True
    have "vs_view_id (highest_seen_vs c) = v_view_id (cur_view c)" using w e(2) by (simp add: within_def)
    with True progress_start(1) [OF w e(2) True] ess(1) show ?thesis
      by (simp add: resend_all_def progress.loop_eq_run_keys [OF max(1)])
  next
    case False
    then have "vstol (highest_seen_vs c) \<le> vstol (highest_committed_vs c)" by simp
    from le_less_trans [OF this word_less_plus_1 [OF max(3)]] have "?ks = []" by (rule key_range_empty)
    with ess False show ?thesis by (simp add: resend_all_def)
  qed
  with ess(2) show ?thesis by blast
qed

lemma resend_sends:
  assumes "list_all2 (resend E c) ks ess" "k \<in> set ks" "\<not> quorate E c k"
  shows "\<exists>r data. holds E c k data \<and> length data = unat (rr_data_size r) \<and>
    (enc_accept_req (accept_of c k r) @ enc_request_record r @ data, - 1) \<in> set (upcalls (concat ess))"
proof -
  from assms(1,2) obtain es where es: "resend E c k es" "es \<in> set ess"
    by (metis in_set_conv_nth list_all2_conv_all_nth)
  then have "set (upcalls es) \<subseteq> set (upcalls (concat ess))" by (auto dest!: split_list)
  moreover obtain r data where "snd (retrieve E c k) = Some (enc_request_record r @ data)"
    "length data = unat (rr_data_size r)"
    "es = [Upcall (enc_accept_req (accept_of c k r) @ enc_request_record r @ data) (- 1)]"
    using es(1) assms(3) by (auto simp: resend_def)
  ultimately show ?thesis unfolding holds_def by fastforce
qed

text \<open>Making progress returns, and afterwards the messages for every request without a quorum are in
  the network.\<close>

lemma lead_progress_returns:
  assumes "lead_inv E v N l others c" "equipped v l c" "generous E"
    and "\<forall>k \<in> keys_to v (highest_seen_vs c). \<forall>d. holds E c k d \<longrightarrow> fits d"
  shows "\<exists>c'. consensus_make_progress E c = Some c' \<and> retrieve E c' = retrieve E c \<and>
    highest_seen_vs c' = highest_seen_vs c \<and>
    (\<forall>k. vstol (highest_committed_vs c') < k \<and> k \<le> vstol (highest_seen_vs c) \<and> \<not> quorate E c k \<longrightarrow>
      (\<exists>r data. holds E c k data \<and> length data = unat (rr_data_size r) \<and>
        (enc_accept_req (accept_of c' k r) @ enc_request_record r @ data, - 1) \<in> set (new_calls c c'))) \<and>
    ((\<forall>k. vstol (highest_committed_vs c) < k \<and> k \<le> vstol (highest_seen_vs c) \<longrightarrow> quorate E c k) \<longrightarrow>
      highest_committed_vs c' = highest_seen_vs c)"
proof -
  obtain c1 where c1: "leader_try_to_execute E c = Some c1" "executes E c c1"
    and all: "(\<forall>k. vstol (highest_to_commit_vs c) < k \<and> k \<le> vstol (highest_seen_vs c) \<longrightarrow> quorate E c k) \<longrightarrow>
      highest_to_commit_vs c1 = highest_seen_vs c"
    using lead_returns [OF assms(1)] by blast
  have o: "only_executes c c1" using c1(2) by (simp add: executes_def)
  have i1: "lead_inv E v N l others c1"
    using lead_leader_try [OF assms(1) c1(1)] by (simp add: lead_step_def)
  have r1: "retrieve E c1 = retrieve E c" "highest_seen_vs c1 = highest_seen_vs c" "quorate E c1 = quorate E c"
    using o only_executes_retrieve [OF o] quorate_same [OF o] by (simp_all add: only_executes_def)
  have h1: "holds E c1 = holds E c" by (simp add: holds_def fun_eq_iff r1)
  have e1: "equipped v l c1" by (rule equipped_same [OF only_executesD [OF o] assms(2)])
  have lv: "highest_committed_vs c1 = highest_to_commit_vs c1" "highest_committed_vs c = highest_to_commit_vs c"
    using i1 assms(1) by (simp_all add: lead_inv_def level_def)
  have w1: "within v c1" using i1 by (simp add: lead_inv_def)
  let ?ks = "keys_after (highest_committed_vs c1) (highest_seen_vs c1)"
  from resend_all_returns [OF i1 e1 assms(3)] assms(4) obtain ess where
    run: "resend_all E c1 = Some (c1\<lparr>effects := effects c1 @ concat ess\<rparr>)"
    and ess: "list_all2 (resend E c1) ?ks ess" unfolding h1 r1(2) by blast
  let ?c2 = "c1\<lparr>effects := effects c1 @ concat ess\<rparr>"
  have u2: "uc_set ?c2" using e1 by (simp add: equipped_def)
  obtain m where m: "build_force_exec E ?c2 = Some (Some m)" using force_returns [OF assms(3) u2] by blast
  define c' where "c' = c1\<lparr>effects := effects c1 @ concat ess @ [Upcall m (- 1)]\<rparr>"
  have p: "consensus_make_progress E c = Some c'"
    using c1(1) run m u2 by (simp add: make_progress_alt [OF lead_role [OF assms(1)]] c'_def call_uc_def)
  obtain es0 where "effects c1 = effects c @ es0" using o by (auto simp: only_executes_def)
  then have new: "set (upcalls (concat ess)) \<subseteq> set (new_calls c c')" by (auto simp: new_calls_def c'_def)
  have a: "accept_of c1 = accept_of c'" by (simp add: c'_def)
  have "\<exists>r data. holds E c k data \<and> length data = unat (rr_data_size r) \<and>
      (enc_accept_req (accept_of c' k r) @ enc_request_record r @ data, - 1) \<in> set (new_calls c c')"
    if "vstol (highest_committed_vs c1) < k" "k \<le> vstol (highest_seen_vs c)" "\<not> quorate E c k" for k
    using resend_sends [OF ess, of k] that new within_bound(3) [OF w1]
    unfolding h1 a by (auto simp: set_keys_after r1)
  with p r1 all lv show ?thesis by (intro exI [of _ c']) (auto simp: c'_def)
qed

lemma handle_msg_accept:
  "consensus_handle_msg E (enc_accept_req a @ rest) c = handle_accept_req E (enc_accept_req a @ rest) c"
  by (simp add: consensus_handle_msg_def ld_code(1) del: con_code_val.simps)

lemma handle_msg_ack:
  "consensus_handle_msg E (enc_accept_ack p x) c = handle_accept_ack E (enc_accept_ack p x) c"
  by (simp add: consensus_handle_msg_def ld_code(2) del: con_code_val.simps)

section \<open>A follower acknowledges\<close>

text \<open>An accept request of the leader that is still up to date.\<close>

definition offer  ::
  "'d env \<Rightarrow> view_id_t \<Rightarrow> nat \<Rightarrow> ('d, 'z) comp \<Rightarrow> u64 \<Rightarrow> accept_req \<Rightarrow> request_record \<Rightarrow> bytes \<Rightarrow> bool"
  where
  "offer E v l L k a r data \<longleftrightarrow> ar_msg_vs a = ltovs k \<and> ar_node_id a = of_nat l \<and>
     vs_view_id (ar_req_canbe_exed a) = v \<and> ar_req_canbe_exed a \<le> highest_to_commit_vs L \<and>
     k \<in> keys_to v (highest_seen_vs L) \<and> holds E L k data \<and> length data = unat (rr_data_size r) \<and>
     fits data"

lemma of_nat_ucast [simp]: "i < 32 \<Longrightarrow> ucast (of_nat i :: u32) = (of_nat i :: u64)"
  by (simp add: word_unat_eq_iff unsigned_ucast_eq unat_of_nat_small take_bit_nat_eq_self)

lemma offer_not_rejected:
  assumes "foll_inv v l L i c" "equipped v l c" "offer E v l L k a r data"
    and "vstol (highest_to_commit_vs L) < k" "within v L"
  shows "vs_view_id (ltovs k) = v" "\<not> rejected c a"
proof -
  have o: "ar_msg_vs a = ltovs k" "ar_node_id a = of_nat l" "k \<in> keys_to v (highest_seen_vs L)"
    using assms(3) by (simp_all add: offer_def)
  show kv: "vs_view_id (ltovs k) = v"
    using o(3) assms(5) by (intro key_in_view [of v k "highest_seen_vs L"]) (auto simp: keys_to_def within_def)
  have "highest_committed_vs c \<le> highest_to_commit_vs L" using assms(1) by (auto simp: foll_inv_def within_def)
  then have "vstol (highest_committed_vs c) < k"
    using assms(4) vstol_le_iff le_less_trans by blast
  then have "highest_committed_vs c < ltovs k" using vstol_less_iff [of "highest_committed_vs c" "ltovs k"] by simp
  with o kv assms(2) show "\<not> rejected c a" by (auto simp: rejected_def equipped_def)
qed

lemma accept_store_returns:
  assumes "generous E" "equipped v l c" "cc_node_id c = of_nat i" "i < 32" "ar_msg_vs a = ltovs k"
    and "ar_node_id a = of_nat l" "length data = unat (rr_data_size r)" "fits data"
  shows "\<exists>c' p. handle_accept_req_store E a (enc_request_record r @ data) c = Some c' \<and> holds E c' k data \<and>
    equipped v l c' \<and> effects c' = effects c @
      [Upcall (enc_accept_ack p \<lparr>aa_msg_vs = ltovs k, aa_node_id = of_nat i\<rparr>) (ucast (of_nat l :: u64))]"
proof -
  have bd: "bdb_contract E" using assms(1) by (simp add: generous_def)
  define r' where "r' = r\<lparr>rr_created_time := now E, rr_bit_map := junk_bit_map E\<rparr>"
  have sz: "REQ_RECORD_SIZE r' = REQ_RECORD_SIZE r" "rr_data_size r' = rr_data_size r"
    by (simp_all add: r'_def REQ_RECORD_SIZE_def)
  obtain c2 where st: "store E c k (enc_request_record r' @ data) = (0, c2)"
    using generous_store [OF assms(1,2)] by (metis prod.collapse)
  have sc: "same_config c c2" by (rule store_frame [OF st])
  let ?m = "enc_accept_ack (junk32 E 12) \<lparr>aa_msg_vs = ltovs k, aa_node_id = of_nat i\<rparr>"
  let ?c3 = "c2\<lparr>effects := effects c2 @ [Upcall ?m (ucast (of_nat l :: u64))]\<rparr>"
  have "build_accept_ack E c2 (ltovs k) = Some (Some ?m)"
    using assms(1,3,4) same_configD(2) [OF sc]
    by (simp add: build_accept_ack_def generous_alloc length_enc)
  moreover have "call_uc ?m (ucast (of_nat l :: u64)) c2 = Some ?c3"
    using equipped_same [OF sc assms(2)] by (simp add: call_uc_def equipped_def)
  moreover have "alloc_fill E (unat (REQ_RECORD_SIZE r)) (enc_request_record r' @ data) =
      Some (Some (enc_request_record r' @ data))"
    using unat_record_size(1) [OF assms(7,8)] assms(1) by (simp add: generous_alloc length_enc)
  ultimately have "handle_accept_req_store E a (enc_request_record r @ data) c = Some ?c3"
    using st assms(5-7) generous_malloc [OF assms(1), of "unat (REQ_RECORD_SIZE r)"]
    by (auto simp: handle_accept_req_store_def Let_def r'_def [symmetric])
  moreover have "holds E ?c3 k data"
    using retrieve_store [OF bd st, of k] assms(7) sz(2) by (auto simp: holds_def)
  moreover have "equipped v l ?c3" using equipped_same [OF sc assms(2)] by (simp add: equipped_def)
  moreover have "effects c2 = effects c" using st by (auto simp: store_def split: prod.splits)
  ultimately show ?thesis by (intro exI [of _ ?c3] exI [of _ "junk32 E 12"]) simp
qed

lemma follower_acks:
  assumes "foll_inv v l L i c" "equipped v l c" "generous E" "offer E v l L k a r data"
    and "vstol (highest_to_commit_vs L) < k" "within v L"
  shows "\<exists>c' p. consensus_handle_msg E (enc_accept_req a @ enc_request_record r @ data) c = Some c' \<and>
    holds E c' k data \<and>
    (enc_accept_ack p \<lparr>aa_msg_vs = ltovs k, aa_node_id = of_nat i\<rparr>, ucast (of_nat l :: u64)) \<in> set (new_calls c c')"
proof -
  have o: "ar_msg_vs a = ltovs k" "ar_node_id a = of_nat l" "vs_view_id (ar_req_canbe_exed a) = v"
    "ar_req_canbe_exed a \<le> highest_to_commit_vs L" "k \<in> keys_to v (highest_seen_vs L)" "holds E L k data"
    "length data = unat (rr_data_size r)" "fits data"
    using assms(4) by (simp_all add: offer_def)
  have f: "i < 32" "cc_node_id c = of_nat i" using assms(1) by (simp_all add: foll_inv_def)
  have bd: "bdb_contract E" using assms(3) by (simp add: generous_def)
  note nr = offer_not_rejected [OF assms(1,2,4-6)]
  let ?c1 = "accept_update a c"
  have e1: "equipped v l ?c1" by (rule equipped_same [OF _ assms(2)]) simp
  have n1: "cc_node_id ?c1 = of_nat i" using f(2) by (simp add: accept_update_def)
  from accept_store_returns [OF assms(3) e1 n1 f(1) o(1,2,7,8)] obtain c3 p where
    h: "handle_accept_req_store E a (enc_request_record r @ data) ?c1 = Some c3" "holds E c3 k data"
      "equipped v l c3" "effects c3 = effects c @
        [Upcall (enc_accept_ack p \<lparr>aa_msg_vs = ltovs k, aa_node_id = of_nat i\<rparr>) (ucast (of_nat l :: u64))]"
    by auto
  have "foll_step E v l L i c ?c1"
    using assms(1) o nr(1) unfolding accept_update_def
    by (intro foll_raise [OF assms(1) refl]) (auto simp: foll_inv_def within_def max_def)
  then have "foll_inv v l L i ?c1" by (simp add: foll_step_def)
  from foll_store_accept [OF this bd, of a data r "[]" c3] have "foll_inv v l L i c3"
    using o h by (simp add: foll_step_def)
  then obtain c' where c': "try_to_execute E c3 = Some c'"
    using follower_try_returns [OF _ assms(3) h(3)] by blast
  have x: "only_executes c3 c'" by (rule try_to_execute_executes [OF c'])
  have "consensus_handle_msg E (enc_accept_req a @ enc_request_record r @ data) c = Some c'"
    using nr(2) h(1) c' by (simp add: handle_msg_accept handle_accept_req_alt)
  moreover have "holds E c' k data"
    using h(2) only_executes_retrieve [OF x, of E] by (simp add: holds_def)
  moreover obtain es where "effects c' = effects c3 @ es" using x by (auto simp: only_executes_def)
  ultimately show ?thesis
    using h(4) by (intro exI [of _ c'] exI [of _ p]) (simp add: new_calls_def)
qed

section \<open>The leader counts\<close>

text \<open>The vote of node \<open>i\<close> for record \<open>k\<close> is in, or not needed any more.\<close>

definition counted :: "'d env \<Rightarrow> ('d, 'z) comp \<Rightarrow> nat \<Rightarrow> u64 \<Rightarrow> bool" where
  "counted E c i k \<longleftrightarrow> k \<le> vstol (highest_committed_vs c) \<or> quorate E c k \<or>
     (\<exists>r data. snd (retrieve E c k) = Some (enc_request_record r @ data) \<and> bit (rr_bit_map r) i)"

lemma leader_counts_late:
  assumes "lead_inv E v N l others c" "equipped v l c" "ltovs k \<le> highest_committed_vs c"
  shows "\<exists>c'. consensus_handle_msg E (enc_accept_ack p \<lparr>aa_msg_vs = ltovs k, aa_node_id = of_nat i\<rparr>) c = Some c' \<and>
    lead_step E v N l others c c' \<and> highest_seen_vs c' = highest_seen_vs c \<and> counted E c' i k \<and>
    (\<forall>j x. counted E c j x \<longrightarrow> counted E c' j x)"
proof -
  obtain c' where c': "try_to_execute E c = Some c'" "executes E c c'"
    using lead_returns [OF assms(1)] lead_try_is [OF assms(1,2)] by auto
  have ls: "lead_step E v N l others c c'" by (rule lead_try [OF assms(1) c'(1)])
  have x: "only_executes c c'" "highest_committed_vs c \<le> highest_committed_vs c'"
    using c'(2) by (simp_all add: executes_def)
  have "consensus_handle_msg E (enc_accept_ack p \<lparr>aa_msg_vs = ltovs k, aa_node_id = of_nat i\<rparr>) c = Some c'"
    using c' assms(3) lead_role [OF assms(1)] accept_ack.dec_enc
    by (simp add: handle_msg_ack handle_accept_ack_def)
  moreover have "k \<le> vstol (highest_committed_vs c)" using assms(3) vstol_le_iff [of "ltovs k"] by simp
  moreover have "y \<le> vstol (highest_committed_vs c) \<Longrightarrow> y \<le> vstol (highest_committed_vs c')" for y
    using x(2) unfolding vstol_le_iff [symmetric] by (rule order_trans [rotated])
  ultimately show ?thesis
    using x(1) ls only_executes_retrieve [OF x(1), of E] quorate_same [OF x(1), of E]
    by (intro exI [of _ c']) (auto simp: counted_def only_executes_def)
qed

lemma leader_counts_new:
  assumes "lead_inv E v N l others c" "equipped v l c" "generous E" "i < N"
    and "k \<in> keys_to v (highest_seen_vs c)" "holds E (others i) k data" "holds E c k data"
    and "\<not> ltovs k \<le> highest_committed_vs c"
  shows "\<exists>c'. consensus_handle_msg E (enc_accept_ack p \<lparr>aa_msg_vs = ltovs k, aa_node_id = of_nat i\<rparr>) c = Some c' \<and>
    lead_step E v N l others c c' \<and> highest_seen_vs c' = highest_seen_vs c \<and> counted E c' i k \<and>
    (\<forall>j x. counted E c j x \<longrightarrow> counted E c' j x)"
proof -
  have bd: "bdb_contract E" using assms(3) by (simp add: generous_def)
  have L: "N < 32" "my_role c = LEADER" using assms(1) by (simp_all add: lead_inv_def)
  from assms(7) obtain r where r: "snd (retrieve E c k) = Some (enc_request_record r @ data)"
    "length data = unat (rr_data_size r)" by (auto simp: holds_def)
  have nb: "node_bit (ucast (of_nat i :: u64)) = Some (push_bit i 1)"
  proof -
    have "unat (ucast (of_nat i :: u64) :: u32) = i"
      using L(1) assms(4) by (simp add: unsigned_ucast_eq unat_of_nat_small take_bit_nat_eq_self)
    with node_bit_small [of "ucast (of_nat i :: u64)"] L(1) assms(4) show ?thesis by simp
  qed
  define r' where "r' = r\<lparr>rr_bit_map := rr_bit_map r OR push_bit i 1\<rparr>"
  obtain c1 where st: "store E c k (enc_request_record r' @ data) = (0, c1)"
    using generous_store [OF assms(3,2)] by (metis prod.collapse)
  have s1: "lead_step E v N l others c c1"
    by (rule lead_vote [OF assms(1) bd assms(5) r assms(4,6) r'_def st])
  then have i1: "lead_inv E v N l others c1" by (simp add: lead_step_def)
  have e1: "equipped v l c1" by (rule equipped_same [OF store_frame [OF st] assms(2)])
  obtain c' where c': "try_to_execute E c1 = Some c'" "executes E c1 c'"
    using lead_returns [OF i1] lead_try_is [OF i1 e1] by auto
  have x: "only_executes c1 c'" "highest_committed_vs c1 \<le> highest_committed_vs c'"
    using c'(2) by (simp_all add: executes_def)
  have c1: "highest_committed_vs c1 = highest_committed_vs c" "highest_seen_vs c1 = highest_seen_vs c"
    using st by (auto simp: store_def split: prod.splits)
  have "update_record r (ucast (of_nat i :: u64)) = Some r'" using nb by (simp add: update_record_def r'_def)
  then have h: "consensus_handle_msg E (enc_accept_ack p \<lparr>aa_msg_vs = ltovs k, aa_node_id = of_nat i\<rparr>) c = Some c'"
    using c'(1) assms(8) L(2) accept_ack.dec_enc r st
    by (simp add: handle_msg_ack handle_accept_ack_def)
  have ret: "retrieve E c' y = (if y = k then (0, Some (enc_request_record r' @ data)) else retrieve E c y)" for y
    using retrieve_store [OF bd st, of y] only_executes_retrieve [OF x(1), of E] by simp
  have up: "y \<le> vstol (highest_committed_vs c) \<Longrightarrow> y \<le> vstol (highest_committed_vs c')" for y
    using x(2) c1(1) unfolding vstol_le_iff [symmetric] by (auto intro: order_trans)
  have "bit (rr_bit_map r') j \<longleftrightarrow> bit (rr_bit_map r) j \<or> j = i" for j
    using L(1) assms(4) by (auto simp: r'_def bit_simps)
  moreover have "quorate E c' y" if "quorate E c y" for y
  proof -
    have "cc_group_size c' = cc_group_size c"
      using same_configD(4) [OF store_frame [OF st]] same_configD(4) [OF only_executesD [OF x(1)]] by simp
    moreover have "bits (rr_bit_map r) \<subseteq> bits (rr_bit_map r')" by (simp add: r'_def)
    ultimately show ?thesis
      using that r(1)
        by (cases "y = k") (auto simp: quorate_def ret intro: reached_quorum_mono split: option.splits)
  qed
  ultimately have "counted E c' i k" "counted E c j y \<Longrightarrow> counted E c' j y" for j y
    using up r(1) by (auto simp: counted_def ret)
  moreover have "highest_seen_vs c' = highest_seen_vs c" using x(1) c1 by (simp add: only_executes_def)
  ultimately show ?thesis using h lead_step_try [OF s1 c'(1)] by blast
qed

lemma leader_counts:
  assumes "lead_inv E v N l others c" "equipped v l c" "generous E" "i < N"
    and "k \<in> keys_to v (highest_seen_vs c)" "holds E (others i) k data" "holds E c k data"
  shows "\<exists>c'. consensus_handle_msg E (enc_accept_ack p \<lparr>aa_msg_vs = ltovs k, aa_node_id = of_nat i\<rparr>) c = Some c' \<and>
    lead_step E v N l others c c' \<and> highest_seen_vs c' = highest_seen_vs c \<and> counted E c' i k \<and>
    (\<forall>j x. counted E c j x \<longrightarrow> counted E c' j x)"
  using leader_counts_late [OF assms(1,2)] leader_counts_new [OF assms] by blast

lemma counted_quorate:
  assumes "lead_inv E v N l others c" "S \<subseteq> {..<N}" "N < 2 * card S" "k \<in> keys_to v (highest_seen_vs c)"
    and "vstol (highest_committed_vs c) < k" "\<forall>i \<in> S. i \<noteq> l \<longrightarrow> counted E c i k"
  shows "quorate E c k"
proof (rule ccontr)
  assume nq: "\<not> quorate E c k"
  have L: "N < 32" "cc_group_size c = of_nat N" using assms(1) by (simp_all add: lead_inv_def)
  obtain r data where r: "snd (retrieve E c k) = Some (enc_request_record r @ data)" "bit (rr_bit_map r) l"
    using assms(1,4) by (auto simp: lead_inv_def backed_def)
  then have "S \<subseteq> bits (rr_bit_map r)"
    using assms(5,6) nq by (auto simp: counted_def bits_def dest: leD)
  then have "card S \<le> card (bits (rr_bit_map r))" by (intro card_mono) auto
  moreover have "unat (of_nat N :: u32) = N" using L(1) by (simp add: unat_of_nat_small)
  ultimately have "reached_quorum r (cc_group_size c)"
    using reached_quorum_majority [of "of_nat N" r] L assms(3) by simp
  with r nq show False by (simp add: quorate_def)
qed

end
