(* ===== verification/GroupLiveness.thy ===== *)
theory GroupLiveness
  imports GroupReturns
begin

text \<open>
  Liveness of a group in one view: from every reachable state, a majority of the nodes with the
  leader among them can execute all requests that the leader has numbered, whatever the others do
  not do. Each vote can be gathered from everywhere and stays, which locale \<open>gathering\<close> puts
  together.
\<close>

section \<open>Gathering\<close>

text \<open>Goals that stay reached once they are, each of which can be reached from everywhere, can all
  be reached together.\<close>

locale gathering =
  fixes ready :: "'s \<Rightarrow> bool"
    and ext :: "'s \<Rightarrow> 's \<Rightarrow> bool"
    and goal :: "'x \<Rightarrow> 's \<Rightarrow> bool"
  assumes ext_refl: "ext s s"
    and ext_trans: "ext s t \<Longrightarrow> ext t u \<Longrightarrow> ext s u"
    and ready_stays: "ready s \<Longrightarrow> ext s t \<Longrightarrow> ready t"
    and goal_stays: "goal x s \<Longrightarrow> ext s t \<Longrightarrow> goal x t"
begin

lemma gather:
  assumes "finite X" "ready s" "\<And>x s. x \<in> X \<Longrightarrow> ready s \<Longrightarrow> \<exists>t. ext s t \<and> goal x t"
  shows "\<exists>t. ext s t \<and> (\<forall>x \<in> X. goal x t)"
  using assms(1,3)
proof (induction X rule: finite_induct)
  case empty
  show ?case using ext_refl by blast
next
  case (insert x X)
  then obtain t where t: "ext s t" "\<forall>x \<in> X. goal x t" by blast
  then obtain u where "ext t u" "goal x u"
    using insert.prems ready_stays [OF assms(2)] by blast
  with t show ?case using ext_trans goal_stays by blast
qed

end

section \<open>Rounds of the group\<close>

text \<open>What happens between two states of a group in which only the nodes of \<open>S\<close> take steps.\<close>

definition grows ::
  "'d env \<Rightarrow> nat \<Rightarrow> nat \<Rightarrow> view_id_t \<Rightarrow> nat set \<Rightarrow> 'd group \<Rightarrow> 'd group \<Rightarrow> bool" where
  "grows E N l v S s s' \<longleftrightarrow> (group_step E N)\<^sup>*\<^sup>* s s' \<and> (\<forall>i. i \<notin> S \<longrightarrow> nodes s' i = nodes s i) \<and>
     (\<forall>i. same_config (nodes s i) (nodes s' i)) \<and> set (net s) \<subseteq> set (net s') \<and>
     highest_seen_vs (nodes s' l) = highest_seen_vs (nodes s l) \<and>
     lead_mono E v (nodes s l) (nodes s' l) \<and>
     (\<forall>i k. counted E (nodes s l) i k \<longrightarrow> counted E (nodes s' l) i k)"

lemma grows_refl: "grows E N l v S s s"
  by (simp add: grows_def)

lemma grows_trans: "grows E N l v S s t \<Longrightarrow> grows E N l v S t u \<Longrightarrow> grows E N l v S s u"
  unfolding grows_def by (auto intro: rtranclp_trans same_config_trans lead_mono_trans)

text \<open>The nodes of \<open>S\<close>, with the leader among them, are the ones that work.\<close>

definition working :: "'d env \<Rightarrow> nat \<Rightarrow> nat \<Rightarrow> view_id_t \<Rightarrow> nat set \<Rightarrow> 'd group \<Rightarrow> bool" where
  "working E N l v S s \<longleftrightarrow> group_inv E N l v s \<and> l \<in> S \<and> S \<subseteq> {..<N} \<and>
     (\<forall>i \<in> S. equipped v l (nodes s i)) \<and> room (nodes s l)"

lemma working_grows: "working E N l v S s \<Longrightarrow> grows E N l v S s t \<Longrightarrow> working E N l v S t"
proof -
  assume w: "working E N l v S s" and g: "grows E N l v S s t"
  have "group_inv E N l v t"
  proof -
    have "(group_step E N)\<^sup>*\<^sup>* s t" "group_inv E N l v s" using w g by (simp_all add: working_def grows_def)
    then show ?thesis by (induction rule: rtranclp_induct) (auto intro: group_step_inv)
  qed
  with w g show ?thesis
    by (auto simp: working_def grows_def room_def intro: equipped_same)
qed

definition offered :: "'d env \<Rightarrow> nat \<Rightarrow> view_id_t \<Rightarrow> 'd group \<Rightarrow> u64 \<Rightarrow> bool" where
  "offered E l v s k \<longleftrightarrow> (\<exists>a r data. offer E v l (nodes s l) k a r data \<and>
     (l, - 1, enc_accept_req a @ enc_request_record r @ data) \<in> set (net s))"

lemma offered_grows: "offered E l v s k \<Longrightarrow> grows E N l v S s t \<Longrightarrow> offered E l v t k"
  unfolding offered_def offer_def grows_def lead_mono_def
  by (metis (no_types, lifting) order_trans subsetD)

lemma sint_target: "l < 32 \<Longrightarrow> sint (ucast (of_nat l :: u64) :: i32) = int l"
proof -
  assume "l < 32"
  then have "unat (ucast (of_nat l :: u64) :: u32) = l"
    by (simp add: unsigned_ucast_eq unat_of_nat_small take_bit_nat_eq_self)
  with \<open>l < 32\<close> show ?thesis by (simp add: sint_small)
qed

text \<open>A step of a node in \<open>S\<close>.\<close>


lemma grows_follower:
  assumes "group_step E N s (post i c s)" "i \<in> S" "i \<noteq> l" "same_config (nodes s i) c"
  shows "grows E N l v S s (post i c s)"
  using assms by (auto simp: grows_def post_def)

lemma grows_leader:
  assumes "group_step E N s (post l c s)" "l \<in> S" "lead_step E v N l (nodes s) (nodes s l) c"
    and "highest_seen_vs c = highest_seen_vs (nodes s l)"
    and "\<And>i k. counted E (nodes s l) i k \<Longrightarrow> counted E c i k"
  shows "grows E N l v S s (post l c s)"
  using assms by (auto simp: grows_def post_def lead_step_def)

text \<open>A follower in \<open>S\<close> answers an offer, and the leader counts the answer.\<close>

lemma follower_answers:
  assumes "working E N l v S s" "generous E" "i \<in> S" "i \<noteq> l" "offered E l v s k" "\<not> counted E (nodes s l) i k"
  shows "\<exists>t data p. grows E N l v S s t \<and> nodes t l = nodes s l \<and> k \<in> keys_to v (highest_seen_vs (nodes t l)) \<and>
    holds E (nodes t i) k data \<and> holds E (nodes t l) k data \<and>
    (i, ucast (of_nat l :: u64), enc_accept_ack p \<lparr>aa_msg_vs = ltovs k, aa_node_id = of_nat i\<rparr>) \<in> set (net t)"
proof -
  have w: "i < N" "l < N" "equipped v l (nodes s i)"
    "lead_inv E v N l (nodes s) (nodes s l)" "foll_inv v l (nodes s l) i (nodes s i)"
    using assms(1,3,4) by (auto simp: working_def group_inv_def)
  have bd: "same_store E E" using assms(2) by (simp add: same_store_def generous_def)
  from assms(5) obtain a r data where o: "offer E v l (nodes s l) k a r data"
    "(l, - 1, enc_accept_req a @ enc_request_record r @ data) \<in> set (net s)"
    by (auto simp: offered_def)
  let ?m = "enc_accept_req a @ enc_request_record r @ data"
  have len: "length (?m @ []) < 4294967296" using o(1) by (simp add: offer_def fits_def length_enc)
  have "vstol (highest_to_commit_vs (nodes s l)) < k" "within v (nodes s l)"
    using assms(6) w(4) by (auto simp: counted_def lead_inv_def level_def)
  from follower_acks [OF w(5,3) assms(2) o(1) this] obtain c p where
    c: "consensus_handle_msg E ?m (nodes s i) = Some c" "holds E c k data"
    "(enc_accept_ack p \<lparr>aa_msg_vs = ltovs k, aa_node_id = of_nat i\<rparr>, ucast (of_nat l :: u64))
      \<in> set (new_calls (nodes s i) c)" by blast
  let ?t = "post i c s"
  have "my_role (nodes s i) = LEADER \<longrightarrow> room (nodes s i)" using w(5) by (simp add: foll_inv_def)
  then have "group_step E N s ?t"
    using group_step.receive [OF w(1,2) o(2) _ bd len] assms(4) c(1) by (simp add: addressed_def)
  then have "grows E N l v S s ?t"
    by (rule grows_follower [OF _ assms(3,4) consensus_handle_msg_frame [OF c(1)]])
  moreover have tl: "nodes ?t l = nodes s l" "nodes ?t i = c" using assms(4) by (simp_all add: post_def)
  moreover have "(i, ucast (of_nat l :: u64), enc_accept_ack p \<lparr>aa_msg_vs = ltovs k, aa_node_id = of_nat i\<rparr>)
      \<in> set (net ?t)"
    using c(3) by (force simp: post_def)
  ultimately show ?thesis using o(1) c(2)
    by (intro exI [of _ ?t] exI [of _ data] exI [of _ p]) (simp add: offer_def)
qed

lemma vote_arrives:
  assumes "working E N l v S s" "generous E" "i \<in> S" "i \<noteq> l" "offered E l v s k \<or> counted E (nodes s l) i k"
  shows "\<exists>t. grows E N l v S s t \<and> counted E (nodes t l) i k"
proof (cases "counted E (nodes s l) i k")
  case True
  then show ?thesis using grows_refl by blast
next
  case False
  with follower_answers [OF assms(1-4)] assms(5) obtain t data p where t: "grows E N l v S s t"
    "k \<in> keys_to v (highest_seen_vs (nodes t l))" "holds E (nodes t i) k data" "holds E (nodes t l) k data"
    "(i, ucast (of_nat l :: u64), enc_accept_ack p \<lparr>aa_msg_vs = ltovs k, aa_node_id = of_nat i\<rparr>) \<in> set (net t)"
    by blast
  have bd: "same_store E E" using assms(2) by (simp add: same_store_def generous_def)
  have w: "l \<in> S" "i < N" "l < N" "N < 32" "lead_inv E v N l (nodes t) (nodes t l)" "equipped v l (nodes t l)"
    "room (nodes t l)"
    using working_grows [OF assms(1) t(1)] assms(3) by (auto simp: working_def group_inv_def)
  let ?ack = "enc_accept_ack p \<lparr>aa_msg_vs = ltovs k, aa_node_id = of_nat i\<rparr>"
  from leader_counts [OF w(5,6) assms(2) w(2) t(2-4), of p] obtain c where
    c: "consensus_handle_msg E ?ack (nodes t l) = Some c" "lead_step E v N l (nodes t) (nodes t l) c"
      "highest_seen_vs c = highest_seen_vs (nodes t l)" "counted E c i k"
      "\<forall>j x. counted E (nodes t l) j x \<longrightarrow> counted E c j x" by blast
  have "addressed l i (ucast (of_nat l :: u64))" "length (?ack @ []) < 4294967296"
    using assms(4) w(3,4) by (simp_all add: addressed_def sint_target length_enc)
  from group_step.receive [OF w(3,2) t(5) this(1) bd this(2)] w(7) c(1)
  have st: "group_step E N t (post l c t)" by simp
  have "grows E N l v S t (post l c t)" using c by (intro grows_leader [OF st w(1)]) simp_all
  from grows_trans [OF t(1) this] c(4) show ?thesis by (intro exI [of _ "post l c t"]) (simp add: post_def)
qed

text \<open>Every request of \<open>K\<close> has been sent to the group, or needs no more votes.\<close>

definition asked :: "'d env \<Rightarrow> nat \<Rightarrow> nat \<Rightarrow> view_id_t \<Rightarrow> nat set \<Rightarrow> u64 set \<Rightarrow> 'd group \<Rightarrow> bool" where
  "asked E N l v S K s \<longleftrightarrow> working E N l v S s \<and>
     (\<forall>k \<in> K. offered E l v s k \<or> (\<forall>i. counted E (nodes s l) i k))"

interpretation votes: gathering "asked E N l v S K" "grows E N l v S"
    "\<lambda>(i, k) s. counted E (nodes s l) i k" for E :: "'d env" and N l v S K
proof
  show "grows E N l v S s s" for s :: "'d group" by (rule grows_refl)
  show "grows E N l v S s t \<Longrightarrow> grows E N l v S t u \<Longrightarrow> grows E N l v S s u" for s t u :: "'d group"
    by (rule grows_trans)
  show "asked E N l v S K s \<Longrightarrow> grows E N l v S s t \<Longrightarrow> asked E N l v S K t" for s t :: "'d group"
    unfolding asked_def by (metis working_grows offered_grows grows_def)
  show "(case x of (i, k) \<Rightarrow> \<lambda>s. counted E (nodes s l) i k) s \<Longrightarrow> grows E N l v S s t \<Longrightarrow>
      (case x of (i, k) \<Rightarrow> \<lambda>s. counted E (nodes s l) i k) t" for x and s t :: "'d group"
    by (auto simp: grows_def split: prod.splits)
qed

lemma leader_asks:
  assumes "working E N l v S s" "generous E"
    and "\<forall>k \<in> keys_to v (highest_seen_vs (nodes s l)). \<forall>d. holds E (nodes s l) k d \<longrightarrow> fits d"
  shows "\<exists>t. grows E N l v S s t \<and> asked E N l v S (keys_to v (highest_seen_vs (nodes s l))) t \<and>
    ((\<forall>k. vstol (highest_committed_vs (nodes s l)) < k \<and> k \<le> vstol (highest_seen_vs (nodes s l)) \<longrightarrow>
        quorate E (nodes s l) k) \<longrightarrow> highest_committed_vs (nodes t l) = highest_seen_vs (nodes s l))"
proof -
  let ?L = "nodes s l"
  have w: "l \<in> S" "l < N" "N < 32" "equipped v l ?L" "lead_inv E v N l (nodes s) ?L"
    using assms(1) by (auto simp: working_def group_inv_def)
  have bd: "same_store E E" using assms(2) by (simp add: same_store_def generous_def)
  from lead_progress_returns [OF w(5,4) assms(2,3)] obtain c where
    c: "consensus_make_progress E ?L = Some c" "retrieve E c = retrieve E ?L"
      "highest_seen_vs c = highest_seen_vs ?L"
      "\<And>k. vstol (highest_committed_vs c) < k \<and> k \<le> vstol (highest_seen_vs ?L) \<and> \<not> quorate E ?L k \<Longrightarrow>
        \<exists>r data. holds E ?L k data \<and> length data = unat (rr_data_size r) \<and>
          (enc_accept_req (accept_of c k r) @ enc_request_record r @ data, - 1) \<in> set (new_calls ?L c)"
    and all: "(\<forall>k. vstol (highest_committed_vs ?L) < k \<and> k \<le> vstol (highest_seen_vs ?L) \<longrightarrow> quorate E ?L k) \<longrightarrow>
      highest_committed_vs c = highest_seen_vs ?L" by blast
  let ?t = "post l c s"
  have ls: "lead_step E v N l (nodes s) ?L c" by (rule lead_progress [OF w(5) c(1)])
  have st: "group_step E N s ?t" by (rule group_step.progress [OF w(2) bd c(1)])
  have q: "quorate E c k = quorate E ?L k" for k
    using c(2) same_configD(4) [OF consensus_make_progress_frame [OF c(1)]] by (auto intro!: quorate_cong)
  have i: "lead_inv E v N l (nodes s) c" using ls by (simp add: lead_step_def)
  have up: "vstol (highest_committed_vs ?L) \<le> vstol (highest_committed_vs c)"
    using ls w(5) i by (simp add: lead_step_def lead_mono_def lead_inv_def level_def)
  have g: "grows E N l v S s ?t"
    using up by (intro grows_leader [OF st w(1) ls c(3)]) (auto simp: counted_def q c(2) intro: order_trans)
  have tl: "nodes ?t l = c" by (simp add: post_def)
  have "offered E l v ?t k" if k: "k \<in> keys_to v (highest_seen_vs ?L)" "\<not> counted E c i k" for i k
  proof -
    have "vstol (highest_committed_vs c) < k \<and> k \<le> vstol (highest_seen_vs ?L) \<and> \<not> quorate E ?L k"
      using k by (auto simp: counted_def q keys_to_def)
    from c(4) [OF this] obtain r data where r: "holds E ?L k data" "length data = unat (rr_data_size r)"
      "(enc_accept_req (accept_of c k r) @ enc_request_record r @ data, - 1) \<in> set (new_calls ?L c)" by blast
    have "offer E v l c k (accept_of c k r) r data"
      using k r assms(3) i w(2,3) c(2,3)
      by (auto simp: offer_def accept_of_def lead_inv_def within_def holds_def)
    with r(3) show ?thesis unfolding offered_def tl by (force simp: post_def)
  qed
  with working_grows [OF assms(1) g] have "asked E N l v S (keys_to v (highest_seen_vs ?L)) ?t"
    unfolding asked_def tl by blast
  with g all show ?thesis by (intro exI [of _ ?t]) (simp add: tl)
qed

text \<open>C4 a majority makes progress: in every reachable state, when the leader and enough other nodes to
  make more than half of the group work, there is a sequence of steps in which only these take part
  and after which the leader has executed every request that it had numbered, in order; a minority
  that has failed never blocks the group.\<close>

theorem majority_makes_progress:
  assumes "group_reach E N l v s" "generous E" "S \<subseteq> {..<N}" "l \<in> S" "N < 2 * card S"
    and "\<forall>i \<in> S. equipped v l (nodes s i)" "room (nodes s l)"
    and "\<forall>k \<in> keys_to v (highest_seen_vs (nodes s l)). \<forall>d. holds E (nodes s l) k d \<longrightarrow> fits d"
  shows "\<exists>t. (group_step E N)\<^sup>*\<^sup>* s t \<and> (\<forall>i. i \<notin> S \<longrightarrow> nodes t i = nodes s i) \<and>
    user_cbs (effects (nodes t l)) = map announce (keys_after (VS v 0) (highest_seen_vs (nodes s l)))"
proof -
  let ?K = "keys_to v (highest_seen_vs (nodes s l))"
  have w: "working E N l v S s" using assms(3,4,6,7) group_reach_inv [OF assms(1)] unfolding working_def by blast
  obtain t where t: "grows E N l v S s t" "asked E N l v S ?K t"
    using leader_asks [OF w assms(2,8)] by blast
  have "finite S" using assms(3) by (rule finite_subset) simp
  then have fin: "finite ((S - {l}) \<times> ?K)" by simp
  have one: "\<exists>u. grows E N l v S t' u \<and> (case x of (i, k) \<Rightarrow> \<lambda>s. counted E (nodes s l) i k) u"
    if "x \<in> (S - {l}) \<times> ?K" "asked E N l v S ?K t'" for x t'
  proof -
    obtain i k where x: "x = (i, k)" "i \<in> S" "i \<noteq> l" "k \<in> ?K" using \<open>x \<in> _\<close> by blast
    have "working E N l v S t'" "offered E l v t' k \<or> counted E (nodes t' l) i k"
      using that(2) x(4) unfolding asked_def by blast+
    from vote_arrives [OF this(1) assms(2) x(2,3) this(2)] show ?thesis unfolding x(1) by simp
  qed
  from votes.gather [OF fin t(2) one] obtain u where u: "grows E N l v S t u"
    "\<forall>i \<in> S. i \<noteq> l \<longrightarrow> (\<forall>k \<in> ?K. counted E (nodes u l) i k)" by auto
  have su: "grows E N l v S s u" by (rule grows_trans [OF t(1) u(1)])
  have wu: "working E N l v S u" by (rule working_grows [OF w su])
  let ?L = "nodes u l"
  have hs: "highest_seen_vs ?L = highest_seen_vs (nodes s l)" using su by (simp add: grows_def)
  have iu: "lead_inv E v N l (nodes u) ?L" "lead_inv E v N l (nodes s) (nodes s l)"
    using w wu by (simp_all add: working_def group_inv_def)
  have ft: "\<forall>k \<in> keys_to v (highest_seen_vs ?L). \<forall>d. holds E ?L k d \<longrightarrow> fits d"
  proof (intro ballI allI impI)
    fix k d
    assume k: "k \<in> keys_to v (highest_seen_vs ?L)" "holds E ?L k d"
    then obtain d' where d': "holds E (nodes s l) k d'"
      using iu(2) by (fastforce simp: hs lead_inv_def backed_def holds_def)
    then have "holds E ?L k d'" using su k(1) by (simp add: grows_def lead_mono_def)
    with k d' assms(8) show "fits d" using holds_unique hs by metis
  qed
  have q: "quorate E ?L k"
    if "vstol (highest_committed_vs ?L) < k \<and> k \<le> vstol (highest_seen_vs ?L)" for k
  proof -
    have "vstol (VS v 0) \<le> vstol (highest_committed_vs ?L)"
      using iu(1) unfolding vstol_le_iff by (simp add: lead_inv_def within_def)
    with that have k: "k \<in> keys_to v (highest_seen_vs ?L)"
      unfolding keys_to_def by (blast intro: le_less_trans)
    with u(2) that show ?thesis
      by (intro counted_quorate [OF iu(1) assms(3,5) k]) (simp_all add: hs)
  qed
  from leader_asks [OF wu assms(2) ft] q obtain x where x: "grows E N l v S u x"
    "highest_committed_vs (nodes x l) = highest_seen_vs ?L" by blast
  have sx: "grows E N l v S s x" by (rule grows_trans [OF su x(1)])
  have "lead_inv E v N l (nodes x) (nodes x l)"
    using working_grows [OF w sx] by (simp add: working_def group_inv_def)
  then have "user_cbs (effects (nodes x l)) = map announce (keys_after (VS v 0) (highest_seen_vs (nodes s l)))"
    using x(2) hs by (simp add: lead_inv_def)
  with sx show ?thesis by (auto simp: grows_def)
qed

section \<open>The run of three nodes\<close>

lemma mem_env_generous: "generous mem_env"
  using mem_env_bdb mem_env_malloc glibc_usable_ge
  by (auto simp: generous_def mem_env_def glibc_usable_def)

lemma run_equipped: "equipped 1 0 (run_node i)" "equipped 1 0 run_leader"
proof -
  show n: "equipped 1 0 (run_node i)" for i
    by (simp add: equipped_def run_node_def consensus_update_role_def Let_def demo_comp_def)
  obtain ret vs where "consensus_submit_request mem_env 1 [7] (run_node 0) = Some (ret, vs, run_leader)"
    using run_evaluated(1) by (auto simp: run_leader_def)
  from equipped_same [OF consensus_submit_request_frame [OF this] n] show "equipped 1 0 run_leader" .
qed

lemma run_record_evaluated:
  "map_option length (snd (retrieve mem_env run_leader 0x100000001)) = Some 34"
  by code_simp

lemma run_keys_evaluated: "keys_after (VS 1 0) (VS 1 1) = [0x100000001]"
proof -
  have "vstol (VS 1 0) = 0x100000000" "vstol (VS 1 1) = 0x100000001" by code_simp+
  then show ?thesis by (simp add: key_range_Cons)
qed

lemma run_fits:
  assumes "k \<in> keys_to 1 (highest_seen_vs run_leader)" "holds mem_env run_leader k d"
  shows "fits d"
proof -
  have "VS 1 1 = view_stamp_inc (VS 1 0)" "keys_to 1 (VS 1 0) = {}" "vstol (VS 1 1) = 0x100000001"
    by (auto simp: view_stamp_inc_def keys_to_def) code_simp
  with assms(1) have "k = 0x100000001"
    using next_key(4) [of "VS 1 0" 1] by (simp add: run_evaluated)
  with assms(2) run_record_evaluated show ?thesis
    by (auto simp: holds_def fits_def length_enc)
qed

theorem majority_makes_progress_witness:
  "\<exists>t. (group_step mem_env 3)\<^sup>*\<^sup>* (post 0 run_leader run_group) t \<and> nodes t 2 = run_node 2 \<and>
     user_cbs (effects (nodes t 0)) = [announce 0x100000001]"
proof -
  let ?s = "post 0 run_leader run_group"
  have r: "group_reach mem_env 3 0 1 ?s"
    unfolding group_reach_def using run_steps(1,2) by blast
  have n: "nodes ?s 0 = run_leader" "nodes ?s 1 = run_node 1" "nodes ?s 2 = run_node 2"
    by (simp_all add: post_def run_group_def)
  have S: "{0, 1 :: nat} \<subseteq> {..<3}" "0 \<in> {0, 1 :: nat}" "3 < 2 * card {0, 1 :: nat}" by auto
  have e: "\<forall>i \<in> {0, 1}. equipped 1 0 (nodes ?s i)" using run_equipped n by simp
  have rm: "room (nodes ?s 0)" unfolding n by (simp add: room_def run_evaluated)
  have f: "\<forall>k \<in> keys_to 1 (highest_seen_vs (nodes ?s 0)). \<forall>d. holds mem_env (nodes ?s 0) k d \<longrightarrow> fits d"
    unfolding n using run_fits by blast
  from majority_makes_progress [OF r mem_env_generous S e rm f] obtain t where
    t: "(group_step mem_env 3)\<^sup>*\<^sup>* ?s t" "\<forall>i. i \<notin> {0, 1} \<longrightarrow> nodes t i = nodes ?s i"
      "user_cbs (effects (nodes t 0)) = map announce (keys_after (VS 1 0) (highest_seen_vs run_leader))"
    unfolding n by blast
  from t(2) have "nodes t 2 = run_node 2" using n(3) by simp
  with t(1,3) show ?thesis by (auto simp: run_evaluated run_keys_evaluated)
qed

end
