(* ===== verification/ReplicaMsg.thy ===== *)
theory ReplicaMsg
  imports ConsensusMsg
begin

text \<open>
  \<open>src/src/include/replica-sys/message.h\<close>, \<open>src/src/replica-sys/message.c\<close> and
  \<open>src/src/include/leader-election/view_controller.h\<close>: the messages that nodes exchange, the
  state of the leader election module and the builders of the messages. As for the consensus
  messages a struct is a record with an encoder and a decoder; fields and padding that a builder
  does not write hold what was in the fresh block.
\<close>

section \<open>Codes\<close>

datatype sys_msg_code =
    PING_REQ | PING_ACK | REQUEST_SUBMIT | REQUEST_SUBMIT_REPLY | REQUEST_CHECK | CONSENSUS_MSG
  | CLIENT_SYNC_REQ | CLIENT_SYNC_ACK | LEADER_ELECTION_MSG

fun sys_msg_code_val :: "sys_msg_code \<Rightarrow> u32" where
  "sys_msg_code_val PING_REQ = 0"
| "sys_msg_code_val PING_ACK = 1"
| "sys_msg_code_val REQUEST_SUBMIT = 2"
| "sys_msg_code_val REQUEST_SUBMIT_REPLY = 3"
| "sys_msg_code_val REQUEST_CHECK = 4"
| "sys_msg_code_val CONSENSUS_MSG = 5"
| "sys_msg_code_val CLIENT_SYNC_REQ = 11"
| "sys_msg_code_val CLIENT_SYNC_ACK = 12"
| "sys_msg_code_val LEADER_ELECTION_MSG = 16"

datatype lele_msg_type =
    LELE_PREPARE | LELE_PREPARE_ACK | LELE_ACCEPT | LELE_ACCEPT_ACK | LELE_ANNOUNCE
  | LELE_ANNOUNCE_ACK | LELE_FIN | LELE_LAGGED | LELE_HIGHER_NODE

fun lele_val :: "lele_msg_type \<Rightarrow> u32" where
  "lele_val LELE_PREPARE = 0"
| "lele_val LELE_PREPARE_ACK = 1"
| "lele_val LELE_ACCEPT = 2"
| "lele_val LELE_ACCEPT_ACK = 3"
| "lele_val LELE_ANNOUNCE = 4"
| "lele_val LELE_ANNOUNCE_ACK = 5"
| "lele_val LELE_FIN = 6"
| "lele_val LELE_LAGGED = 7"
| "lele_val LELE_HIGHER_NODE = 8"

text \<open>A \<open>switch\<close> over one of these codes finds the constructor with that value.\<close>

definition code_find :: "('c \<Rightarrow> u32) \<Rightarrow> 'c list \<Rightarrow> u32 \<Rightarrow> 'c option" where
  "code_find val codes w = find (\<lambda>c. val c = w) codes"

definition sys_msg_code_of :: "u32 \<Rightarrow> sys_msg_code option" where
  "sys_msg_code_of = code_find sys_msg_code_val
     [PING_REQ, PING_ACK, REQUEST_SUBMIT, REQUEST_SUBMIT_REPLY, REQUEST_CHECK, CONSENSUS_MSG,
      CLIENT_SYNC_REQ, CLIENT_SYNC_ACK, LEADER_ELECTION_MSG]"

definition lele_of :: "u32 \<Rightarrow> lele_msg_type option" where
  "lele_of = code_find lele_val
     [LELE_PREPARE, LELE_PREPARE_ACK, LELE_ACCEPT, LELE_ACCEPT_ACK, LELE_ANNOUNCE,
      LELE_ANNOUNCE_ACK, LELE_FIN, LELE_LAGGED, LELE_HIGHER_NODE]"

lemma sys_msg_code_roundtrip [simp]: "sys_msg_code_of (sys_msg_code_val c) = Some c"
  by (cases c) (simp_all add: sys_msg_code_of_def code_find_def)

lemma lele_roundtrip [simp]: "lele_of (lele_val c) = Some c"
  by (cases c) (simp_all add: lele_of_def code_find_def)

section \<open>The state of a leader election\<close>

type_synonym pnum_t = i64

record proposer_record =
  pr_p_pnum :: pnum_t
  pr_a_pnum :: pnum_t
  pr_content :: node_id_t

record accepted_record =
  lr_pnum :: pnum_t
  lr_content :: node_id_t
  lr_last_req :: req_id_t

record acceptor_record =
  highest_seen_pnum :: pnum_t
  accepted_pnum :: pnum_t
  ac_content :: node_id_t

record leader_election_edge_mod =
  msg_count :: "i32 list option"
  req_edge :: "u32 list option"
  edge_start :: req_id_t
  edge_end :: req_id_t
  cur_empty_slots :: i32
  max_empty_slots :: i32

text \<open>An event with a timeout is pending with the time it was added with, or not pending.\<close>

type_synonym timer = "timeval option"

record lele_mod =
  final_state :: i32
  next_view :: view_id_t
  new_leader :: node_id_t
  next_pnum :: pnum_t
  edge :: leader_election_edge_mod
  acceptor :: acceptor_record
  learner_arr :: "accepted_record list"
  proposer_arr :: "proposer_record list"
  slient_period :: "timer ptr"
  announce_ack_msg :: "bytes option"

section \<open>Messages\<close>

record sys_msg_header =
  sh_type :: u32
  sh_data_size :: u64

record ping_msg =
  pm_node_id :: node_id_t
  pm_view :: view
  pm_timestamp :: timeval

record lele_msg =
  lm_type :: u32
  lm_node_id :: node_id_t
  lm_next_view :: view_id_t
  lm_pnum :: pnum_t
  lm_p_pnum :: pnum_t
  lm_content :: node_id_t
  lm_last_req :: req_id_t
  lm_start_req :: req_id_t

abbreviation SYS_MSG_HEADER_SIZE :: nat where "SYS_MSG_HEADER_SIZE \<equiv> 16"
abbreviation PING_REQ_SIZE :: nat where "PING_REQ_SIZE \<equiv> 64"
abbreviation PING_ACK_SIZE :: nat where "PING_ACK_SIZE \<equiv> 64"
abbreviation LELE_MSG_SIZE :: nat where "LELE_MSG_SIZE \<equiv> 56"
abbreviation LEADER_ELECTION_MSG_SIZE :: nat where "LEADER_ELECTION_MSG_SIZE \<equiv> 72"
abbreviation VIEW_SIZE :: nat where "VIEW_SIZE \<equiv> 24"
abbreviation ACCEPTOR_REC_SIZE :: nat where "ACCEPTOR_REC_SIZE \<equiv> 24"

definition enc_header :: "u32 \<Rightarrow> sys_msg_header \<Rightarrow> bytes" where
  "enc_header pad h = le 4 (sh_type h) @ le 4 pad @ le 8 (sh_data_size h)"

definition dec_header :: "bytes \<Rightarrow> sys_msg_header option" where
  "dec_header blk = do {
     t \<leftarrow> ld 4 0 blk;
     s \<leftarrow> ld 8 8 blk;
     Some \<lparr>sh_type = t, sh_data_size = s\<rparr>
   }"

definition enc_view :: "u32 \<Rightarrow> u32 \<Rightarrow> view \<Rightarrow> bytes" where
  "enc_view pad pad' v = le 4 (v_view_id v) @ le 4 pad @ le 8 (v_leader_id v) @ le 4 (v_req_id v) @
     le 4 pad'"

definition dec_view :: "nat \<Rightarrow> bytes \<Rightarrow> view option" where
  "dec_view off blk = do {
     v \<leftarrow> ld 4 off blk;
     l \<leftarrow> ld 8 (off + 8) blk;
     r \<leftarrow> ld 4 (off + 16) blk;
     Some \<lparr>v_view_id = v, v_leader_id = l, v_req_id = r\<rparr>
   }"

definition enc_ping :: "u32 \<Rightarrow> u32 \<Rightarrow> ping_msg \<Rightarrow> bytes" where
  "enc_ping pad pad' m = le 8 (pm_node_id m) @ enc_view pad pad' (pm_view m) @
     enc_timeval (pm_timestamp m)"

definition dec_ping :: "bytes \<Rightarrow> ping_msg option" where
  "dec_ping blk = do {
     n \<leftarrow> ld 8 16 blk;
     v \<leftarrow> dec_view 24 blk;
     t \<leftarrow> dec_timeval 48 blk;
     Some \<lparr>pm_node_id = n, pm_view = v, pm_timestamp = t\<rparr>
   }"

definition enc_lele_msg :: "u32 \<Rightarrow> u32 \<Rightarrow> lele_msg \<Rightarrow> bytes" where
  "enc_lele_msg pad pad' m = le 4 (lm_type m) @ le 4 pad @ le 8 (lm_node_id m) @
     le 4 (lm_next_view m) @ le 4 pad' @ le 8 (lm_pnum m) @ le 8 (lm_p_pnum m) @
     le 8 (lm_content m) @ le 4 (lm_last_req m) @ le 4 (lm_start_req m)"

definition dec_lele_msg :: "bytes \<Rightarrow> lele_msg option" where
  "dec_lele_msg blk = do {
     t \<leftarrow> ld 4 16 blk;
     n \<leftarrow> ld 8 24 blk;
     v \<leftarrow> ld 4 32 blk;
     p \<leftarrow> ld 8 40 blk;
     q \<leftarrow> ld 8 48 blk;
     c \<leftarrow> ld 8 56 blk;
     l \<leftarrow> ld 4 64 blk;
     s \<leftarrow> ld 4 68 blk;
     Some \<lparr>lm_type = t, lm_node_id = n, lm_next_view = v, lm_pnum = p, lm_p_pnum = q,
       lm_content = c, lm_last_req = l, lm_start_req = s\<rparr>
   }"

definition enc_acceptor_record :: "acceptor_record \<Rightarrow> bytes" where
  "enc_acceptor_record a = le 8 (highest_seen_pnum a) @ le 8 (accepted_pnum a) @ le 8 (ac_content a)"

lemma length_enc_msg [simp, layout]:
  "length (enc_header pad h) = SYS_MSG_HEADER_SIZE"
  "length (enc_view pad pad' v) = VIEW_SIZE"
  "length (enc_ping pad pad' m) = 48"
  "length (enc_lele_msg pad pad' lm) = LELE_MSG_SIZE"
  "length (enc_acceptor_record a) = ACCEPTOR_REC_SIZE"
  by (simp_all add: enc_header_def enc_view_def enc_ping_def enc_lele_msg_def
      enc_acceptor_record_def)

lemma dec_view_skip [layout]:
  "length xs \<le> off \<Longrightarrow> dec_view off (xs @ rest) = dec_view (off - length xs) rest"
  by (auto simp: dec_view_def layout)

lemma dec_view_here [layout]: "dec_view 0 (enc_view pad pad' v @ rest) = Some v"
  by (simp add: dec_view_def enc_view_def layout)

lemma dec_view_here_nil [layout]: "dec_view 0 (enc_view pad pad' v) = Some v"
  using dec_view_here [of pad pad' v "[]"] by simp

lemma dec_timeval_skip [layout]:
  "length xs \<le> off \<Longrightarrow> dec_timeval off (xs @ rest) = dec_timeval (off - length xs) rest"
  by (auto simp: dec_timeval_def layout)

interpretation header: codec "\<lambda>_. True" "enc_header pad" dec_header for pad
  by unfold_locales (simp add: enc_header_def dec_header_def layout)

interpretation view: codec "\<lambda>_. True" "enc_view pad pad'" "dec_view 0" for pad pad'
  by unfold_locales (simp add: layout)

interpretation ping: codec "\<lambda>_. True" "\<lambda>m. enc_header p h @ enc_ping pad pad' m" dec_ping
  for p h pad pad'
  by unfold_locales (simp add: enc_ping_def dec_ping_def layout)

interpretation lele: codec "\<lambda>_. True" "\<lambda>m. enc_header p h @ enc_lele_msg pad pad' m" dec_lele_msg
  for p h pad pad'
  by unfold_locales (simp add: enc_lele_msg_def dec_lele_msg_def layout)

section \<open>Builders\<close>

text \<open>\<open>build_ping_req\<close> clears the block before it tests for \<open>NULL\<close>.\<close>

definition build_ping_req :: "'d env \<Rightarrow> i32 \<Rightarrow> view \<Rightarrow> bytes option" where
  "build_ping_req E node_id cur_view = do {
     allocated \<leftarrow> alloc_fill E PING_REQ_SIZE
       (enc_header 0 \<lparr>sh_type = sys_msg_code_val PING_REQ, sh_data_size = 48\<rparr> @
        enc_ping 0 0 \<lparr>pm_node_id = scast node_id, pm_view = cur_view, pm_timestamp = now E\<rparr>);
     allocated
   }"

definition build_ping_ack :: "'d env \<Rightarrow> i32 \<Rightarrow> view \<Rightarrow> bytes option option" where
  "build_ping_ack E node_id cur_view =
     alloc_fill E PING_ACK_SIZE
       (enc_header (junk32 E 4) \<lparr>sh_type = sys_msg_code_val PING_ACK, sh_data_size = 48\<rparr> @
        enc_ping (junk32 E 28) (junk32 E 44)
          \<lparr>pm_node_id = scast node_id, pm_view = cur_view, pm_timestamp = now E\<rparr>)"

definition build_consensus_msg :: "'d env \<Rightarrow> u32 \<Rightarrow> bytes \<Rightarrow> bytes option option" where
  "build_consensus_msg E data_size data =
     (if malloc_usable E (SYS_MSG_HEADER_SIZE + unat data_size) = None then Some None
      else do {
        payload \<leftarrow> ld_bytes (unat data_size) 0 data;
        alloc_fill E (SYS_MSG_HEADER_SIZE + unat data_size)
          (enc_header (junk32 E 4)
             \<lparr>sh_type = sys_msg_code_val CONSENSUS_MSG, sh_data_size = ucast data_size\<rparr> @ payload)
      })"

text \<open>A fresh election message, and the bytes that are sent for one.\<close>

definition junk_lele :: "'d env \<Rightarrow> lele_msg" where
  "junk_lele E =
     \<lparr>lm_type = junk32 E 16, lm_node_id = junk64 E 24, lm_next_view = junk32 E 32,
      lm_pnum = junk64 E 40, lm_p_pnum = junk64 E 48, lm_content = junk64 E 56,
      lm_last_req = junk32 E 64, lm_start_req = junk32 E 68\<rparr>"

definition lele_bytes :: "'d env \<Rightarrow> lele_msg \<Rightarrow> bytes" where
  "lele_bytes E m =
     enc_header (junk32 E 4) \<lparr>sh_type = sys_msg_code_val LEADER_ELECTION_MSG, sh_data_size = 56\<rparr> @
     enc_lele_msg (junk32 E 20) (junk32 E 36) m"

definition build_lele_msg ::
  "'d env \<Rightarrow> node_id_t \<Rightarrow> lele_mod \<Rightarrow> lele_msg_type \<Rightarrow> lele_msg option \<Rightarrow> lele_msg option" where
  "build_lele_msg E node_id md type corr_msg = do {
     _ \<leftarrow> malloc_usable E LEADER_ELECTION_MSG_SIZE;
     let m = (junk_lele E)\<lparr>lm_node_id := node_id, lm_next_view := next_view md\<rparr>;
     (case type of
        LELE_PREPARE \<Rightarrow> Some (m\<lparr>lm_type := lele_val LELE_PREPARE, lm_pnum := next_pnum md,
          lm_content := - 1, lm_p_pnum := - 1\<rparr>)
      | LELE_PREPARE_ACK \<Rightarrow> Some (m\<lparr>lm_type := lele_val LELE_PREPARE_ACK,
          lm_pnum := accepted_pnum (acceptor md), lm_content := ac_content (acceptor md),
          lm_p_pnum := highest_seen_pnum (acceptor md)\<rparr>)
      | LELE_ACCEPT \<Rightarrow> do {
          c \<leftarrow> corr_msg;
          Some (m\<lparr>lm_type := lele_val LELE_ACCEPT, lm_pnum := lm_pnum c,
            lm_content := lm_content c, lm_p_pnum := - 1\<rparr>)
        }
      | LELE_ACCEPT_ACK \<Rightarrow> Some (m\<lparr>lm_type := lele_val LELE_ACCEPT_ACK,
          lm_pnum := accepted_pnum (acceptor md), lm_content := ac_content (acceptor md),
          lm_last_req := - 1\<rparr>)
      | LELE_ANNOUNCE \<Rightarrow> do {
          c \<leftarrow> corr_msg;
          Some (m\<lparr>lm_type := lele_val LELE_ANNOUNCE, lm_pnum := lm_pnum c,
            lm_content := lm_content c, lm_last_req := lm_last_req c\<rparr>)
        }
      | LELE_HIGHER_NODE \<Rightarrow> Some m
      | LELE_LAGGED \<Rightarrow> do {
          c \<leftarrow> corr_msg;
          Some (m\<lparr>lm_type := lele_val LELE_LAGGED, lm_next_view := lm_next_view c,
            lm_content := lm_content c\<rparr>)
        }
      | _ \<Rightarrow> Some m)
   }"

end
