(* ===== verification/Node.thy ===== *)
theory Node
  imports ReplicaMsg Consensus
begin

text \<open>
  \<open>src/src/include/replica-sys/node.h\<close> and the first part of
  \<open>src/src/replica-sys/replica.c\<close>: the node, its timers and connections, sending, and the
  change of view.

  The node's record extends the consensus component's, whose pointers lead into the node. An
  event is a pointer to a timer; adding, deleting or freeing it through \<open>NULL\<close> or after it was
  freed has no result. A bufferevent is the list of the chunks written to it. \<open>CHECK_EXIT\<close>,
  which asks libevent to leave its loop once the signal handler has set \<open>exit_flag\<close>, is modelled
  where a callback returns to libevent; the functions that a callback calls run the same test,
  to the same effect.
\<close>

section \<open>State\<close>

datatype node_state_code = NODE_ACTIVE | NODE_INLELE | NODE_POSTLELE | NODE_WAITFORSYNC

type_synonym conn = "bytes list"

record peer =
  peer_id :: i32
  active :: bool
  sock_id :: i32
  peer_address :: "(string \<times> u16) ptr"
  my_buff_event :: "conn ptr"
  reconnect :: "timer ptr"

record node_config =
  reconnect_timeval :: timeval
  ping_timeval :: timeval
  expect_ping_timeval :: timeval
  make_progress_timeval :: timeval

record 'd node = "'d consensus_component" +
  node_id :: node_id_t
  node_stat_log :: int
  node_sys_log :: int
  node_state :: node_state_code
  election_mod :: "lele_mod option"
  consensus_comp :: "unit ptr"
  my_address :: "string \<times> u16"
  group_size :: u32
  peer_pool :: "peer list"
  config :: node_config
  listener :: "unit ptr"
  event_base :: "unit ptr"
  msg_cb_set :: bool
  ev_leader_ping :: "timer ptr"
  ev_expect_ping :: "timer ptr"
  ev_make_progress :: "timer ptr"
  last_ping_msg :: timeval
  node_db_name :: string
  node_db_ptr :: "db option"
  user_calls :: "(u64 \<times> bytes) list"
  exit_flag :: bool
  loop_exit :: bool

text \<open>\<open>CHECK_EXIT\<close>.\<close>

definition check_exit :: "('d, 'z) node_scheme \<Rightarrow> ('d, 'z) node_scheme" where
  "check_exit n = (if exit_flag n then n\<lparr>loop_exit := True\<rparr> else n)"

definition node_sys_sig_handler :: "('d, 'z) node_scheme \<Rightarrow> ('d, 'z) node_scheme" where
  "node_sys_sig_handler n = n\<lparr>exit_flag := True\<rparr>"

section \<open>Timers\<close>

definition evtimer_new :: "'d env \<Rightarrow> timer ptr" where
  "evtimer_new E = (if event_new_ok E then Ptr None else NULL)"

fun event_add :: "timer ptr \<Rightarrow> timeval \<Rightarrow> timer ptr option" where
  "event_add (Ptr _) t = Some (Ptr (Some t))"
| "event_add _ t = None"

fun event_del :: "timer ptr \<Rightarrow> timer ptr option" where
  "event_del (Ptr _) = Some (Ptr None)"
| "event_del _ = None"

fun event_free :: "timer ptr \<Rightarrow> timer ptr option" where
  "event_free (Ptr _) = Some Dangling"
| "event_free _ = None"

section \<open>Sending\<close>

definition peer_at :: "('d, 'z) node_scheme \<Rightarrow> int \<Rightarrow> peer option" where
  "peer_at n i =
     (if 0 \<le> i \<and> i < int (length (peer_pool n)) then Some (peer_pool n ! nat i) else None)"

definition set_peer :: "int \<Rightarrow> peer \<Rightarrow> ('d, 'z) node_scheme \<Rightarrow> ('d, 'z) node_scheme" where
  "set_peer i p n = n\<lparr>peer_pool := (peer_pool n)[nat i := p]\<rparr>"

fun bufferevent_write :: "conn ptr \<Rightarrow> bytes \<Rightarrow> conn ptr option" where
  "bufferevent_write (Ptr ws) data = Some (Ptr (ws @ [data]))"
| "bufferevent_write _ data = None"

definition send_to_one_node ::
  "node_id_t \<Rightarrow> bytes \<Rightarrow> ('d, 'z) node_scheme \<Rightarrow> ('d, 'z) node_scheme option" where
  "send_to_one_node target data n = do {
     p \<leftarrow> peer_at n (sint target);
     if active p then do {
       buff \<leftarrow> bufferevent_write (my_buff_event p) data;
       Some (set_peer (sint target) (p\<lparr>my_buff_event := buff\<rparr>) n)
     }
     else Some n
   }"

fun send_each :: "nat list \<Rightarrow> bytes \<Rightarrow> ('d, 'z) node_scheme \<Rightarrow> ('d, 'z) node_scheme option" where
  "send_each [] data n = Some n"
| "send_each (i # is) data n =
     (if int i \<noteq> sint (node_id n) then do {
        p \<leftarrow> peer_at n (int i);
        n \<leftarrow> (if active p then do {
            buff \<leftarrow> bufferevent_write (my_buff_event p) data;
            Some (set_peer (int i) (p\<lparr>my_buff_event := buff\<rparr>) n)
          } else Some n);
        send_each is data n
      }
      else send_each is data n)"

definition send_to_other_nodes ::
  "bytes \<Rightarrow> ('d, 'z) node_scheme \<Rightarrow> ('d, 'z) node_scheme option" where
  "send_to_other_nodes data n = send_each [0..<unat (group_size n)] data n"

text \<open>The consensus component's way to the network, and the calls it collects.\<close>

definition send_for_consensus_comp ::
  "'d env \<Rightarrow> u64 \<Rightarrow> bytes \<Rightarrow> i32 \<Rightarrow> ('d, 'z) node_scheme \<Rightarrow> ('d, 'z) node_scheme option" where
  "send_for_consensus_comp E data_size data target n = do {
     m \<leftarrow> build_consensus_msg E (ucast data_size) data;
     (case m of
        None \<Rightarrow> Some n
      | Some msg \<Rightarrow>
          if target <s 0 then send_to_other_nodes msg n
          else send_to_one_node (scast target) msg n)
   }"

fun drain_effects ::
  "'d env \<Rightarrow> effect list \<Rightarrow> ('d, 'z) node_scheme \<Rightarrow> ('d, 'z) node_scheme option" where
  "drain_effects E [] n = Some n"
| "drain_effects E (Upcall m t # es) n = do {
     n \<leftarrow> send_for_consensus_comp E (of_nat (length m)) m t n;
     drain_effects E es n
   }"
| "drain_effects E (UserCb s b # es) n =
     drain_effects E es (n\<lparr>user_calls := user_calls n @ [(s, b)]\<rparr>)"

definition run_consensus ::
  "'d env \<Rightarrow> (('d, 'z) node_scheme \<Rightarrow> ('d, 'z) node_scheme option) \<Rightarrow> ('d, 'z) node_scheme \<Rightarrow>
    ('d, 'z) node_scheme option" where
  "run_consensus E f n = do {
     n \<leftarrow> f (n\<lparr>effects := []\<rparr>);
     drain_effects E (effects n) (n\<lparr>effects := []\<rparr>)
   }"

section \<open>Peer connections\<close>

text \<open>
  The new bufferevent is used before it is tested; on a connection event \<open>what\<close> is one of the
  kinds the code tells apart.
\<close>

datatype bev_event = BEV_CONNECTED | BEV_EOF | BEV_ERROR | BEV_OTHER

definition connect_peer ::
  "'d env \<Rightarrow> int \<Rightarrow> ('d, 'z) node_scheme \<Rightarrow> ('d, 'z) node_scheme option" where
  "connect_peer E i n = do {
     p \<leftarrow> peer_at n i;
     if bufferevent_new_ok E then Some (set_peer i (p\<lparr>my_buff_event := Ptr []\<rparr>) n) else None
   }"

definition peer_node_on_event ::
  "int \<Rightarrow> bev_event \<Rightarrow> ('d, 'z) node_scheme \<Rightarrow> ('d, 'z) node_scheme option" where
  "peer_node_on_event i ev n = do {
     p \<leftarrow> peer_at n i;
     n \<leftarrow> (case ev of
         BEV_CONNECTED \<Rightarrow> Some (set_peer i (p\<lparr>active := True\<rparr>) n)
       | BEV_OTHER \<Rightarrow> Some n
       | _ \<Rightarrow> do {
           r \<leftarrow> event_add (reconnect p) (reconnect_timeval (config n));
           Some (set_peer i (p\<lparr>active := False, my_buff_event := NULL, reconnect := r\<rparr>) n)
         });
     Some (check_exit n)
   }"

definition peer_node_on_timeout ::
  "'d env \<Rightarrow> int \<Rightarrow> ('d, 'z) node_scheme \<Rightarrow> ('d, 'z) node_scheme option" where
  "peer_node_on_timeout E i n = map_option check_exit (connect_peer E i n)"

fun connect_each ::
  "'d env \<Rightarrow> nat list \<Rightarrow> ('d, 'z) node_scheme \<Rightarrow> ('d, 'z) node_scheme option" where
  "connect_each E [] n = Some n"
| "connect_each E (i # is) n =
     (if int i \<noteq> sint (node_id n) then do {
        p \<leftarrow> peer_at n (int i);
        n \<leftarrow> connect_peer E (int i) (set_peer (int i) (p\<lparr>reconnect := evtimer_new E\<rparr>) n);
        connect_each E is n
      }
      else connect_each E is n)"

definition connect_peers ::
  "'d env \<Rightarrow> ('d, 'z) node_scheme \<Rightarrow> ('d, 'z) node_scheme option" where
  "connect_peers E n = connect_each E [0..<unat (group_size n)] n"

section \<open>Pings and progress\<close>

definition initialize_leader_ping ::
  "'d env \<Rightarrow> ('d, 'z) node_scheme \<Rightarrow> (int \<times> ('d, 'z) node_scheme) option" where
  "initialize_leader_ping E n =
     (let n = (if ev_leader_ping n = NULL then n\<lparr>ev_leader_ping := evtimer_new E\<rparr> else n) in
      if ev_leader_ping n = NULL then Some (1, n)
      else do {
        n \<leftarrow> (if ev_expect_ping n \<noteq> NULL then do {
            e \<leftarrow> event_del (ev_expect_ping n);
            Some (n\<lparr>ev_expect_ping := e\<rparr>)
          } else Some n);
        e \<leftarrow> event_add (ev_leader_ping n) (ping_timeval (config n));
        Some (0, n\<lparr>ev_leader_ping := e\<rparr>)
      })"

definition initialize_expect_ping ::
  "'d env \<Rightarrow> ('d, 'z) node_scheme \<Rightarrow> (int \<times> ('d, 'z) node_scheme) option" where
  "initialize_expect_ping E n =
     (let n = (if ev_expect_ping n = NULL then n\<lparr>ev_expect_ping := evtimer_new E\<rparr> else n) in
      if ev_expect_ping n = NULL then Some (1, n)
      else do {
        n \<leftarrow> (if ev_leader_ping n \<noteq> NULL then do {
            e \<leftarrow> event_del (ev_leader_ping n);
            Some (n\<lparr>ev_leader_ping := e\<rparr>)
          } else Some n);
        e \<leftarrow> event_del (ev_expect_ping n);
        e \<leftarrow> event_add e (expect_ping_timeval (config n));
        Some (0, n\<lparr>ev_expect_ping := e\<rparr>)
      })"

definition initialize_leader_make_progress ::
  "'d env \<Rightarrow> ('d, 'z) node_scheme \<Rightarrow> (int \<times> ('d, 'z) node_scheme) option" where
  "initialize_leader_make_progress E n =
     (let n = (if ev_make_progress n = NULL then n\<lparr>ev_make_progress := evtimer_new E\<rparr> else n) in
      if ev_make_progress n = NULL then Some (1, n)
      else do {
        e \<leftarrow> event_add (ev_make_progress n) (make_progress_timeval (config n));
        Some (0, n\<lparr>ev_make_progress := e\<rparr>)
      })"

text \<open>The callbacks of the two timers: \<open>event_free\<close> does not clear the node's pointer.\<close>

definition leader_ping_period ::
  "'d env \<Rightarrow> ('d, 'z) node_scheme \<Rightarrow> ('d, 'z) node_scheme option" where
  "leader_ping_period E n = do {
     n \<leftarrow> (if v_leader_id (cur_view n) \<noteq> node_id n then
         if ev_leader_ping n \<noteq> NULL then do {
           e \<leftarrow> event_free (ev_leader_ping n);
           (ret, n) \<leftarrow> initialize_expect_ping E (n\<lparr>ev_leader_ping := e\<rparr>);
           Some n
         } else Some n
       else do {
         ping_req \<leftarrow> build_ping_req E (ucast (node_id n)) (cur_view n);
         n \<leftarrow> send_to_other_nodes ping_req n;
         if ev_leader_ping n \<noteq> NULL then do {
           e \<leftarrow> event_add (ev_leader_ping n) (ping_timeval (config n));
           Some (n\<lparr>ev_leader_ping := e\<rparr>)
         } else Some n
       });
     Some (check_exit n)
   }"

definition make_progress_on ::
  "'d env \<Rightarrow> ('d, 'z) node_scheme \<Rightarrow> ('d, 'z) node_scheme option" where
  "make_progress_on E n = do {
     n \<leftarrow> (if v_leader_id (cur_view n) \<noteq> node_id n then
         if ev_make_progress n \<noteq> NULL then do {
           e \<leftarrow> event_free (ev_make_progress n);
           (ret, n) \<leftarrow> initialize_leader_make_progress E (n\<lparr>ev_make_progress := e\<rparr>);
           Some n
         } else Some n
       else do {
         n \<leftarrow> (case consensus_comp n of
             NULL \<Rightarrow> Some n
           | Ptr _ \<Rightarrow> run_consensus E (consensus_make_progress E) n
           | Dangling \<Rightarrow> None);
         if ev_make_progress n \<noteq> NULL then do {
           e \<leftarrow> event_add (ev_make_progress n) (make_progress_timeval (config n));
           Some (n\<lparr>ev_make_progress := e\<rparr>)
         } else Some n
       });
     Some (check_exit n)
   }"

section \<open>Change of view\<close>

definition node_isLeader :: "('d, 'z) node_scheme \<Rightarrow> bool" where
  "node_isLeader n \<longleftrightarrow> v_leader_id (cur_view n) = node_id n"

definition update_role ::
  "('d, 'z) node_scheme \<Rightarrow> ('d, 'z) node_scheme option" where
  "update_role n =
     (case consensus_comp n of Ptr _ \<Rightarrow> Some (consensus_update_role n) | _ \<Rightarrow> None)"

definition become_leader ::
  "'d env \<Rightarrow> ('d, 'z) node_scheme \<Rightarrow> ('d, 'z) node_scheme option" where
  "become_leader E n = do {
     n \<leftarrow> update_role n;
     (ret, n) \<leftarrow> initialize_leader_ping E n;
     Some n
   }"

definition become_secondary ::
  "'d env \<Rightarrow> ('d, 'z) node_scheme \<Rightarrow> ('d, 'z) node_scheme option" where
  "become_secondary E n = do {
     n \<leftarrow> update_role n;
     (ret, n) \<leftarrow> initialize_expect_ping E n;
     Some n
   }"

text \<open>
  The view boundary is stored with \<open>&new_view_info\<close> as the data, where \<open>new_view_info\<close> is the
  pointer parameter: 24 bytes of the stack from that variable on. The loop gives up, by an
  assertion, when a tenth attempt fails.
\<close>

definition stack_bytes :: "'d env \<Rightarrow> bytes" where
  "stack_bytes E = map (junk E) [0..<VIEW_SIZE]"

primrec store_view_loop ::
  "'d env \<Rightarrow> nat \<Rightarrow> db_key_type \<Rightarrow> ('d, 'z) node_scheme \<Rightarrow> ('d, 'z) node_scheme option" where
  "store_view_loop E 0 record_no n = None"
| "store_view_loop E (Suc attempts) record_no n =
     (let (ret, d) = store_record E (node_db_ptr n) record_no (stack_bytes E) (disk n) in
      if ret \<noteq> 0 then store_view_loop E attempts record_no (n\<lparr>disk := d\<rparr>)
      else Some (n\<lparr>disk := d\<rparr>))"

definition update_view ::
  "'d env \<Rightarrow> view \<Rightarrow> ('d, 'z) node_scheme \<Rightarrow> ('d, 'z) node_scheme option" where
  "update_view E new_view_info n =
     (if v_view_id (cur_view n) + 1 = v_view_id new_view_info then do {
        n \<leftarrow> (if v_view_id new_view_info \<noteq> 1 then do {
            let record_no = vstol (VS (v_view_id new_view_info) 0);
            n \<leftarrow> store_view_loop E 10 record_no n;
            let record_no =
              vstol (VS (v_view_id new_view_info - 1) (v_req_id new_view_info + 1));
            Some (n\<lparr>disk := snd (delete_record E (node_db_ptr n) record_no (disk n))\<rparr>)
          } else Some n);
        let n = n\<lparr>cur_view := new_view_info, node_state := NODE_ACTIVE\<rparr>;
        if node_isLeader n then become_leader E n else become_secondary E n
      }
      else Some n)"

section \<open>Freeing\<close>

text \<open>
  \<open>free_node\<close> frees what the node owns, not the node. \<open>free_peer\<close> also frees the peer itself,
  which is only a block of its own when it is the first of the pool.
\<close>

fun free_conn :: "conn ptr \<Rightarrow> conn ptr option" where
  "free_conn NULL = Some NULL"
| "free_conn (Ptr _) = Some Dangling"
| "free_conn Dangling = None"

fun free_event :: "timer ptr \<Rightarrow> timer ptr option" where
  "free_event NULL = Some NULL"
| "free_event e = event_free e"

definition free_peer :: "int \<Rightarrow> ('d, 'z) node_scheme \<Rightarrow> ('d, 'z) node_scheme option" where
  "free_peer i n = do {
     p \<leftarrow> peer_at n i;
     _ \<leftarrow> free_conn (my_buff_event p);
     _ \<leftarrow> free_event (reconnect p);
     if i = 0 then Some (n\<lparr>peer_pool := []\<rparr>) else None
   }"

fun free_each_peer :: "nat list \<Rightarrow> ('d, 'z) node_scheme \<Rightarrow> ('d, 'z) node_scheme option" where
  "free_each_peer [] n = Some n"
| "free_each_peer (i # is) n = do { n \<leftarrow> free_peer (int i) n; free_each_peer is n }"

definition free_peers :: "('d, 'z) node_scheme \<Rightarrow> ('d, 'z) node_scheme option" where
  "free_peers n = free_each_peer [0..<unat (group_size n)] n"

definition free_node :: "('d, 'z) node_scheme \<Rightarrow> ('d, 'z) node_scheme option" where
  "free_node n = do {
     l \<leftarrow> (case listener n of NULL \<Rightarrow> Some NULL | Ptr _ \<Rightarrow> Some Dangling | Dangling \<Rightarrow> None);
     p \<leftarrow> free_event (ev_make_progress n);
     q \<leftarrow> free_event (ev_leader_ping n);
     b \<leftarrow> (case event_base n of NULL \<Rightarrow> Some NULL | Ptr _ \<Rightarrow> Some Dangling | Dangling \<Rightarrow> None);
     Some (n\<lparr>listener := l, ev_make_progress := p, ev_leader_ping := q, event_base := b\<rparr>)
   }"

end
