(* ===== verification/Election.thy ===== *)
theory Election
  imports Node
begin

text \<open>
  The leader election of \<open>src/src/replica-sys/replica.c\<close>: single-decree Paxos among the nodes
  of the group over the number of the next leader. A node is proposer, acceptor and learner at
  once; the next view's number names the instance. After a leader was chosen the new leader
  collects from a majority which requests of the old view they hold (the edge) and closes the
  election, which changes the view.

  \<open>assert\<close> and accesses outside an array or through \<open>NULL\<close> have no result; the loops
  \<open>do ... while(ret)\<close> around the database and the loops over the edge may not end.
\<close>

section \<open>Arrays and constants\<close>

definition arr_get :: "'a list \<Rightarrow> int \<Rightarrow> 'a option" where
  "arr_get xs i = (if 0 \<le> i \<and> i < int (length xs) then Some (xs ! nat i) else None)"

definition arr_set :: "'a list \<Rightarrow> int \<Rightarrow> 'a \<Rightarrow> 'a list option" where
  "arr_set xs i x = (if 0 \<le> i \<and> i < int (length xs) then Some (xs[nat i := x]) else None)"

definition first_proposer_lele :: timeval where
  "first_proposer_lele = \<lparr>tv_sec = 1, tv_usec = 0\<rparr>"

definition wait_for_net_lele :: timeval where
  "wait_for_net_lele = \<lparr>tv_sec = 3, tv_usec = 0\<rparr>"

definition stop_by_other_lele :: timeval where
  "stop_by_other_lele = \<lparr>tv_sec = 10, tv_usec = 0\<rparr>"

abbreviation DEFAULT_REQ_LENGTH :: u32 where "DEFAULT_REQ_LENGTH \<equiv> 20"

definition g_half_size :: "('d, 'z) node_scheme \<Rightarrow> int" where
  "g_half_size n = sint (group_size n div 2 + 1)"

definition get_mod :: "('d, 'z) node_scheme \<Rightarrow> lele_mod option" where
  "get_mod n = election_mod n"

definition set_mod :: "lele_mod \<Rightarrow> ('d, 'z) node_scheme \<Rightarrow> ('d, 'z) node_scheme" where
  "set_mod md n = n\<lparr>election_mod := Some md\<rparr>"

text \<open>\<open>evtimer_add\<close>, and \<open>evtimer_del\<close> followed by \<open>evtimer_add\<close>, on the silent period.\<close>

definition arm :: "timeval \<Rightarrow> ('d, 'z) node_scheme \<Rightarrow> ('d, 'z) node_scheme option" where
  "arm t n = do {
     md \<leftarrow> get_mod n;
     e \<leftarrow> event_add (slient_period md) t;
     Some (set_mod (md\<lparr>slient_period := e\<rparr>) n)
   }"

definition rearm :: "timeval \<Rightarrow> ('d, 'z) node_scheme \<Rightarrow> ('d, 'z) node_scheme option" where
  "rearm t n = do {
     md \<leftarrow> get_mod n;
     e \<leftarrow> event_del (slient_period md);
     e \<leftarrow> event_add e t;
     Some (set_mod (md\<lparr>slient_period := e\<rparr>) n)
   }"

section \<open>Starting an election\<close>

text \<open>The two arrays are not initialised when they are allocated.\<close>

definition junk_learner :: "'d env \<Rightarrow> nat \<Rightarrow> accepted_record" where
  "junk_learner E i = \<lparr>lr_pnum = junk64 E (24 * i), lr_content = junk64 E (24 * i + 8),
     lr_last_req = junk32 E (24 * i + 16)\<rparr>"

definition junk_proposer :: "'d env \<Rightarrow> nat \<Rightarrow> proposer_record" where
  "junk_proposer E i = \<lparr>pr_p_pnum = junk64 E (24 * i), pr_a_pnum = junk64 E (24 * i + 8),
     pr_content = junk64 E (24 * i + 16)\<rparr>"

definition free_leader_election_mod :: "('d, 'z) node_scheme \<Rightarrow> ('d, 'z) node_scheme" where
  "free_leader_election_mod n = n\<lparr>election_mod := None\<rparr>"

definition initialize_leader_election_mod ::
  "'d env \<Rightarrow> ('d, 'z) node_scheme \<Rightarrow> ('d, 'z) node_scheme option" where
  "initialize_leader_election_mod E n = do {
     _ \<leftarrow> malloc_usable E 112;
     let gs = unat (group_size n);
     if malloc_usable E (gs * 24) = None then Some (free_leader_election_mod n)
     else Some (n\<lparr>election_mod := Some
       \<lparr>final_state = 0, next_view = 0, new_leader = 0, next_pnum = 0,
        edge = \<lparr>msg_count = None, req_edge = None, edge_start = - 1, edge_end = 0,
                cur_empty_slots = 0, max_empty_slots = 0\<rparr>,
        acceptor = \<lparr>highest_seen_pnum = 0, accepted_pnum = 0, ac_content = 0\<rparr>,
        learner_arr = map (junk_learner E) [0..<gs],
        proposer_arr = map (junk_proposer E) [0..<gs],
        slient_period = evtimer_new E, announce_ack_msg = None\<rparr>\<rparr>)
   }"

definition refresh_leader_election ::
  "('d, 'z) node_scheme \<Rightarrow> lele_mod \<Rightarrow> lele_mod option" where
  "refresh_leader_election n md =
     (let gs = unat (group_size n) in
      if gs \<le> length (learner_arr md) \<and> gs \<le> length (proposer_arr md) then
        Some (md\<lparr>learner_arr := map (\<lambda>r. r\<lparr>lr_pnum := - 1\<rparr>) (take gs (learner_arr md)) @
                   drop gs (learner_arr md),
                 proposer_arr := map (\<lambda>r. r\<lparr>pr_content := - 1, pr_a_pnum := - 1\<rparr>)
                   (take gs (proposer_arr md)) @ drop gs (proposer_arr md),
                 acceptor := (if 0 < gs then (acceptor md)\<lparr>ac_content := - 1\<rparr>
                              else acceptor md)\<rparr>)
      else None)"

definition initialize_leader_election ::
  "'d env \<Rightarrow> ('d, 'z) node_scheme \<Rightarrow> ('d, 'z) node_scheme option" where
  "initialize_leader_election E n = do {
     let n = n\<lparr>node_state := NODE_INLELE\<rparr>;
     n \<leftarrow> (if get_mod n = None then initialize_leader_election_mod E n else Some n);
     (case get_mod n of
        None \<Rightarrow> Some n
      | Some md \<Rightarrow> do {
          md \<leftarrow> refresh_leader_election n
            (md\<lparr>next_view := v_view_id (cur_view n) + 1, next_pnum := node_id n\<rparr>);
          arm first_proposer_lele (set_mod md n)
        })
   }"

definition lost_connection_with_leader ::
  "'d env \<Rightarrow> ('d, 'z) node_scheme \<Rightarrow> ('d, 'z) node_scheme option" where
  "lost_connection_with_leader E n = initialize_leader_election E n"

definition expected_leader_ping_period ::
  "'d env \<Rightarrow> ('d, 'z) node_scheme \<Rightarrow> ('d, 'z) node_scheme option" where
  "expected_leader_ping_period E n = do {
     n \<leftarrow> (if node_id n = v_leader_id (cur_view n) then
         if ev_leader_ping n \<noteq> NULL then map_option snd (initialize_leader_ping E n) else Some n
       else
         (let temp = timeval_add (last_ping_msg n) (expect_ping_timeval (config n)) in
          if timeval_comp temp (now E) \<ge> 0 then map_option snd (initialize_expect_ping E n)
          else lost_connection_with_leader E n));
     Some (check_exit n)
   }"

section \<open>Proposer\<close>

definition acceptor_update_record ::
  "'d env \<Rightarrow> ('d, 'z) node_scheme \<Rightarrow> (int \<times> ('d, 'z) node_scheme) option" where
  "acceptor_update_record E n = do {
     md \<leftarrow> get_mod n;
     if malloc_usable E ACCEPTOR_REC_SIZE = None then Some (1, n)
     else
       (let (ret, d) = store_record E (node_db_ptr n) (ucast (next_view md))
              (enc_acceptor_record (acceptor md)) (disk n) in
        Some (if ret \<noteq> 0 then 1 else 0, n\<lparr>disk := d\<rparr>))
   }"

text \<open>The loop that stores the acceptor's record until that succeeds.\<close>

partial_function (option) acceptor_store_loop ::
  "'d env \<Rightarrow> ('d, 'z) node_scheme \<Rightarrow> ('d, 'z) node_scheme option" where
  "acceptor_store_loop E n = do {
     r \<leftarrow> acceptor_update_record E n;
     if fst r \<noteq> 0 then acceptor_store_loop E (snd r) else Some (snd r)
   }"

declare acceptor_store_loop.simps [code]

text \<open>The loop over the proposer's records: the number of promises and the content with the
  highest accepted number.\<close>

fun check_prepare_from ::
  "pnum_t \<Rightarrow> proposer_record list \<Rightarrow> int \<times> pnum_t \<times> node_id_t \<Rightarrow> int \<times> pnum_t \<times> node_id_t" where
  "check_prepare_from origin [] s = s"
| "check_prepare_from origin (p # ps) (inc, pnum, content) =
     check_prepare_from origin ps
       (if pr_p_pnum p = origin then
          (if pr_a_pnum p \<noteq> - 1 then inc + 1 else inc,
           if pnum <s pr_a_pnum p then (pr_a_pnum p, pr_content p) else (pnum, content))
        else (inc, pnum, content))"

definition proposer_check_prepare ::
  "'d env \<Rightarrow> ('d, 'z) node_scheme \<Rightarrow> (bool \<times> lele_msg) option" where
  "proposer_check_prepare E n = do {
     md \<leftarrow> get_mod n;
     let gs = unat (group_size n);
     let origin = next_pnum md - ucast (group_size n);
     if gs \<le> length (proposer_arr md) then
       (let (inc, _, content) = check_prepare_from origin (take gs (proposer_arr md)) (0, - 1, - 1) in
        Some (g_half_size n \<le> inc, (junk_lele E)\<lparr>lm_pnum := origin, lm_content := content\<rparr>))
     else None
   }"

definition leader_election_proposer_phase_two ::
  "'d env \<Rightarrow> lele_msg \<Rightarrow> ('d, 'z) node_scheme \<Rightarrow> ('d, 'z) node_scheme option" where
  "leader_election_proposer_phase_two E msg n = do {
     md \<leftarrow> get_mod n;
     if lm_pnum msg = - 1 then None
     else do {
       let msg = (if lm_content msg = - 1 then msg\<lparr>lm_content := node_id n\<rparr> else msg);
       sent_msg \<leftarrow> build_lele_msg E (node_id n) md LELE_ACCEPT (Some msg);
       r \<leftarrow> arr_get (learner_arr md) (sint (node_id n));
       l \<leftarrow> arr_set (learner_arr md) (sint (node_id n))
         (r\<lparr>lr_pnum := lm_pnum msg, lr_content := lm_content msg\<rparr>);
       send_to_other_nodes (lele_bytes E sent_msg) (set_mod (md\<lparr>learner_arr := l\<rparr>) n)
     }
   }"

definition check_and_propose ::
  "'d env \<Rightarrow> ('d, 'z) node_scheme \<Rightarrow> ('d, 'z) node_scheme option" where
  "check_and_propose E n = do {
     (enough, accept_req) \<leftarrow> proposer_check_prepare E n;
     if enough then leader_election_proposer_phase_two E accept_req n else Some n
   }"

text \<open>\<open>None\<close> for \<open>msg\<close> is the \<open>NULL\<close> that starts a round.\<close>

definition leader_election_proposer_do ::
  "'d env \<Rightarrow> lele_msg option \<Rightarrow> ('d, 'z) node_scheme \<Rightarrow> ('d, 'z) node_scheme option" where
  "leader_election_proposer_do E msg n =
     (case msg of
        None \<Rightarrow> do {
          md \<leftarrow> get_mod n;
          sent_msg \<leftarrow> build_lele_msg E (node_id n) md LELE_PREPARE None;
          n \<leftarrow> rearm wait_for_net_lele
            (set_mod (md\<lparr>next_pnum := next_pnum md + ucast (group_size n)\<rparr>) n);
          n \<leftarrow> send_to_other_nodes (lele_bytes E sent_msg) n;
          md \<leftarrow> get_mod n;
          if highest_seen_pnum (acceptor md) <s lm_pnum sent_msg then do {
            r \<leftarrow> arr_get (proposer_arr md) (sint (node_id n));
            p \<leftarrow> arr_set (proposer_arr md) (sint (node_id n))
              (r\<lparr>pr_p_pnum := lm_pnum sent_msg, pr_a_pnum := accepted_pnum (acceptor md),
                 pr_content := ac_content (acceptor md)\<rparr>);
            n \<leftarrow> acceptor_store_loop E (set_mod (md\<lparr>proposer_arr := p,
              acceptor := (acceptor md)\<lparr>highest_seen_pnum := lm_pnum sent_msg\<rparr>\<rparr>) n);
            check_and_propose E n
          }
          else Some n
        }
      | Some m \<Rightarrow>
          if lm_type m \<noteq> lele_val LELE_PREPARE_ACK then None
          else do {
            md \<leftarrow> get_mod n;
            let origin = next_pnum md - ucast (group_size n);
            if lm_p_pnum m = origin \<and> lm_next_view m = next_view md then do {
              r \<leftarrow> arr_get (proposer_arr md) (sint (lm_node_id m));
              p \<leftarrow> arr_set (proposer_arr md) (sint (lm_node_id m))
                (r\<lparr>pr_p_pnum := origin, pr_content := lm_content m, pr_a_pnum := lm_pnum m\<rparr>);
              check_and_propose E (set_mod (md\<lparr>proposer_arr := p\<rparr>) n)
            }
            else Some n
          })"

definition leader_election_on_timeout ::
  "'d env \<Rightarrow> ('d, 'z) node_scheme \<Rightarrow> ('d, 'z) node_scheme option" where
  "leader_election_on_timeout E n = do {
     md \<leftarrow> get_mod n;
     n \<leftarrow> (case node_state n of
         NODE_POSTLELE \<Rightarrow> do {
           n \<leftarrow> (if new_leader md \<noteq> node_id n then
               (case announce_ack_msg md of
                  None \<Rightarrow> Some n
                | Some msg \<Rightarrow> send_to_one_node (new_leader md) msg n)
             else Some n);
           arm wait_for_net_lele n
         }
       | NODE_INLELE \<Rightarrow> do {
           n \<leftarrow> leader_election_proposer_do E None n;
           arm wait_for_net_lele n
         }
       | _ \<Rightarrow> Some n);
     Some (check_exit n)
   }"

definition stop_propose :: "('d, 'z) node_scheme \<Rightarrow> ('d, 'z) node_scheme option" where
  "stop_propose n = (if get_mod n = None then Some n else rearm stop_by_other_lele n)"

section \<open>Learner\<close>

text \<open>The inner loop of \<open>learner_check_accept\<close> leaves once \<open>inc\<close> is large enough.\<close>

fun votes_reach :: "int \<Rightarrow> pnum_t \<Rightarrow> accepted_record list \<Rightarrow> int \<Rightarrow> bool" where
  "votes_reach half base [] inc = False"
| "votes_reach half base (r # rs) inc =
     (let inc = (if lr_pnum r = base then inc + 1 else inc) in
      if half \<le> inc then True else votes_reach half base rs inc)"

fun check_accept_from ::
  "int \<Rightarrow> accepted_record list \<Rightarrow> accepted_record list \<Rightarrow> pnum_t \<times> node_id_t \<Rightarrow>
    bool \<times> pnum_t \<times> node_id_t" where
  "check_accept_from half arr [] s = (False, s)"
| "check_accept_from half arr (r # rs) s =
     (if lr_pnum r \<noteq> - 1 then
        if votes_reach half (lr_pnum r) arr 0 then (True, lr_pnum r, lr_content r)
        else check_accept_from half arr rs (lr_pnum r, lr_content r)
      else check_accept_from half arr rs s)"

definition learner_check_accept ::
  "'d env \<Rightarrow> ('d, 'z) node_scheme \<Rightarrow> (bool \<times> lele_msg) option" where
  "learner_check_accept E n = do {
     md \<leftarrow> get_mod n;
     let gs = unat (group_size n);
     let arr = take gs (learner_arr md);
     if gs \<le> length (learner_arr md) then
       (let (ok, p, c) = check_accept_from (g_half_size n) arr arr (- 1, - 1) in
        Some (ok, (junk_lele E)\<lparr>lm_pnum := p, lm_content := c\<rparr>))
     else None
   }"

section \<open>The edge\<close>

text \<open>
  \<open>foreqp(record_key,start,end)\<close>: the requests of the current view that the database lacks are
  marked. \<open>slots\<close> is the array and the number of its used entries.
\<close>

partial_function (option) mark_missing ::
  "'d env \<Rightarrow> db option \<Rightarrow> view_id_t \<Rightarrow> 'd \<Rightarrow> (i32 \<Rightarrow> bool) \<Rightarrow> req_id_t \<Rightarrow> req_id_t \<Rightarrow>
    u32 list \<times> i32 \<Rightarrow> (u32 list \<times> i32) option" where
  "mark_missing E h view d room end_req key slots =
     (if key \<le> end_req then do {
        slots \<leftarrow> (case snd (retrieve_record E h (vstol (VS view key)) d) of
            Some _ \<Rightarrow> Some slots
          | None \<Rightarrow>
              if room (snd slots) then do {
                arr \<leftarrow> arr_set (fst slots) (sint (snd slots)) key;
                Some (arr, snd slots + 1)
              }
              else None);
        mark_missing E h view d room end_req (key + 1) slots
      }
      else Some slots)"

declare mark_missing.simps [code]

definition leader_election_leader_cal_edge ::
  "'d env \<Rightarrow> ('d, 'z) node_scheme \<Rightarrow> ('d, 'z) node_scheme option" where
  "leader_election_leader_cal_edge E n = do {
     md \<leftarrow> get_mod n;
     let e = edge md;
     counts \<leftarrow> msg_count e;
     counts \<leftarrow> arr_set counts (sint (node_id n)) 1;
     slots \<leftarrow> req_edge e;
     (arr, used) \<leftarrow> mark_missing E (node_db_ptr n) (v_view_id (cur_view n)) (disk n)
       (\<lambda>used. used <s max_empty_slots e) (edge_end e) (edge_start e) (slots, cur_empty_slots e);
     Some (set_mod (md\<lparr>edge := e\<lparr>msg_count := Some counts, req_edge := Some arr,
       cur_empty_slots := used\<rparr>\<rparr>) n)
   }"

text \<open>Number of entries of an array of \<open>req_id_t\<close> with \<open>length\<close> elements, an \<open>int\<close>.\<close>

definition req_array_size :: "i32 \<Rightarrow> nat" where
  "req_array_size len = unat (4 * (scast len :: u64))"

definition edge_range :: "('d, 'z) node_scheme \<Rightarrow> (req_id_t \<times> req_id_t) option" where
  "edge_range n =
     (if vs_view_id (highest_seen_vs n) = v_view_id (cur_view n) then
        Some (if vs_view_id (highest_seen_vs n) = vs_view_id (highest_to_commit_vs n)
              then vs_req_id (highest_to_commit_vs n) else 0,
              vs_req_id (highest_seen_vs n))
      else None)"

text \<open>
  The empty slots are looked for between \<open>edge.start\<close> and \<open>edge.end\<close> of the module, not
  between the local \<open>start\<close> and \<open>end\<close>.
\<close>

definition leader_election_cal_edge ::
  "'d env \<Rightarrow> ('d, 'z) node_scheme \<Rightarrow> ('d, 'z) node_scheme option" where
  "leader_election_cal_edge E n = do {
     md \<leftarrow> get_mod n;
     let (start, end_req, length) = (case edge_range n of
         Some (s, e) \<Rightarrow> (s, e, (e - s) * 2 + DEFAULT_REQ_LENGTH)
       | None \<Rightarrow> (0, - 1, DEFAULT_REQ_LENGTH * 3));
     let m = (junk_lele E)\<lparr>lm_type := lele_val LELE_ANNOUNCE_ACK, lm_start_req := start,
       lm_last_req := end_req, lm_next_view := next_view md, lm_content := new_leader md,
       lm_node_id := node_id n\<rparr>;
     let header = (\<lambda>size. enc_header (junk32 E 4)
       \<lparr>sh_type = sys_msg_code_val LEADER_ELECTION_MSG, sh_data_size = size\<rparr>);
     msg \<leftarrow> (if end_req \<noteq> - 1 then do {
         _ \<leftarrow> malloc_usable E (req_array_size length);
         (arr, used) \<leftarrow> mark_missing E (node_db_ptr n) (v_view_id (cur_view n)) (disk n)
           (\<lambda>_. True) (edge_end (edge md)) (edge_start (edge md))
           (replicate (req_array_size length div 4) 0, 0);
         let k = nat (sint used);
         if malloc_usable E (SYS_MSG_HEADER_SIZE + LELE_MSG_SIZE + 4 * k) = None then
           if k = 0 then Some None else None
         else Some (Some (header (of_nat (LELE_MSG_SIZE + 4 * k)) @
           enc_lele_msg (junk32 E 20) (junk32 E 36) (m\<lparr>lm_pnum := of_nat k\<rparr>) @
           concat (map (le 4) (take k arr))))
       }
       else if malloc_usable E LEADER_ELECTION_MSG_SIZE = None then Some None
       else Some (Some (header 56 @ enc_lele_msg (junk32 E 20) (junk32 E 36) m)));
     (case msg of
        None \<Rightarrow> Some n
      | Some blk \<Rightarrow> do {
          n \<leftarrow> send_to_one_node (new_leader md) blk n;
          rearm wait_for_net_lele (set_mod (md\<lparr>announce_ack_msg := Some blk\<rparr>) n)
        })
   }"

definition leader_election_initialize_edge_mod ::
  "'d env \<Rightarrow> ('d, 'z) node_scheme \<Rightarrow> ('d, 'z) node_scheme option" where
  "leader_election_initialize_edge_mod E n = do {
     md \<leftarrow> get_mod n;
     let (start, end_req, length) = (case edge_range n of
         Some (s, e) \<Rightarrow> (s, e, (e - s) * 2 + DEFAULT_REQ_LENGTH)
       | None \<Rightarrow> (0, - 1, DEFAULT_REQ_LENGTH * 5));
     let e = (edge md)\<lparr>edge_start := start, edge_end := end_req, max_empty_slots := length\<rparr>;
     let size = req_array_size length;
     let e = (if req_edge e = None \<and> malloc_usable E size \<noteq> None
              then e\<lparr>req_edge := Some (replicate (size div 4) 0)\<rparr> else e);
     let failed = set_mod (md\<lparr>edge := e\<lparr>edge_start := - 1, msg_count := None, req_edge := None\<rparr>\<rparr>) n;
     (case req_edge e of
        None \<Rightarrow> Some failed
      | Some arr \<Rightarrow>
          if List.length arr < size div 4 then None
          else do {
            let e = e\<lparr>req_edge := Some (replicate (size div 4) 0 @ drop (size div 4) arr)\<rparr>;
            let gs = unat (group_size n);
            let e = (if msg_count e = None \<and> malloc_usable E (4 * gs) \<noteq> None
                     then e\<lparr>msg_count := Some (replicate gs 0)\<rparr> else e);
            (case msg_count e of
               None \<Rightarrow> Some failed
             | Some counts \<Rightarrow>
                 if List.length counts < gs then None
                 else leader_election_leader_cal_edge E (set_mod (md\<lparr>edge := e\<lparr>msg_count :=
                   Some (replicate gs 0 @ drop gs counts)\<rparr>\<rparr>) n))
          })
   }"

definition leader_election_enter_post_stage ::
  "lele_msg \<Rightarrow> ('d, 'z) node_scheme \<Rightarrow> ('d, 'z) node_scheme option" where
  "leader_election_enter_post_stage msg n = do {
     md \<leftarrow> get_mod n;
     Some (set_mod (md\<lparr>new_leader := lm_content msg\<rparr>) (n\<lparr>node_state := NODE_POSTLELE\<rparr>))
   }"

definition leader_election_handle_announce ::
  "'d env \<Rightarrow> lele_msg \<Rightarrow> ('d, 'z) node_scheme \<Rightarrow> ('d, 'z) node_scheme option" where
  "leader_election_handle_announce E msg n = do {
     n \<leftarrow> leader_election_enter_post_stage msg n;
     md \<leftarrow> get_mod n;
     if new_leader md = node_id n then leader_election_initialize_edge_mod E n
     else leader_election_cal_edge E n
   }"

definition leader_election_learner_do ::
  "'d env \<Rightarrow> lele_msg \<Rightarrow> ('d, 'z) node_scheme \<Rightarrow> ('d, 'z) node_scheme option" where
  "leader_election_learner_do E msg n =
     (if lm_type msg = lele_val LELE_ACCEPT_ACK then do {
        md \<leftarrow> get_mod n;
        r \<leftarrow> arr_get (learner_arr md) (sint (lm_node_id msg));
        if lr_pnum r <s lm_pnum msg then do {
          l \<leftarrow> arr_set (learner_arr md) (sint (lm_node_id msg))
            (r\<lparr>lr_pnum := lm_pnum msg, lr_content := lm_content msg\<rparr>);
          let n = set_mod (md\<lparr>learner_arr := l\<rparr>) n;
          (ok, temp) \<leftarrow> learner_check_accept E n;
          if ok then do {
            md \<leftarrow> get_mod n;
            sent_msg \<leftarrow> build_lele_msg E (node_id n) md LELE_ANNOUNCE (Some temp);
            n \<leftarrow> send_to_other_nodes (lele_bytes E sent_msg) n;
            leader_election_handle_announce E sent_msg n
          }
          else Some n
        }
        else Some n
      }
      else Some n)"

section \<open>Acceptor\<close>

definition leader_election_acceptor_do ::
  "'d env \<Rightarrow> lele_msg \<Rightarrow> ('d, 'z) node_scheme \<Rightarrow> ('d, 'z) node_scheme option" where
  "leader_election_acceptor_do E msg n =
     (if lm_type msg = lele_val LELE_PREPARE then do {
        n \<leftarrow> (if lm_node_id msg <s node_id n then stop_propose n else Some n);
        md \<leftarrow> get_mod n;
        if highest_seen_pnum (acceptor md) <s lm_pnum msg then do {
          n \<leftarrow> acceptor_store_loop E (set_mod (md\<lparr>acceptor :=
            (acceptor md)\<lparr>highest_seen_pnum := lm_pnum msg, ac_content := lm_content msg\<rparr>\<rparr>) n);
          md \<leftarrow> get_mod n;
          sent_msg \<leftarrow> build_lele_msg E (node_id n) md LELE_PREPARE_ACK None;
          send_to_one_node (lm_node_id msg) (lele_bytes E sent_msg) n
        }
        else Some n
      }
      else if lm_type msg = lele_val LELE_ACCEPT then do {
        md \<leftarrow> get_mod n;
        if highest_seen_pnum (acceptor md) \<le>s lm_pnum msg then do {
          n \<leftarrow> acceptor_store_loop E (set_mod (md\<lparr>acceptor :=
            \<lparr>highest_seen_pnum = lm_pnum msg, accepted_pnum = lm_pnum msg,
             ac_content = lm_content msg\<rparr>\<rparr>) n);
          md \<leftarrow> get_mod n;
          sent_msg \<leftarrow> build_lele_msg E (node_id n) md LELE_ACCEPT_ACK None;
          n \<leftarrow> leader_election_learner_do E sent_msg n;
          send_to_other_nodes (lele_bytes E sent_msg) n
        }
        else Some n
      }
      else Some n)"

section \<open>Closing an election\<close>

definition leader_election_mod_collection ::
  "('d, 'z) node_scheme \<Rightarrow> ('d, 'z) node_scheme" where
  "leader_election_mod_collection n = n"

definition leader_election_handle_close ::
  "'d env \<Rightarrow> lele_msg \<Rightarrow> ('d, 'z) node_scheme \<Rightarrow> ('d, 'z) node_scheme option" where
  "leader_election_handle_close E msg n = do {
     md \<leftarrow> get_mod n;
     if next_view md = lm_next_view msg then do {
       n \<leftarrow> update_view E \<lparr>v_view_id = lm_next_view msg, v_leader_id = lm_content msg,
         v_req_id = lm_last_req msg\<rparr> n;
       Some (leader_election_mod_collection n)
     }
     else Some n
   }"

text \<open>The message that closes an election, from a given view or from the stored boundary.\<close>

definition leader_election_build_close ::
  "'d env \<Rightarrow> ('d, 'z) node_scheme \<Rightarrow> view_id_t \<Rightarrow> view option \<Rightarrow> lele_msg option option" where
  "leader_election_build_close E n view_id new_view_info =
     (if malloc_usable E LEADER_ELECTION_MSG_SIZE = None then Some None
      else do {
        info \<leftarrow> (case new_view_info of
            Some v \<Rightarrow> Some (Some v)
          | None \<Rightarrow>
              (case snd (retrieve_record E (node_db_ptr n) (vstol (VS view_id 0)) (disk n)) of
                 None \<Rightarrow> Some None
               | Some b \<Rightarrow> map_option Some (dec_view 0 b)));
        Some (map_option (\<lambda>v. (junk_lele E)\<lparr>lm_type := lele_val LELE_FIN,
          lm_next_view := v_view_id v, lm_node_id := v_leader_id v, lm_last_req := v_req_id v,
          lm_content := v_leader_id v\<rparr>) info)
      })"

definition leader_election_leader_close ::
  "'d env \<Rightarrow> ('d, 'z) node_scheme \<Rightarrow> ('d, 'z) node_scheme option" where
  "leader_election_leader_close E n = do {
     md \<leftarrow> get_mod n;
     last \<leftarrow> (if cur_empty_slots (edge md) \<noteq> 0 then do {
         slots \<leftarrow> req_edge (edge md);
         first \<leftarrow> arr_get slots 0;
         Some (first - 1)
       } else Some (edge_end (edge md)));
     let info = \<lparr>v_view_id = next_view md, v_leader_id = new_leader md, v_req_id = last\<rparr>;
     n \<leftarrow> update_view E info n;
     sent_msg \<leftarrow> leader_election_build_close E n (next_view md) (Some info);
     (case sent_msg of
        None \<Rightarrow> Some (leader_election_mod_collection n)
      | Some m \<Rightarrow> map_option leader_election_mod_collection (send_to_other_nodes (lele_bytes E m) n))
   }"

section \<open>Collecting the edge\<close>

text \<open>The loops of \<open>leader_election_handle_announce_ack\<close>, in the order the code has them.
  \<open>ptr j\<close> reads the \<open>j\<close>-th request number behind the message.\<close>

partial_function (option) skip_until ::
  "(u32 \<Rightarrow> bool) \<Rightarrow> u64 \<Rightarrow> u64 \<Rightarrow> u32 list \<Rightarrow> (u64 \<times> u32 list) option" where
  "skip_until covered used i arr =
     (if i < used then do {
        x \<leftarrow> arr_get arr (uint i);
        if covered x then do {
          arr \<leftarrow> arr_set arr (uint i) 0;
          skip_until covered used (i + 1) arr
        }
        else Some (i, arr)
      }
      else Some (i, arr))"

declare skip_until.simps [code]

partial_function (option) merge_slots ::
  "(u64 \<Rightarrow> u32 option) \<Rightarrow> u64 \<Rightarrow> u64 \<Rightarrow> u64 \<Rightarrow> u64 \<Rightarrow> u32 list \<Rightarrow> (u64 \<times> u64 \<times> u32 list) option" where
  "merge_slots ptr used count i j arr =
     (if i < used \<and> j < count then do {
        x \<leftarrow> arr_get arr (uint i);
        y \<leftarrow> ptr j;
        if x < y then do {
          arr \<leftarrow> arr_set arr (uint i) 0;
          merge_slots ptr used count (i + 1) j arr
        }
        else if x = y then merge_slots ptr used count (i + 1) (j + 1) arr
        else merge_slots ptr used count (i - 1 + 1) j arr
      }
      else Some (i, j, arr))"

declare merge_slots.simps [code]

partial_function (option) skip_known ::
  "(u64 \<Rightarrow> u32 option) \<Rightarrow> u32 \<Rightarrow> u64 \<Rightarrow> u64 \<Rightarrow> u64 option" where
  "skip_known ptr end_req count j = do {
     y \<leftarrow> ptr j;
     if y \<le> end_req \<and> j < count then skip_known ptr end_req count (j + 1) else Some j
   }"

declare skip_known.simps [code]

partial_function (option) append_slots ::
  "(u64 \<Rightarrow> u32 option) \<Rightarrow> pnum_t \<Rightarrow> i32 \<Rightarrow> u64 \<Rightarrow> u32 list \<times> i32 \<Rightarrow> (u32 list \<times> i32) option" where
  "append_slots ptr pnum most j slots = do {
     y \<leftarrow> ptr j;
     if (ucast y :: i64) <s pnum then
       if snd slots <s most then do {
         arr \<leftarrow> arr_set (fst slots) (sint (snd slots)) y;
         append_slots ptr pnum most (j + 1) (arr, snd slots + 1)
       }
       else None
     else Some slots
   }"

declare append_slots.simps [code]

partial_function (option) clear_tail ::
  "u32 \<Rightarrow> u64 \<Rightarrow> u64 \<Rightarrow> u32 list \<Rightarrow> u32 list option" where
  "clear_tail last_req used i arr = do {
     x \<leftarrow> arr_get arr (uint i);
     if x \<le> last_req \<and> i < used then do {
       arr \<leftarrow> arr_set arr (uint i) 0;
       clear_tail last_req used (i + 1) arr
     }
     else Some arr
   }"

declare clear_tail.simps [code]

definition compact_slots :: "u64 \<Rightarrow> u32 list \<Rightarrow> (u32 list \<times> i32) option" where
  "compact_slots used arr =
     (if unat used \<le> length arr then
        (let kept = filter (\<lambda>x. x \<noteq> 0) (take (unat used) arr) in
         Some (kept @ drop (length kept) arr, of_nat (length kept)))
      else None)"

definition merge_edge :: "lele_msg \<Rightarrow> bytes \<Rightarrow> leader_election_edge_mod \<Rightarrow>
    leader_election_edge_mod option" where
  "merge_edge msg blk e = do {
     let ptr = (\<lambda>j. ld 4 (LEADER_ELECTION_MSG_SIZE + 4 * unat j) blk);
     let used = scast (cur_empty_slots e);
     let arr = (case req_edge e of None \<Rightarrow> [] | Some a \<Rightarrow> a);
     (i, arr) \<leftarrow> (if edge_start e < lm_start_req msg
                  then skip_until (\<lambda>x. x \<le> lm_start_req msg) used 0 arr else Some (0, arr));
     let start = (if edge_start e < lm_start_req msg then lm_start_req msg else edge_start e);
     (i, j, arr) \<leftarrow> merge_slots ptr used (lm_pnum msg) i 0 arr;
     (arr, cur) \<leftarrow> (if i = used then do {
         j \<leftarrow> skip_known ptr (edge_end e) (lm_pnum msg) j;
         append_slots ptr (lm_pnum msg) (max_empty_slots e) j (arr, cur_empty_slots e)
       }
       else if j = lm_pnum msg then do {
         arr \<leftarrow> clear_tail (lm_last_req msg) used i arr;
         Some (arr, cur_empty_slots e)
       }
       else Some (arr, cur_empty_slots e));
     (arr, cur) \<leftarrow> compact_slots (scast cur) arr;
     Some (e\<lparr>edge_start := start, edge_end := max (edge_end e) (lm_last_req msg),
       req_edge := map_option (\<lambda>_. arr) (req_edge e), cur_empty_slots := cur\<rparr>)
   }"

definition leader_election_handle_announce_ack ::
  "'d env \<Rightarrow> lele_msg \<Rightarrow> bytes \<Rightarrow> ('d, 'z) node_scheme \<Rightarrow> ('d, 'z) node_scheme option" where
  "leader_election_handle_announce_ack E msg blk n = do {
     md \<leftarrow> get_mod n;
     n \<leftarrow> (if edge_start (edge md) = - 1 \<and> node_id n = lm_content msg
           then leader_election_handle_announce E msg n else Some n);
     md \<leftarrow> get_mod n;
     counts \<leftarrow> msg_count (edge md);
     c \<leftarrow> arr_get counts (sint (lm_node_id msg));
     if c = 0 then do {
       counts \<leftarrow> arr_set counts (sint (lm_node_id msg)) 1;
       e \<leftarrow> merge_edge msg blk ((edge md)\<lparr>msg_count := Some counts\<rparr>);
       let n = set_mod (md\<lparr>edge := e\<rparr>) n;
       let gs = unat (group_size n);
       if gs \<le> length counts then
         if group_size n div 2 + 1 \<le> of_nat (length (filter (\<lambda>x. x = 1) (take gs counts)))
         then leader_election_leader_close E n
         else Some n
       else None
     }
     else Some n
   }"

definition leader_election_finalize ::
  "('d, 'z) node_scheme \<Rightarrow> ('d, 'z) node_scheme option" where
  "leader_election_finalize n = do {
     md \<leftarrow> get_mod n;
     Some (set_mod (md\<lparr>final_state := 1\<rparr>) n)
   }"

section \<open>Dispatch\<close>

definition handle_leader_election_msg ::
  "'d env \<Rightarrow> bytes \<Rightarrow> ('d, 'z) node_scheme \<Rightarrow> ('d, 'z) node_scheme option" where
  "handle_leader_election_msg E blk n = do {
     msg \<leftarrow> dec_lele_msg blk;
     if lm_next_view msg \<noteq> v_view_id (cur_view n) + 1 then
       if lm_next_view msg = v_view_id (cur_view n) then do {
         sent_msg \<leftarrow> leader_election_build_close E n (lm_next_view msg) None;
         (case sent_msg of
            None \<Rightarrow> Some n
          | Some m \<Rightarrow> send_to_one_node (lm_node_id msg) (lele_bytes E m) n)
       }
       else Some n
     else if node_state n = NODE_INLELE \<or> node_state n = NODE_POSTLELE then
       (case lele_of (lm_type msg) of
          Some LELE_PREPARE \<Rightarrow> leader_election_acceptor_do E msg n
        | Some LELE_PREPARE_ACK \<Rightarrow> leader_election_proposer_do E (Some msg) n
        | Some LELE_ACCEPT \<Rightarrow> leader_election_acceptor_do E msg n
        | Some LELE_ACCEPT_ACK \<Rightarrow> leader_election_learner_do E msg n
        | Some LELE_ANNOUNCE \<Rightarrow> leader_election_handle_announce E msg n
        | Some LELE_ANNOUNCE_ACK \<Rightarrow> leader_election_handle_announce_ack E msg blk n
        | Some LELE_FIN \<Rightarrow> leader_election_handle_close E msg n
        | Some LELE_HIGHER_NODE \<Rightarrow> leader_election_proposer_do E (Some msg) n
        | _ \<Rightarrow> Some n)
     else Some n
   }"

end
