(* ===== verification/Replica.thy ===== *)
theory Replica
  imports Election
begin

text \<open>
  The rest of \<open>src/src/replica-sys/replica.c\<close>: the handlers of the messages of other nodes and
  of the proxy, the framing of the byte stream they arrive on, and the initialisation of a node.
\<close>

section \<open>Handlers\<close>

definition handle_ping_ack ::
  "'d env \<Rightarrow> ping_msg \<Rightarrow> ('d, 'z) node_scheme \<Rightarrow> ('d, 'z) node_scheme option" where
  "handle_ping_ack E msg n =
     (if v_view_id (cur_view n) = v_view_id (pm_view msg) + 1 then update_view E (pm_view msg) n
      else Some n)"

definition handle_ping_req ::
  "'d env \<Rightarrow> ping_msg \<Rightarrow> ('d, 'z) node_scheme \<Rightarrow> ('d, 'z) node_scheme option" where
  "handle_ping_req E msg n =
     (if v_view_id (cur_view n) + 1 = v_view_id (pm_view msg) then update_view E (pm_view msg) n
      else if v_view_id (cur_view n) = v_view_id (pm_view msg) + 1 then do {
        p \<leftarrow> peer_at n (sint (pm_node_id msg));
        if active p then do {
          ping_ack \<leftarrow> build_ping_ack E (ucast (node_id n)) (cur_view n);
          (case ping_ack of
             None \<Rightarrow> Some n
           | Some m \<Rightarrow> send_to_one_node (pm_node_id msg) m n)
        }
        else Some n
      }
      else if v_view_id (cur_view n) = v_view_id (pm_view msg) then do {
        let n = (if node_state n = NODE_INLELE
                 then leader_election_mod_collection (n\<lparr>node_state := NODE_ACTIVE\<rparr>) else n);
        if \<not> node_isLeader n then do {
          let n = (if timeval_comp (last_ping_msg n) (pm_timestamp msg) < 0
                   then n\<lparr>last_ping_msg := pm_timestamp msg\<rparr> else n);
          if ev_expect_ping n \<noteq> NULL then do {
            e \<leftarrow> event_del (ev_expect_ping n);
            e \<leftarrow> event_add e (expect_ping_timeval (config n));
            Some (n\<lparr>ev_expect_ping := e\<rparr>)
          }
          else Some n
        }
        else Some n
      }
      else Some n)"

text \<open>The two entries of the consensus component; \<open>blk\<close> is the received block, the message
  starts behind its header.\<close>

definition handle_consensus_msg ::
  "'d env \<Rightarrow> bytes \<Rightarrow> ('d, 'z) node_scheme \<Rightarrow> ('d, 'z) node_scheme option" where
  "handle_consensus_msg E blk n =
     (case consensus_comp n of
        NULL \<Rightarrow> Some n
      | Ptr _ \<Rightarrow> run_consensus E (consensus_handle_msg E (drop SYS_MSG_HEADER_SIZE blk)) n
      | Dangling \<Rightarrow> None)"

definition handle_request_submit ::
  "'d env \<Rightarrow> bytes \<Rightarrow> ('d, 'z) node_scheme \<Rightarrow> ('d, 'z) node_scheme option" where
  "handle_request_submit E blk n =
     (case consensus_comp n of
        NULL \<Rightarrow> Some n
      | Ptr _ \<Rightarrow> do {
          h \<leftarrow> dec_header blk;
          run_consensus E (\<lambda>n. map_option (\<lambda>(ret, return_vs, n). n)
            (consensus_submit_request E (sh_data_size h) (drop SYS_MSG_HEADER_SIZE blk) n)) n
        }
      | Dangling \<Rightarrow> None)"

text \<open>
  \<open>dispatch_msg\<close> is the \<open>switch\<close> of \<open>handle_msg\<close>. \<open>handle_msg\<close> takes the message off the input
  buffer of the connection; its block may be larger than what was asked for, and the rest of it
  was not written.
\<close>

definition dispatch_msg ::
  "'d env \<Rightarrow> bytes \<Rightarrow> ('d, 'z) node_scheme \<Rightarrow> ('d, 'z) node_scheme option" where
  "dispatch_msg E blk n = do {
     type \<leftarrow> ld 4 0 blk;
     (case sys_msg_code_of type of
        Some PING_ACK \<Rightarrow>
          if node_state n \<noteq> NODE_POSTLELE then do { m \<leftarrow> dec_ping blk; handle_ping_ack E m n }
          else Some n
      | Some PING_REQ \<Rightarrow>
          if node_state n \<noteq> NODE_POSTLELE then do { m \<leftarrow> dec_ping blk; handle_ping_req E m n }
          else Some n
      | Some CONSENSUS_MSG \<Rightarrow>
          if node_state n = NODE_ACTIVE then handle_consensus_msg E blk n else Some n
      | Some REQUEST_SUBMIT \<Rightarrow>
          if node_state n = NODE_ACTIVE then handle_request_submit E blk n else Some n
      | Some LEADER_ELECTION_MSG \<Rightarrow>
          if node_state n = NODE_INLELE \<or> node_state n = NODE_POSTLELE
          then handle_leader_election_msg E blk n else Some n
      | _ \<Rightarrow> Some n)
   }"

definition handle_msg ::
  "'d env \<Rightarrow> u64 \<Rightarrow> bytes \<times> ('d, 'z) node_scheme \<Rightarrow> (bytes \<times> ('d, 'z) node_scheme) option" where
  "handle_msg E data_size s =
     (let size = unat (16 + data_size); (input, n) = s in
      case malloc_usable E size of
        None \<Rightarrow> Some (input, n)
      | Some k \<Rightarrow>
          (let removed = take size input;
               blk = removed @ map (junk E) [length removed..<k] in
           map_option (Pair (drop size input)) (dispatch_msg E blk n)))"

text \<open>
  The loop takes one message after the other off the input as long as a header and the data it
  announces are there. The size is read into an \<open>int\<close>.
\<close>

partial_function (option) replica_read_loop ::
  "'d env \<Rightarrow> bytes \<times> ('d, 'z) node_scheme \<Rightarrow> (bytes \<times> ('d, 'z) node_scheme) option" where
  "replica_read_loop E s =
     (if SYS_MSG_HEADER_SIZE \<le> length (fst s) then
        if malloc_usable E SYS_MSG_HEADER_SIZE = None then Some s
        else do {
          buf \<leftarrow> dec_header (fst s);
          let data_size = (scast (ucast (sh_data_size buf) :: i32) :: u64);
          if unat (16 + data_size) \<le> length (fst s) then do {
            s \<leftarrow> handle_msg E data_size s;
            replica_read_loop E s
          }
          else Some s
        }
      else Some s)"

declare replica_read_loop.simps [code]

definition replica_on_read ::
  "'d env \<Rightarrow> bytes \<times> ('d, 'z) node_scheme \<Rightarrow> (bytes \<times> ('d, 'z) node_scheme) option" where
  "replica_on_read E s =
     map_option (\<lambda>(input, n). (input, check_exit n)) (replica_read_loop E s)"

text \<open>Errors on an accepted connection are only logged; a new connection gets its callbacks.\<close>

definition replica_on_error_cb :: "('d, 'z) node_scheme \<Rightarrow> ('d, 'z) node_scheme" where
  "replica_on_error_cb n = check_exit n"

definition replica_on_accept ::
  "'d env \<Rightarrow> ('d, 'z) node_scheme \<Rightarrow> ('d, 'z) node_scheme option" where
  "replica_on_accept E n = (if bufferevent_new_ok E then Some (check_exit n) else None)"

section \<open>Initialisation\<close>

text \<open>
  The log directory and file: the path's buffer is cleared before the test for \<open>NULL\<close>; whether
  the file could be opened only matters for what is logged. \<open>None\<close> for \<open>log_path\<close> is \<open>NULL\<close>.
\<close>

fun nat_str :: "nat \<Rightarrow> string" where
  "nat_str k = (if k < 10 then [char_of (48 + k)] else nat_str (k div 10) @ [char_of (48 + k mod 10)])"

declare nat_str.simps [simp del]

definition open_log :: "'d env \<Rightarrow> string option \<Rightarrow> string \<Rightarrow> bool option" where
  "open_log E log_path file =
     (let (ready, dir) = (case log_path of
          None \<Rightarrow> (True, ''.'')
        | Some path \<Rightarrow> (let (ret, exists) = os_mkdir E path in (ret = 0 \<or> exists, path)))
      in if ready then do {
           _ \<leftarrow> malloc_usable E (length dir + 50);
           Some (os_fopen E (dir @ file))
         }
         else Some False)"

text \<open>\<open>initialize_node\<close> returns 0 on success.\<close>

definition initialize_node ::
  "'d env \<Rightarrow> string option \<Rightarrow> int \<Rightarrow> bool \<Rightarrow> db option \<Rightarrow> ('d, 'z) node_scheme \<Rightarrow>
    (int \<times> ('d, 'z) node_scheme) option" where
  "initialize_node E log_path mode have_ucb db_ptr n = do {
     let n = n\<lparr>last_ping_msg := now E\<rparr>;
     (ret, n) \<leftarrow> (if v_leader_id (cur_view n) = node_id n then do {
         (ret, n) \<leftarrow> initialize_leader_ping E n;
         if ret \<noteq> 0 then Some (ret, n) else initialize_leader_make_progress E n
       } else initialize_expect_ping E n);
     if ret \<noteq> 0 then Some (1, n)
     else do {
       _ \<leftarrow> open_log E log_path
         (''/node-'' @ nat_str (unat (ucast (node_id n) :: u32)) @ ''-consensus-sys.log'');
       n \<leftarrow> connect_peers E (n\<lparr>node_state := NODE_ACTIVE, msg_cb_set := True\<rparr>);
       (comp, n) \<leftarrow> init_consensus_comp E (ucast (node_id n)) (node_db_name n) mode db_ptr
         (group_size n) have_ucb True (n\<lparr>consensus_comp := NULL\<rparr>);
       let n = n\<lparr>consensus_comp := comp\<rparr>;
       Some (if comp = NULL then 1 else 0, n)
     }
   }"

text \<open>
  A node whose record has been cleared; the configuration is read by a function that the model
  of \<open>config-comp.c\<close> provides. \<open>None\<close> as the node is \<open>NULL\<close>.
\<close>

definition blank_config :: node_config where
  "blank_config =
     \<lparr>reconnect_timeval = \<lparr>tv_sec = 2, tv_usec = 0\<rparr>, ping_timeval = \<lparr>tv_sec = 2, tv_usec = 0\<rparr>,
      expect_ping_timeval = \<lparr>tv_sec = 8, tv_usec = 0\<rparr>,
      make_progress_timeval = \<lparr>tv_sec = 1, tv_usec = 100\<rparr>\<rparr>"

definition blank_node :: "node_id_t \<Rightarrow> string \<Rightarrow> db option \<Rightarrow> 'd \<Rightarrow> 'd node" where
  "blank_node nid start_mode db_ptr d =
     (let zero = VS 0 0; seed = (start_mode \<noteq> [] \<and> hd start_mode = CHR ''s'') in
      \<lparr>my_role = LEADER, cc_node_id = 0, deliver_mode = 0, cc_group_size = 0,
       cur_view = (if seed then \<lparr>v_view_id = 1, v_leader_id = nid, v_req_id = 0\<rparr>
                   else \<lparr>v_view_id = 0, v_leader_id = 9999, v_req_id = 0\<rparr>),
       highest_seen_vs = zero, highest_to_commit_vs = zero, highest_committed_vs = zero,
       cc_db_ptr = None, uc_set = False, ucb_set = False, disk = d, effects = [],
       node_id = nid, node_stat_log = 0, node_sys_log = 0, node_state = NODE_ACTIVE,
       election_mod = None, consensus_comp = NULL, my_address = ([], 0), group_size = 0,
       peer_pool = [], config = blank_config, listener = NULL, event_base = Ptr (),
       msg_cb_set = False, ev_leader_ping = NULL, ev_expect_ping = NULL, ev_make_progress = NULL,
       last_ping_msg = \<lparr>tv_sec = 0, tv_usec = 0\<rparr>, node_db_name = [], node_db_ptr = db_ptr,
       user_calls = [], exit_flag = False, loop_exit = False\<rparr>)"

definition system_initialize ::
  "'d env \<Rightarrow> ('d node \<Rightarrow> (int \<times> 'd node) option) \<Rightarrow> node_id_t \<Rightarrow> string \<Rightarrow>
    string option \<Rightarrow> int \<Rightarrow> bool \<Rightarrow> db option \<Rightarrow> 'd \<Rightarrow> 'd node option option" where
  "system_initialize E read_config nid start_mode log_path mode have_ucb db_ptr d = do {
     _ \<leftarrow> malloc_usable E 280;
     if \<not> event_base_new_ok E then
       map_option (\<lambda>_. None) (free_node ((blank_node nid start_mode db_ptr d)\<lparr>event_base := NULL\<rparr>))
     else do {
       (ret, n) \<leftarrow> read_config (blank_node nid start_mode db_ptr d);
       if ret \<noteq> 0 then map_option (\<lambda>_. None) (free_node n)
       else do {
         (ret, n) \<leftarrow> initialize_node E log_path mode have_ucb db_ptr n;
         if ret \<noteq> 0 then map_option (\<lambda>_. None) (free_node n)
         else if \<not> listener_bind_ok E then map_option (\<lambda>_. None) (free_node n)
         else Some (Some (n\<lparr>listener := Ptr ()\<rparr>))
       }
     }
   }"

definition system_exit :: "'d node \<Rightarrow> 'd node option" where
  "system_exit n = free_node n"

end
