(* ===== verification/NodeProps.thy ===== *)
theory NodeProps
  imports Replica ConsensusErrors
begin

text \<open>
  Properties of the node: sending to the group, the two timers of a leader that is replaced, and
  what a change of view leaves in the database.
\<close>

section \<open>Sending\<close>

text \<open>The connections of the peers that are marked active are there.\<close>

definition peers_ok :: "('d, 'z) node_scheme \<Rightarrow> bool" where
  "peers_ok n \<longleftrightarrow> unat (group_size n) \<le> length (peer_pool n) \<and>
     (\<forall>p \<in> set (peer_pool n). active p \<longrightarrow> (\<exists>ws. my_buff_event p = Ptr ws))"

fun conn_append :: "bytes \<Rightarrow> conn ptr \<Rightarrow> conn ptr" where
  "conn_append m (Ptr ws) = Ptr (ws @ [m])"
| "conn_append m c = c"

definition sent_to :: "('d, 'z) node_scheme \<Rightarrow> nat \<Rightarrow> bool" where
  "sent_to n i \<longleftrightarrow> int i \<noteq> sint (node_id n) \<and> active (peer_pool n ! i)"

definition deliver_to :: "nat set \<Rightarrow> bytes \<Rightarrow> peer list \<Rightarrow> peer list" where
  "deliver_to is m ps = map (\<lambda>i. let p = ps ! i in
     if i \<in> is then p\<lparr>my_buff_event := conn_append m (my_buff_event p)\<rparr> else p) [0..<length ps]"

lemma length_deliver_to [simp]: "length (deliver_to is m ps) = length ps"
  by (simp add: deliver_to_def)

lemma deliver_to_nth: "i < length ps \<Longrightarrow> deliver_to is m ps ! i =
    (if i \<in> is then (ps ! i)\<lparr>my_buff_event := conn_append m (my_buff_event (ps ! i))\<rparr> else ps ! i)"
  by (simp add: deliver_to_def Let_def)

lemma deliver_to_empty [simp]: "deliver_to {} m ps = ps"
  by (rule nth_equalityI) (simp_all add: deliver_to_nth)

lemma set_peer_pool [simp]: "peer_pool (set_peer i p n) = (peer_pool n)[nat i := p]"
  "node_id (set_peer i p n) = node_id n" "group_size (set_peer i p n) = group_size n"
  by (simp_all add: set_peer_def)

lemma deliver_to_insert:
  assumes "i < length ps" "i \<notin> is"
  shows "deliver_to is m (ps[i := (ps ! i)\<lparr>my_buff_event := conn_append m (my_buff_event (ps ! i))\<rparr>]) =
    deliver_to (insert i is) m ps"
  using assms by (intro nth_equalityI) (auto simp: deliver_to_nth nth_list_update)

lemma send_each_eq:
  assumes "distinct is" "\<forall>i \<in> set is. i < length (peer_pool n)"
    and "\<forall>p \<in> set (peer_pool n). active p \<longrightarrow> (\<exists>ws. my_buff_event p = Ptr ws)"
  shows "send_each is m n =
    Some (n\<lparr>peer_pool := deliver_to {i \<in> set is. sent_to n i} m (peer_pool n)\<rparr>)"
  using assms
proof (induction "is" arbitrary: n)
  case (Cons i "is")
  let ?p = "peer_pool n ! i"
  have p: "peer_at n (int i) = Some ?p" "?p \<in> set (peer_pool n)"
    using Cons.prems(2) by (simp_all add: peer_at_def)
  show ?case
  proof (cases "sent_to n i")
    case False
    then have "send_each (i # is) m n = send_each is m n"
      using p by (auto simp: sent_to_def)
    moreover have "{j \<in> set (i # is). sent_to n j} = {j \<in> set is. sent_to n j}" using False by auto
    ultimately show ?thesis using Cons by simp
  next
    case True
    then obtain ws where ws: "my_buff_event ?p = Ptr ws" "active ?p" "int i \<noteq> sint (node_id n)"
      using Cons.prems(3) p(2) by (auto simp: sent_to_def)
    let ?q = "?p\<lparr>my_buff_event := Ptr (ws @ [m])\<rparr>"
    let ?n = "set_peer (int i) ?q n"
    have s: "sent_to ?n j \<longleftrightarrow> sent_to n j" if "j \<in> set is" for j
    proof -
      have "j \<noteq> i" using that Cons.prems(1) by auto
      then show ?thesis by (simp add: sent_to_def)
    qed
    have "send_each (i # is) m n = send_each is m ?n"
      using p(1) ws by simp
    also have "\<dots> = Some (?n\<lparr>peer_pool := deliver_to {j \<in> set is. sent_to ?n j} m (peer_pool ?n)\<rparr>)"
    proof (rule Cons.IH)
      show "\<forall>p \<in> set (peer_pool ?n). active p \<longrightarrow> (\<exists>ws. my_buff_event p = Ptr ws)"
        using Cons.prems(3) by (auto dest!: set_update_subset_insert [THEN subsetD])
    qed (use Cons.prems in auto)
    also have "{j \<in> set is. sent_to ?n j} = {j \<in> set is. sent_to n j}" using s by auto
    also have "deliver_to {j \<in> set is. sent_to n j} m (peer_pool ?n) =
        deliver_to (insert i {j \<in> set is. sent_to n j}) m (peer_pool n)"
      using Cons.prems(1,2) ws(1) deliver_to_insert [of i "peer_pool n" "{j \<in> set is. sent_to n j}" m] by auto
    also have "insert i {j \<in> set is. sent_to n j} = {j \<in> set (i # is). sent_to n j}"
      using True by auto
    finally show ?thesis by (simp add: set_peer_def)
  qed
qed simp

text \<open>A message for the other nodes is appended to the connection of every active peer of the group
  except the node itself, each once, and nothing else changes.\<close>

lemma send_to_others_delivers:
  assumes "peers_ok n"
  shows "\<exists>n'. send_to_other_nodes m n = Some n' \<and> n' = n\<lparr>peer_pool := peer_pool n'\<rparr> \<and>
    length (peer_pool n') = length (peer_pool n) \<and>
    (\<forall>i < length (peer_pool n). peer_pool n' ! i =
      (if i < unat (group_size n) \<and> int i \<noteq> sint (node_id n) \<and> active (peer_pool n ! i)
       then (peer_pool n ! i)\<lparr>my_buff_event := conn_append m (my_buff_event (peer_pool n ! i))\<rparr>
       else peer_pool n ! i))"
  using send_each_eq [of "[0..<unat (group_size n)]" n m] assms
  by (auto simp: send_to_other_nodes_def peers_ok_def deliver_to_nth sent_to_def)

text \<open>A node of three with two connected peers.\<close>

definition demo_peer :: "i32 \<Rightarrow> bool \<Rightarrow> conn ptr \<Rightarrow> peer" where
  "demo_peer i on c = \<lparr>peer_id = i, active = on, sock_id = 0, peer_address = NULL,
     my_buff_event = c, reconnect = NULL\<rparr>"

definition demo_node :: "mem_db node" where
  "demo_node = (blank_node 0 ''s'' (Some \<lparr>bdb_ptr = Some ''d''\<rparr>) Map.empty)
     \<lparr>group_size := 3, peer_pool := [demo_peer 0 False NULL, demo_peer 1 True (Ptr []),
        demo_peer 2 False NULL], consensus_comp := Ptr ()\<rparr>"

lemma demo_node_simps [simp]:
  "group_size demo_node = 3" "node_id demo_node = 0" "consensus_comp demo_node = Ptr ()"
  "peer_pool demo_node = [demo_peer 0 False NULL, demo_peer 1 True (Ptr []), demo_peer 2 False NULL]"
  "cur_view demo_node = \<lparr>v_view_id = 1, v_leader_id = 0, v_req_id = 0\<rparr>"
  "disk demo_node = Map.empty" "node_db_ptr demo_node = Some \<lparr>bdb_ptr = Some ''d''\<rparr>"
  "node_state demo_node = NODE_ACTIVE" "election_mod demo_node = None"
  by (simp_all add: demo_node_def blank_node_def Let_def)

lemma send_to_others_delivers_witness:
  "\<exists>n'. send_to_other_nodes [1, 2] demo_node = Some n' \<and>
     my_buff_event (peer_pool n' ! 1) = Ptr [[1, 2]] \<and> my_buff_event (peer_pool n' ! 2) = NULL"
proof -
  have "peers_ok demo_node" by (auto simp: peers_ok_def demo_peer_def)
  then obtain n' where n': "send_to_other_nodes [1, 2] demo_node = Some n'"
    "\<forall>i < 3. peer_pool n' ! i = (if i < 3 \<and> int i \<noteq> 0 \<and> active (peer_pool demo_node ! i)
       then (peer_pool demo_node ! i)\<lparr>my_buff_event :=
         conn_append [1, 2] (my_buff_event (peer_pool demo_node ! i))\<rparr>
       else peer_pool demo_node ! i)"
    using send_to_others_delivers [of demo_node "[1, 2]"] by auto
  then have "peer_pool n' ! 1 = demo_peer 1 True (Ptr [[1, 2]])" "peer_pool n' ! 2 = demo_peer 2 False NULL"
    by (simp_all add: demo_peer_def)
  with n'(1) show ?thesis by (simp add: demo_peer_def)
qed

section \<open>Pings and timers\<close>

text \<open>The acknowledgement of a ping never has an effect: it is only looked at when it comes from
  the view before, and then \<open>update_view\<close> takes it for no new view.\<close>

lemma ping_ack_ignored: "handle_ping_ack E msg n = Some n"
proof -
  have "w + 1 + 1 \<noteq> (w :: u32)" for w
    by (simp add: add.assoc)
  then show ?thesis by (simp add: handle_ping_ack_def update_view_def)
qed

lemma initialize_ping_keeps:
  "initialize_leader_ping E n = Some (r, n') \<Longrightarrow> ev_make_progress n' = ev_make_progress n \<and>
    cur_view n' = cur_view n \<and> node_id n' = node_id n \<and> disk n' = disk n \<and>
    node_db_ptr n' = node_db_ptr n \<and> election_mod n' = election_mod n"
  "initialize_expect_ping E n = Some (r, n') \<Longrightarrow> ev_make_progress n' = ev_make_progress n \<and>
    cur_view n' = cur_view n \<and> node_id n' = node_id n \<and> disk n' = disk n \<and>
    node_db_ptr n' = node_db_ptr n \<and> election_mod n' = election_mod n"
  by (auto simp: initialize_leader_ping_def initialize_expect_ping_def Let_def split: if_splits)

lemma store_view_loop_keeps:
  "store_view_loop E k r n = Some n' \<Longrightarrow> n' = n\<lparr>disk := disk n'\<rparr>"
  by (induction k arbitrary: n) (fastforce simp: Let_def split: prod.splits if_splits)+

lemma consensus_update_role_keeps [simp]:
  fixes n :: "('d, 'z) node_scheme"
  shows "ev_make_progress (consensus_update_role n) = ev_make_progress n"
    "cur_view (consensus_update_role n) = cur_view n" "node_id (consensus_update_role n) = node_id n"
    "disk (consensus_update_role n) = disk n" "node_db_ptr (consensus_update_role n) = node_db_ptr n"
    "election_mod (consensus_update_role n) = election_mod n"
  by (simp_all add: consensus_update_role_def Let_def)

lemma become_keeps:
  assumes "(if node_isLeader n then become_leader E n else become_secondary E n) = Some n'"
  shows "ev_make_progress n' = ev_make_progress n \<and> cur_view n' = cur_view n \<and>
    node_id n' = node_id n \<and> disk n' = disk n \<and> election_mod n' = election_mod n"
  using assms
  by (auto simp: become_leader_def become_secondary_def update_role_def split: if_splits ptr.splits
      dest!: initialize_ping_keeps)

lemma update_view_keeps:
  assumes "update_view E v n = Some n'" "v_view_id (cur_view n) + 1 = v_view_id v"
  shows "ev_make_progress n' = ev_make_progress n \<and> cur_view n' = v \<and> node_id n' = node_id n \<and>
    election_mod n' = election_mod n"
proof -
  from assms obtain n1 where
    n1: "(if v_view_id v \<noteq> 1 then do {
        n \<leftarrow> store_view_loop E 10 (vstol (VS (v_view_id v) 0)) n;
        Some (n\<lparr>disk := snd (delete_record E (node_db_ptr n)
          (vstol (VS (v_view_id v - 1) (v_req_id v + 1))) (disk n))\<rparr>)
      } else Some n) = Some n1"
    and b: "(if node_isLeader (n1\<lparr>cur_view := v, node_state := NODE_ACTIVE\<rparr>)
      then become_leader E (n1\<lparr>cur_view := v, node_state := NODE_ACTIVE\<rparr>)
      else become_secondary E (n1\<lparr>cur_view := v, node_state := NODE_ACTIVE\<rparr>)) = Some n'"
    unfolding update_view_def Let_def by auto
  have "n1 = n\<lparr>disk := disk n1\<rparr>"
  proof (cases "v_view_id v = 1")
    case False
    with n1 obtain n2 d where "store_view_loop E 10 (vstol (VS (v_view_id v) 0)) n = Some n2"
      "n1 = n2\<lparr>disk := d\<rparr>" by auto
    with store_view_loop_keeps [of E 10 _ n n2] show ?thesis
      by (cases n; cases n2; simp)
  qed (use n1 in simp)
  then have "ev_make_progress n1 = ev_make_progress n" "node_id n1 = node_id n"
    "election_mod n1 = election_mod n"
    by (cases n; cases n1; simp)+
  with become_keeps [OF b] show ?thesis by simp
qed

text \<open>C39 the change of view leaves the progress timer as it is: a node that becomes leader gets none, as only
  the initialisation sets it, and the timer of a leader that gives way to another one stays armed; at its next
  tick the callback frees the event and then adds it again, and so fails.\<close>

theorem demoted_leader_fails:
  assumes "v_view_id (cur_view n) + 1 = v_view_id v" "update_view E v n = Some n'"
  shows "cur_view n' = v \<and> ev_make_progress n' = ev_make_progress n \<and>
    (\<forall>t. v_leader_id v \<noteq> node_id n \<and> ev_make_progress n = Ptr t \<longrightarrow> make_progress_on E n' = None)"
  using update_view_keeps [OF assms(2,1)]
  by (auto simp: make_progress_on_def initialize_leader_make_progress_def)

definition demo_view :: view where
  "demo_view = \<lparr>v_view_id = 2, v_leader_id = 1, v_req_id = 0\<rparr>"

lemma demo_update: "map_option (\<lambda>n. ev_make_progress n)
    (update_view mem_env demo_view (demo_node\<lparr>ev_make_progress := Ptr None\<rparr>)) = Some (Ptr None)"
  by code_simp

theorem demoted_leader_fails_witness:
  "\<exists>n'. update_view mem_env demo_view (demo_node\<lparr>ev_make_progress := Ptr None\<rparr>) = Some n' \<and>
     make_progress_on mem_env n' = None"
proof -
  obtain n' where n': "update_view mem_env demo_view (demo_node\<lparr>ev_make_progress := Ptr None\<rparr>) = Some n'"
    using demo_update by auto
  have "v_view_id (cur_view (demo_node\<lparr>ev_make_progress := Ptr None\<rparr>)) + 1 = v_view_id demo_view"
    by (simp add: demo_view_def)
  from demoted_leader_fails [OF this n'] n' show ?thesis by (auto simp: demo_view_def)
qed

section \<open>Change of view\<close>

lemma store_view_loop_stores:
  assumes "bdb_contract E" "store_view_loop E k r n = Some n'"
  shows "retrieve_record E (node_db_ptr n) r (disk n') = (0, Some (stack_bytes E))"
  using assms(2)
proof (induction k arbitrary: n)
  case (Suc k)
  obtain ret d where st: "store_record E (node_db_ptr n) r (stack_bytes E) (disk n) = (ret, d)"
    by (meson surj_pair)
  have "stack_bytes E \<noteq> []" by (simp add: stack_bytes_def)
  with Suc st rs.retrieve_store [OF assms(1), of "node_db_ptr n" r "stack_bytes E" "disk n" d]
  show ?case by (cases "ret = 0") fastforce+
qed simp

text \<open>C40 the record that is to tell where the old view ended is not the new view: it has the bytes of
  the stack from the pointer parameter on, whatever the view is that the node changes to.\<close>

theorem view_boundary_is_stack:
  assumes "bdb_contract E" "v_view_id (cur_view n) + 1 = v_view_id v" "v_view_id v \<noteq> 1"
    and "update_view E v n = Some n'"
  shows "retrieve_record E (node_db_ptr n) (vstol (VS (v_view_id v) 0)) (disk n') =
    (0, Some (stack_bytes E))"
proof -
  let ?k = "vstol (VS (v_view_id v) 0)"
  let ?j = "vstol (VS (v_view_id v - 1) (v_req_id v + 1))"
  from assms(2-4) obtain n1 where n1: "store_view_loop E 10 ?k n = Some n1"
    and b: "(let n2 = n1\<lparr>disk := snd (delete_record E (node_db_ptr n1) ?j (disk n1)),
        cur_view := v, node_state := NODE_ACTIVE\<rparr>
      in if node_isLeader n2 then become_leader E n2 else become_secondary E n2) = Some n'"
    unfolding update_view_def Let_def by auto
  have d: "disk n' = snd (delete_record E (node_db_ptr n1) ?j (disk n1))"
    using become_keeps [OF b [unfolded Let_def]] by simp
  have h: "node_db_ptr n1 = node_db_ptr n"
    using store_view_loop_keeps [OF n1] by (cases n; cases n1; simp)
  have "?k \<noteq> ?j" by (simp add: algebra_simps)
  then show ?thesis
    using store_view_loop_stores [OF assms(1) n1]
      rs.retrieve_delete_other [OF assms(1) prod.collapse [symmetric], of ?k ?j "node_db_ptr n1" "disk n1"]
    by (simp add: d h)
qed

theorem view_boundary_is_stack_witness:
  "\<exists>n'. update_view mem_env demo_view (demo_node\<lparr>ev_make_progress := Ptr None\<rparr>) = Some n' \<and>
     retrieve_record mem_env (Some \<lparr>bdb_ptr = Some ''d''\<rparr>) (vstol (VS 2 0)) (disk n') =
       (0, Some (replicate 24 0xAA))"
proof -
  obtain n' where n': "update_view mem_env demo_view (demo_node\<lparr>ev_make_progress := Ptr None\<rparr>) = Some n'"
    using demo_update by auto
  have "stack_bytes mem_env = replicate 24 0xAA" by (simp add: stack_bytes_def mem_env_def map_replicate_const)
  with view_boundary_is_stack [OF mem_env_bdb _ _ n'] n' show ?thesis
    by (simp add: demo_view_def)
qed

end
