(* ===== verification/Streams.thy ===== *)
theory Streams
  imports Prelude
begin

text \<open>
  The interface of the loops that take messages off an input stream: such a loop leaves an incomplete
  message where it is, and handles a message at the front and goes on behind it. The node's and the
  proxy's loop are instances.
\<close>

fun feed :: "('m \<Rightarrow> 's \<Rightarrow> 's option) \<Rightarrow> 'm list \<Rightarrow> 's \<Rightarrow> 's option" where
  "feed handle [] s = Some s"
| "feed handle (m # ms) s = do { s \<leftarrow> handle m s; feed handle ms s }"

lemma feed_append: "feed handle (xs @ ys) s = Option.bind (feed handle xs s) (feed handle ys)"
  by (induction xs arbitrary: s) (auto split: Option.bind_split)

lemma feed_cong: "(\<And>m s. m \<in> set ms \<Longrightarrow> f m s = g m s) \<Longrightarrow> feed f ms s = feed g ms s"
  by (induction ms arbitrary: s) (auto split: Option.bind_split)

lemma feed_map: "feed f (map h ms) s = feed (f \<circ> h) ms s"
  by (induction ms arbitrary: s) (auto split: Option.bind_split)

locale frame_reader =
  fixes loop :: "bytes \<times> 's \<Rightarrow> (bytes \<times> 's) option"
    and is_msg :: "bytes \<Rightarrow> bool"
    and handle :: "bytes \<Rightarrow> 's \<Rightarrow> 's option"
    and partial_msg :: "bytes \<Rightarrow> bool"
  assumes stops: "partial_msg tail \<Longrightarrow> loop (tail, s) = Some (tail, s)"
    and step: "is_msg f \<Longrightarrow> loop (f @ rest, s) = Option.bind (handle f s) (\<lambda>s. loop (rest, s))"
begin

lemma reads:
  "\<forall>f \<in> set fs. is_msg f \<Longrightarrow> partial_msg tail \<Longrightarrow>
    loop (concat fs @ tail, s) = map_option (Pair tail) (feed handle fs s)"
proof (induction fs arbitrary: s)
  case (Cons f fs)
  then show ?case by (cases "handle f s") (simp_all add: step)
qed (simp add: stops)

text \<open>Cutting the stream in two between messages makes no difference.\<close>

lemma reads_twice:
  assumes "\<forall>f \<in> set fs. is_msg f" "partial_msg tail" "partial_msg []"
  shows "loop (concat fs @ tail, s) =
    Option.bind (loop (concat fs, s)) (\<lambda>(_, s). loop (tail, s))"
  using assms reads [of fs tail s] reads [of fs "[]" s]
  by (cases "feed handle fs s") (simp_all add: stops)

end

end
