(* ===== verification/FramingProps.thy ===== *)
theory FramingProps
  imports NodeProps Streams
begin

text \<open>
  Properties of the byte stream between nodes: how it is cut into messages, the way of a consensus
  message from one component to the other, and the header that the reading loop never gets past.
\<close>

section \<open>Frames\<close>

lemma sys_msg_code_of_numeral [simp]:
  "sys_msg_code_of 0 = Some PING_REQ" "sys_msg_code_of 1 = Some PING_ACK"
  "sys_msg_code_of 2 = Some REQUEST_SUBMIT" "sys_msg_code_of 5 = Some CONSENSUS_MSG"
  "sys_msg_code_of 16 = Some LEADER_ELECTION_MSG"
  by (simp_all add: sys_msg_code_of_def code_find_def)

definition is_frame :: "bytes \<Rightarrow> bool" where
  "is_frame f \<longleftrightarrow> (\<exists>t p payload. f = enc_header p \<lparr>sh_type = t, sh_data_size = of_nat (length payload)\<rparr> @
     payload \<and> length payload < 2147483632)"

text \<open>The block a frame is handled in: what the allocator gave for it.\<close>

definition frame_block :: "'d env \<Rightarrow> bytes \<Rightarrow> bytes" where
  "frame_block E f = f @ map (junk E) [length f..<the (malloc_usable E (length f))]"

abbreviation dispatch_all ::
  "'d env \<Rightarrow> bytes list \<Rightarrow> ('d, 'z) node_scheme \<Rightarrow> ('d, 'z) node_scheme option" where
  "dispatch_all E \<equiv> feed (\<lambda>f. dispatch_msg E (frame_block E f))"

lemma frame_header:
  assumes "is_frame f"
  obtains h where "dec_header (f @ rest) = Some h"
    "unat (16 + (scast (ucast (sh_data_size h) :: i32) :: u64)) = length f" "16 \<le> length f"
proof -
  from assms obtain t p payload where
    f: "f = enc_header p \<lparr>sh_type = t, sh_data_size = of_nat (length payload)\<rparr> @ payload"
      "length payload < 2147483632"
    by (auto simp: is_frame_def)
  let ?s = "of_nat (length payload) :: u64"
  have s: "unat ?s = length payload" using f(2) by (simp add: unat_of_nat_small)
  then have "(scast (ucast ?s :: i32) :: u64) = ?s" using f(2) by (intro scast_ucast_small) simp
  moreover have "unat (16 + ?s) = 16 + length payload" using s f(2) by (simp add: unat_word_ariths)
  ultimately show thesis
    by (intro that [of "\<lparr>sh_type = t, sh_data_size = ?s\<rparr>"]) (simp_all add: f header.dec_enc_append)
qed

definition incomplete :: "bytes \<Rightarrow> bool" where
  "incomplete tail \<longleftrightarrow> length tail < 16 \<or> (\<exists>h. dec_header tail = Some h \<and>
     sh_data_size h < 2147483632 \<and> length tail < 16 + unat (sh_data_size h))"

lemma read_loop_stops:
  assumes "incomplete tail" "malloc_usable E 16 \<noteq> None"
  shows "replica_read_loop E (tail, n) = Some (tail, n)"
proof (cases "length tail < 16")
  case True
  then show ?thesis by (subst replica_read_loop.simps) simp
next
  case False
  with assms(1) obtain h where h: "dec_header tail = Some h" "sh_data_size h < 2147483632"
    "length tail < 16 + unat (sh_data_size h)"
    by (auto simp: incomplete_def)
  then have u: "unat (sh_data_size h) < 2147483632" by (simp add: word_less_nat_alt)
  then have "(scast (ucast (sh_data_size h) :: i32) :: u64) = sh_data_size h"
    by (intro scast_ucast_small) simp
  moreover have "unat (16 + sh_data_size h) = 16 + unat (sh_data_size h)"
    using u by (simp add: unat_word_ariths)
  ultimately show ?thesis
    using h assms(2) False by (subst replica_read_loop.simps) auto
qed

lemma read_loop_frame:
  assumes "is_frame f" "\<forall>k. malloc_usable E k \<noteq> None"
  shows "replica_read_loop E (f @ rest, n) =
    Option.bind (dispatch_msg E (frame_block E f) n) (\<lambda>n. replica_read_loop E (rest, n))"
proof -
  obtain h where h: "dec_header (f @ rest) = Some h"
    "unat (16 + (scast (ucast (sh_data_size h) :: i32) :: u64)) = length f" "16 \<le> length f"
    using frame_header [OF assms(1)] by blast
  obtain k k' where k: "malloc_usable E (length f) = Some k" "malloc_usable E 16 = Some k'"
    using assms(2) by blast
  have "handle_msg E (scast (ucast (sh_data_size h) :: i32)) (f @ rest, n) =
      map_option (Pair rest) (dispatch_msg E (frame_block E f) n)"
    using h(2) k by (simp add: handle_msg_def frame_block_def)
  with h k show ?thesis
    by (subst replica_read_loop.simps) (cases "dispatch_msg E (frame_block E f) n"; simp)
qed

interpretation replica_stream: frame_reader "replica_read_loop E"
    "\<lambda>f. is_frame f \<and> (\<forall>k. malloc_usable E k \<noteq> None)" "\<lambda>f. dispatch_msg E (frame_block E f)"
    "\<lambda>tail. incomplete tail \<and> malloc_usable E 16 \<noteq> None" for E :: "'d env"
  by unfold_locales (simp_all add: read_loop_stops read_loop_frame)

text \<open>C24 a node takes the messages off its input one by one, in the order they arrive and each exactly
  once, however the stream was cut into reads, and leaves an incomplete message for the next read.\<close>

theorem reads_frames:
  assumes "\<forall>f \<in> set fs. is_frame f" "incomplete tail" "\<forall>k. malloc_usable E k \<noteq> None"
  shows "replica_on_read E (concat fs @ tail, n) =
    map_option (\<lambda>n. (tail, check_exit n)) (dispatch_all E fs n)"
  using replica_stream.reads [of fs E tail n] assms
  by (cases "dispatch_all E fs n") (simp_all add: replica_on_read_def)

text \<open>Two pings of the current view and the beginning of a third message.\<close>

definition demo_ping :: bytes where
  "demo_ping = enc_header 0 \<lparr>sh_type = sys_msg_code_val PING_REQ, sh_data_size = of_nat (length
     (enc_ping 0 0 \<lparr>pm_node_id = 1, pm_view = \<lparr>v_view_id = 1, v_leader_id = 0, v_req_id = 0\<rparr>,
       pm_timestamp = \<lparr>tv_sec = 50, tv_usec = 0\<rparr>\<rparr>))\<rparr> @
     enc_ping 0 0 \<lparr>pm_node_id = 1, pm_view = \<lparr>v_view_id = 1, v_leader_id = 0, v_req_id = 0\<rparr>,
       pm_timestamp = \<lparr>tv_sec = 50, tv_usec = 0\<rparr>\<rparr>"

theorem reads_frames_witness:
  "replica_on_read mem_env (demo_ping @ demo_ping @ [1, 2, 3], demo_node) = Some ([1, 2, 3], demo_node)"
proof -
  have f: "is_frame demo_ping"
    unfolding is_frame_def demo_ping_def by (intro exI conjI, rule refl) simp
  have d: "dispatch_msg mem_env (frame_block mem_env demo_ping) demo_node = Some demo_node"
  proof -
    have dp: "dec_ping (frame_block mem_env demo_ping) = Some \<lparr>pm_node_id = 1,
        pm_view = \<lparr>v_view_id = 1, v_leader_id = 0, v_req_id = 0\<rparr>,
        pm_timestamp = \<lparr>tv_sec = 50, tv_usec = 0\<rparr>\<rparr>"
      "ld 4 0 (frame_block mem_env demo_ping) = Some (sys_msg_code_val PING_REQ)"
      unfolding frame_block_def demo_ping_def append_assoc
      by (simp only: append_assoc [symmetric] ping.dec_enc_append)
        (simp add: enc_header_def layout)
    then show ?thesis by (simp add: dispatch_msg_def handle_ping_req_def node_isLeader_def)
  qed
  have "replica_on_read mem_env (concat [demo_ping, demo_ping] @ [1, 2, 3], demo_node) =
      map_option (\<lambda>n. ([1, 2, 3], check_exit n)) (dispatch_all mem_env [demo_ping, demo_ping] demo_node)"
    using f by (intro reads_frames) (simp_all add: incomplete_def mem_env_def)
  then show ?thesis using d by (simp add: check_exit_def demo_node_def blank_node_def Let_def)
qed

text \<open>C25 a message of the consensus component reaches the component of the receiving node as it was
  built: the wrapping of one side and the dispatch of the other cancel out, up to the unused end of
  the receiver's block.\<close>

theorem consensus_msg_roundtrip:
  assumes "build_consensus_msg E (of_nat (length m)) m = Some (Some blk)" "length m < 4294967296"
    and "node_state n = NODE_ACTIVE" "consensus_comp n = Ptr ()"
  shows "dispatch_msg E' (blk @ rest) n = run_consensus E' (consensus_handle_msg E' (m @ rest)) n"
proof -
  have "unat (of_nat (length m) :: u32) = length m" using assms(2) by (simp add: unat_of_nat_small)
  with assms(1) obtain p s where blk:
    "blk = enc_header p \<lparr>sh_type = sys_msg_code_val CONSENSUS_MSG, sh_data_size = s\<rparr> @ m"
    by (auto simp: build_consensus_msg_def ld_bytes_def split: if_splits dest!: alloc_fill_Some_SomeD)
  then have "ld 4 0 (blk @ rest) = Some (sys_msg_code_val CONSENSUS_MSG)" "drop 16 (blk @ rest) = m @ rest"
    by (simp_all add: enc_header_def layout)
  with assms(3,4) show ?thesis
    by (simp add: dispatch_msg_def handle_consensus_msg_def del: append_assoc drop_append)
qed

theorem consensus_msg_roundtrip_witness:
  "dispatch_msg mem_env (enc_header (junk32 mem_env 4) \<lparr>sh_type = 5, sh_data_size = 1\<rparr> @ [9]) demo_node =
    run_consensus mem_env (consensus_handle_msg mem_env [9]) demo_node"
proof -
  have "build_consensus_msg mem_env (of_nat (length [9 :: u8])) [9] =
      Some (Some (enc_header (junk32 mem_env 4) \<lparr>sh_type = 5, sh_data_size = 1\<rparr> @ [9]))"
    by (simp add: build_consensus_msg_def mem_env_def alloc_fill_def ld_bytes_def glibc_usable_def junk32_def)
  from consensus_msg_roundtrip [OF this, of demo_node mem_env "[]"] show ?thesis by simp
qed

text \<open>C36 a message that announces \<open>2 ^ 32 - 16\<close> bytes of data keeps a node busy for ever: the size
  becomes a negative \<open>int\<close>, the message of no bytes is taken off the input, handled and found
  again.\<close>

theorem negative_size_never_returns:
  assumes "dec_header input = Some h" "(ucast (sh_data_size h) :: i32) = 0xFFFFFFF0"
    and "malloc_usable E 16 \<noteq> None" "malloc_usable E 0 \<noteq> None"
  shows "replica_on_read E (input, n) = None"
proof -
  have sz: "(scast (ucast (sh_data_size h) :: i32) :: u64) = - 16"
    unfolding assms(2) by code_simp
  have len: "16 \<le> length input"
    using assms(1) by (auto simp: dec_header_def ld_def split: if_splits)
  have "fst s \<noteq> input" if "replica_read_loop E s = Some r" for s and r :: "bytes \<times> ('a, 'b) node_scheme"
  proof -
    have "E = E \<longrightarrow> fst s \<noteq> input"
      using that
    proof (rule replica_read_loop.raw_induct [where P = "\<lambda>E1 s r. E1 = E \<longrightarrow> fst s \<noteq> input", rotated])
      fix loop E1 and s r :: "bytes \<times> ('a, 'b) node_scheme"
      assume IH: "\<And>E1 s r. loop E1 s = Some (r :: bytes \<times> ('a, 'b) node_scheme) \<Longrightarrow> E1 = E \<longrightarrow> fst s \<noteq> input"
        and eq: "(if SYS_MSG_HEADER_SIZE \<le> length (fst s) then
            if malloc_usable E1 SYS_MSG_HEADER_SIZE = None then Some s
            else do {
              buf \<leftarrow> dec_header (fst s);
              let data_size = (scast (ucast (sh_data_size buf) :: i32) :: u64);
              if unat (16 + data_size) \<le> length (fst s) then do {
                s \<leftarrow> handle_msg E1 data_size s;
                loop E1 s
              }
              else Some s
            }
          else Some s) = Some r"
      show "E1 = E \<longrightarrow> fst s \<noteq> input"
      proof (intro impI notI)
        assume "E1 = E" "fst s = input"
        with eq assms(1,3) sz len obtain s' where s': "handle_msg E (- 16) s = Some s'" "loop E s' = Some r"
          by auto
        have "fst s' = input"
          using s'(1) \<open>fst s = input\<close> assms(4) by (auto simp: handle_msg_def split: prod.splits)
        with IH [OF s'(2)] show False by simp
      qed
    qed
    then show ?thesis by simp
  qed
  then have "replica_read_loop E (input, n) = None"
    by (cases "replica_read_loop E (input, n)") force+
  then show ?thesis by (simp add: replica_on_read_def)
qed

theorem negative_size_never_returns_witness:
  "replica_on_read mem_env (enc_header 0 \<lparr>sh_type = 0, sh_data_size = 0xFFFFFFF0\<rparr>, demo_node) = None"
  by (rule negative_size_never_returns [OF header.dec_enc]) (simp_all add: mem_env_def)

end
