(* ===== verification/ElectionRuns.thy ===== *)
theory ElectionRuns
  imports FramingProps
begin

text \<open>
  Runs of the leader election, evaluated step by step: a database that keeps its entries in a list,
  three nodes that have lost their leader, and two rounds of the election among them, in which two
  nodes are elected leader of one view. The states between the rounds are the inputs of the
  witnesses of \<open>ElectionProps\<close>.
\<close>

section \<open>Two leaders\<close>

text \<open>A database that keeps its entries in a list, in which the steps of an election are evaluated.\<close>

type_synonym log_db = "((string \<times> db_key_type) \<times> bytes) list"

definition log_env :: "log_db env" where
  "log_env = \<lparr>
     malloc_usable = (\<lambda>n. Some (glibc_usable n)),
     junk = (\<lambda>_. 0xAA),
     now = \<lparr>tv_sec = 100, tv_usec = 5\<rparr>,
     os_mkdir = (\<lambda>_. (0, False)),
     bdb_env_create = 0,
     bdb_env_open = (\<lambda>_. 0),
     bdb_create = (\<lambda>_. 0),
     bdb_open = (\<lambda>d _. (0, d)),
     bdb_close = (\<lambda>d _ _. d),
     bdb_put = (\<lambda>d b k v. (0, ((b, k), v) # d)),
     bdb_get = (\<lambda>d b k. case map_of d (b, k) of None \<Rightarrow> (- 30988, []) | Some v \<Rightarrow> (0, v)),
     bdb_del = (\<lambda>d b k. (if map_of d (b, k) = None then - 30988 else 0,
       filter (\<lambda>e. fst e \<noteq> (b, k)) d)),
     event_new_ok = True,
     bufferevent_new_ok = True,
     event_base_new_ok = True,
     listener_bind_ok = True,
     os_fopen = (\<lambda>_. True)\<rparr>"

text \<open>Three nodes that have lost their leader, connected with each other.\<close>

definition elect_node :: "node_id_t \<Rightarrow> log_db node" where
  "elect_node i = (blank_node i ''s'' (Some \<lparr>bdb_ptr = Some ''d''\<rparr>) [])
     \<lparr>group_size := 3, peer_pool := map (\<lambda>j. demo_peer j True (Ptr [])) [0, 1, 2],
      consensus_comp := Ptr (), cur_view := \<lparr>v_view_id = 1, v_leader_id = 0, v_req_id = 0\<rparr>,
      highest_seen_vs := VS 1 0, highest_to_commit_vs := VS 1 0, highest_committed_vs := VS 1 0\<rparr>"

text \<open>The last chunk that a node has written to a peer, and a node whose connections have sent
  everything.\<close>

definition last_to :: "nat \<Rightarrow> log_db node \<Rightarrow> bytes option" where
  "last_to i n = (case my_buff_event (peer_pool n ! i) of
     Ptr ws \<Rightarrow> if ws = [] then None else Some (last ws) | _ \<Rightarrow> None)"

definition drained :: "log_db node \<Rightarrow> log_db node" where
  "drained n = n\<lparr>peer_pool := map (\<lambda>p. p\<lparr>my_buff_event := Ptr []\<rparr>) (peer_pool n)\<rparr>"

text \<open>Node \<open>i\<close> proposes, node \<open>0\<close> promises, and node \<open>i\<close> sends its proposal; then node \<open>0\<close> accepts it and
  node \<open>i\<close> learns. What else is sent is lost or late.\<close>

definition prepare_round ::
  "nat \<Rightarrow> log_db node \<Rightarrow> log_db node \<Rightarrow> (bytes \<times> log_db node \<times> log_db node) option" where
  "prepare_round i n0 ni = do {
     ni \<leftarrow> leader_election_on_timeout log_env ni;
     prepare \<leftarrow> last_to 0 ni;
     n0 \<leftarrow> dispatch_msg log_env prepare n0;
     promise \<leftarrow> last_to i n0;
     ni \<leftarrow> dispatch_msg log_env promise ni;
     accept \<leftarrow> last_to 0 ni;
     Some (accept, drained n0, drained ni)
   }"

definition accept_round ::
  "nat \<Rightarrow> bytes \<Rightarrow> log_db node \<Rightarrow> log_db node \<Rightarrow> (log_db node \<times> log_db node) option" where
  "accept_round i accept n0 ni = do {
     n0 \<leftarrow> dispatch_msg log_env accept n0;
     accepted \<leftarrow> last_to i n0;
     ni \<leftarrow> dispatch_msg log_env accepted ni;
     Some (drained n0, drained ni)
   }"

definition two_rounds :: "(log_db node \<times> log_db node) option" where
  "two_rounds = do {
     n0 \<leftarrow> initialize_leader_election log_env (elect_node 0);
     n1 \<leftarrow> initialize_leader_election log_env (elect_node 1);
     n2 \<leftarrow> initialize_leader_election log_env (elect_node 2);
     (accept, n0, n1) \<leftarrow> prepare_round 1 n0 n1;
     (n0, n1) \<leftarrow> accept_round 1 accept n0 n1;
     (accept, n0, n2) \<leftarrow> prepare_round 2 n0 n2;
     (n0, n2) \<leftarrow> accept_round 2 accept n0 n2;
     Some (n1, n2)
   }"

definition announced :: "log_db node \<Rightarrow> (node_state_code \<times> view_id_t \<times> node_id_t) option" where
  "announced n = map_option (\<lambda>md. (node_state n, next_view md, new_leader md)) (election_mod n)"

text \<open>The states between the rounds: what node \<open>i\<close> holds when it has sent its next proposal number \<open>p\<close>, its
  acceptor \<open>a\<close>, what it has learned and what it was promised.\<close>

definition elect_state :: "node_id_t \<Rightarrow> pnum_t \<Rightarrow> acceptor_record \<Rightarrow> (pnum_t \<times> node_id_t) list \<Rightarrow>
    (pnum_t \<times> pnum_t) list \<Rightarrow> u32 \<Rightarrow> acceptor_record list \<Rightarrow> log_db node" where
  "elect_state i p a ls ps t hist = (elect_node i)\<lparr>node_state := NODE_INLELE,
     disk := map (\<lambda>r. ((''d'', 2), enc_acceptor_record r)) hist,
     election_mod := Some
       \<lparr>final_state = 0, next_view = 2, new_leader = 0, next_pnum = p,
        edge = \<lparr>msg_count = None, req_edge = None, edge_start = - 1, edge_end = 0,
                cur_empty_slots = 0, max_empty_slots = 0\<rparr>,
        acceptor = a,
        learner_arr = map (\<lambda>(q, c). \<lparr>lr_pnum = q, lr_content = c, lr_last_req = 0xAAAAAAAA\<rparr>) ls,
        proposer_arr = map (\<lambda>(q, c). \<lparr>pr_p_pnum = q, pr_a_pnum = c, pr_content = - 1\<rparr>) ps,
        slient_period = Ptr (Some \<lparr>tv_sec = scast t, tv_usec = 0\<rparr>), announce_ack_msg = None\<rparr>\<rparr>"

abbreviation "junk_id \<equiv> 0xAAAAAAAAAAAAAAAA :: u64"
abbreviation "no_vote \<equiv> (- 1 :: u64, junk_id)"
abbreviation "no_promise \<equiv> (junk_id, - 1 :: u64)"
abbreviation "acc h p c \<equiv> \<lparr>highest_seen_pnum = h, accepted_pnum = p, ac_content = c\<rparr>"

definition accept_of :: "pnum_t \<Rightarrow> bytes" where
  "accept_of i = lele_bytes log_env ((junk_lele log_env)\<lparr>lm_node_id := ucast i, lm_type := lele_val LELE_ACCEPT,
     lm_next_view := 2, lm_pnum := i, lm_p_pnum := - 1, lm_content := ucast i\<rparr>)"

definition after_prepare_1 :: "log_db node \<times> log_db node" where
  "after_prepare_1 =
     (elect_state 0 0 (acc 1 0 (- 1)) [no_vote, no_vote, no_vote]
        [no_promise, no_promise, no_promise] 1 [acc 1 0 (- 1)],
      elect_state 1 4 (acc 1 0 (- 1)) [no_vote, (1, 1), no_vote]
        [(1, 0), (1, 0), no_promise] 3 [acc 1 0 (- 1)])"

definition after_accept_1 :: "log_db node" where
  "after_accept_1 = elect_state 0 0 (acc 1 1 1) [(1, 1), no_vote, no_vote]
     [no_promise, no_promise, no_promise] 1 [acc 1 1 1, acc 1 0 (- 1)]"

definition after_prepare_2 :: "log_db node \<times> log_db node" where
  "after_prepare_2 =
     (elect_state 0 0 (acc 2 1 (- 1)) [(1, 1), no_vote, no_vote]
        [no_promise, no_promise, no_promise] 1 [acc 2 1 (- 1), acc 1 1 1, acc 1 0 (- 1)],
      elect_state 2 5 (acc 2 0 (- 1)) [no_vote, no_vote, (2, 2)]
        [(2, 1), no_promise, (2, 0)] 3 [acc 2 0 (- 1)])"

lemma rounds_evaluated_1:
  "Option.bind (initialize_leader_election log_env (elect_node 0)) (\<lambda>n0.
     Option.bind (initialize_leader_election log_env (elect_node 1)) (prepare_round 1 n0)) =
   Some (accept_of 1, after_prepare_1)"
  by code_simp

lemma rounds_evaluated_2:
  "map_option (\<lambda>(n0, n1). (n0, announced n1))
     (accept_round 1 (accept_of 1) (fst after_prepare_1) (snd after_prepare_1)) =
   Some (after_accept_1, Some (NODE_POSTLELE, 2, 1))"
  by code_simp

lemma rounds_evaluated_3:
  "Option.bind (initialize_leader_election log_env (elect_node 2)) (prepare_round 2 after_accept_1) =
   Some (accept_of 2, after_prepare_2)"
  by code_simp

lemma rounds_evaluated_4:
  "map_option (\<lambda>(n0, n2). announced n2)
     (accept_round 2 (accept_of 2) (fst after_prepare_2) (snd after_prepare_2)) =
   Some (Some (NODE_POSTLELE, 2, 2))"
  by code_simp

text \<open>C32 an election can have two winners: in a group of three, node 1 is elected leader of view 2 with
  the votes of nodes 0 and 1, and then node 2 is elected leader of the same view, because node 0
  forgets the value it has accepted when it is asked to promise again.\<close>

theorem two_leaders_of_one_view:
  "\<exists>n1 n2. two_rounds = Some (n1, n2) \<and> announced n1 = Some (NODE_POSTLELE, 2, 1) \<and>
     announced n2 = Some (NODE_POSTLELE, 2, 2)"
proof -
  from rounds_evaluated_1 obtain n0 n1 where 1: "initialize_leader_election log_env (elect_node 0) = Some n0"
    "initialize_leader_election log_env (elect_node 1) = Some n1"
    "prepare_round 1 n0 n1 = Some (accept_of 1, fst after_prepare_1, snd after_prepare_1)"
    by (auto simp: bind_eq_Some_conv)
  from rounds_evaluated_2 obtain n1' where 2:
    "accept_round 1 (accept_of 1) (fst after_prepare_1) (snd after_prepare_1) = Some (after_accept_1, n1')"
    "announced n1' = Some (NODE_POSTLELE, 2, 1)" by auto
  from rounds_evaluated_3 obtain n2 where 3: "initialize_leader_election log_env (elect_node 2) = Some n2"
    "prepare_round 2 after_accept_1 n2 = Some (accept_of 2, fst after_prepare_2, snd after_prepare_2)"
    by (auto simp: bind_eq_Some_conv)
  from rounds_evaluated_4 obtain n0' n2' where 4:
    "accept_round 2 (accept_of 2) (fst after_prepare_2) (snd after_prepare_2) = Some (n0', n2')"
    "announced n2' = Some (NODE_POSTLELE, 2, 2)" by auto
  from 1 2 3 4 show ?thesis unfolding two_rounds_def by (simp add: case_prod_unfold)
qed

section \<open>Concrete steps\<close>

lemma map_of_filter_key:
  "map_of (filter (\<lambda>e. fst e \<noteq> k) d) k' = (if k' = k then None else map_of d k')"
  by (induction d) auto

lemma log_env_bdb: "bdb_contract log_env"
  by (auto simp: bdb_contract_def log_env_def map_of_filter_key split: option.splits if_splits)

definition prepare_of :: "pnum_t \<Rightarrow> lele_msg" where
  "prepare_of i = (junk_lele log_env)\<lparr>lm_node_id := ucast i, lm_type := lele_val LELE_PREPARE,
     lm_next_view := 2, lm_pnum := i, lm_p_pnum := - 1, lm_content := - 1\<rparr>"

lemma acceptor_evaluated:
  "map_option (\<lambda>_. ()) (leader_election_acceptor_do log_env (prepare_of 2) after_accept_1) = Some ()"
  by code_simp

lemma dispatch_evaluated:
  "map_option (\<lambda>n. map_option (\<lambda>md. highest_seen_pnum (acceptor md)) (election_mod n))
     (dispatch_msg log_env (lele_bytes log_env (prepare_of 2)) after_accept_1) = Some (Some 2)"
  by code_simp

lemma after_accept_1_mod:
  "\<exists>md. election_mod after_accept_1 = Some md \<and> acceptor md = acc 1 1 1 \<and> next_view md = 2 \<and>
     node_db_ptr after_accept_1 = Some \<lparr>bdb_ptr = Some ''d''\<rparr>"
  by (simp add: after_accept_1_def elect_state_def elect_node_def blank_node_def Let_def)

end
