(* ===== verification/NodeShape.thy ===== *)
theory NodeShape
  imports NodeProps
begin

text \<open>
  The shape of a node: what the code relies on without testing it. The pool has one peer for every
  node of the group and the node is one of them, an active peer has a connection, the consensus
  component knows the node and the group, its role is the one that the view gives it, and the arrays
  of the election have one entry for every node. \<open>node_kept\<close> says of two states of a node that its
  identity and configuration stay and that the shape is kept.
\<close>

section \<open>Shape\<close>

definition arrays_ok :: "nat \<Rightarrow> lele_mod \<Rightarrow> bool" where
  "arrays_ok gs md \<longleftrightarrow> length (learner_arr md) = gs \<and> length (proposer_arr md) = gs"

definition peers_linked :: "peer list \<Rightarrow> bool" where
  "peers_linked ps \<longleftrightarrow> (\<forall>p \<in> set ps. active p \<longrightarrow> (\<exists>ws. my_buff_event p = Ptr ws))"

definition role_ok :: "('d, 'z) comp \<Rightarrow> bool" where
  "role_ok n \<longleftrightarrow> (my_role n = LEADER \<longleftrightarrow> v_leader_id (cur_view n) = ucast (cc_node_id n))"

definition node_ok :: "('d, 'z) node_scheme \<Rightarrow> bool" where
  "node_ok n \<longleftrightarrow> length (peer_pool n) = unat (group_size n) \<and>
     sint (node_id n) < int (unat (group_size n)) \<and> peers_linked (peer_pool n) \<and>
     consensus_comp n = Ptr () \<and> cc_node_id n = ucast (node_id n) \<and>
     cc_group_size n = group_size n \<and> uc_set n \<and> role_ok n \<and>
     (\<forall>md. election_mod n = Some md \<longrightarrow> arrays_ok (unat (group_size n)) md)"

definition node_kept :: "('d, 'z) node_scheme \<Rightarrow> ('d, 'z) node_scheme \<Rightarrow> bool" where
  "node_kept n n' \<longleftrightarrow> node_id n' = node_id n \<and> group_size n' = group_size n \<and> config n' = config n \<and>
     (node_ok n \<longrightarrow> node_ok n')"

lemma node_kept_refl [simp]: "node_kept n n"
  by (simp add: node_kept_def)

lemma node_kept_trans: "node_kept a b \<Longrightarrow> node_kept b c \<Longrightarrow> node_kept a c"
  by (simp add: node_kept_def)

lemma node_ok_peers: "node_ok n \<Longrightarrow> peers_ok n"
  by (simp add: node_ok_def peers_ok_def peers_linked_def)

lemma role_ok_upd [simp]:
  fixes n :: "('d, 'z) node_scheme"
  shows "role_ok (n\<lparr>peer_pool := ps\<rparr>) = role_ok n" "role_ok (n\<lparr>election_mod := m\<rparr>) = role_ok n"
    "role_ok (n\<lparr>node_state := st\<rparr>) = role_ok n" "role_ok (n\<lparr>disk := d\<rparr>) = role_ok n"
    "role_ok (n\<lparr>effects := es\<rparr>) = role_ok n" "role_ok (n\<lparr>user_calls := us\<rparr>) = role_ok n"
    "role_ok (n\<lparr>ev_leader_ping := e\<rparr>) = role_ok n" "role_ok (n\<lparr>ev_expect_ping := e\<rparr>) = role_ok n"
    "role_ok (n\<lparr>ev_make_progress := e\<rparr>) = role_ok n" "role_ok (n\<lparr>last_ping_msg := t\<rparr>) = role_ok n"
    "role_ok (n\<lparr>loop_exit := b\<rparr>) = role_ok n" "role_ok (n\<lparr>exit_flag := b\<rparr>) = role_ok n"
  by (simp_all add: role_ok_def)

text \<open>Writing a field that the shape does not mention.\<close>

lemma node_kept_upd [simp]:
  "node_kept n (n\<lparr>node_state := st\<rparr>)" "node_kept n (n\<lparr>disk := d\<rparr>)" "node_kept n (n\<lparr>effects := es\<rparr>)"
  "node_kept n (n\<lparr>user_calls := us\<rparr>)" "node_kept n (n\<lparr>ev_leader_ping := e\<rparr>)"
  "node_kept n (n\<lparr>ev_expect_ping := e\<rparr>)" "node_kept n (n\<lparr>ev_make_progress := e\<rparr>)"
  "node_kept n (n\<lparr>last_ping_msg := t\<rparr>)" "node_kept n (n\<lparr>loop_exit := b\<rparr>)"
  "node_kept n (n\<lparr>exit_flag := b\<rparr>)"
  by (simp_all add: node_kept_def node_ok_def)

lemma set_peer_kept:
  assumes "active p \<Longrightarrow> \<exists>ws. my_buff_event p = Ptr ws"
  shows "node_kept n (set_peer i p n)"
  using assms set_update_subset_insert [of "peer_pool n" "nat i" p]
  by (auto simp: node_kept_def node_ok_def set_peer_def peers_linked_def)

lemma set_mod_kept:
  assumes "election_mod n = Some md" "length (learner_arr md') = length (learner_arr md)"
    "length (proposer_arr md') = length (proposer_arr md)"
  shows "node_kept n (set_mod md' n)"
  using assms by (simp add: node_kept_def node_ok_def set_mod_def arrays_ok_def)

lemma bufferevent_write_Some: "bufferevent_write c m = Some c' \<Longrightarrow> \<exists>ws. c' = Ptr ws"
  by (cases c) auto

lemma same_config_kept:
  fixes n n' :: "('d, 'z) node_scheme"
  assumes "same_config n n'"
  shows "node_kept n n'"
proof -
  note s = same_configD [OF assms]
  have "node_id n' = node_id n \<and> group_size n' = group_size n \<and> config n' = config n \<and>
      peer_pool n' = peer_pool n \<and> consensus_comp n' = consensus_comp n \<and> election_mod n' = election_mod n"
    using s(9) by (cases n; cases n') simp
  with s show ?thesis by (simp add: node_kept_def node_ok_def role_ok_def)
qed

lemma update_role_shape:
  assumes "update_role n = Some n'"
  shows "node_id n' = node_id n \<and> group_size n' = group_size n \<and> config n' = config n \<and>
    peer_pool n' = peer_pool n \<and> consensus_comp n' = consensus_comp n \<and> election_mod n' = election_mod n \<and>
    cc_node_id n' = cc_node_id n \<and> cc_group_size n' = cc_group_size n \<and> uc_set n' = uc_set n \<and> role_ok n'"
  using assms by (auto simp: update_role_def consensus_update_role_def Let_def role_ok_def split: ptr.splits if_splits)

lemma initialize_ping_kept:
  "initialize_leader_ping E n = Some (r, n') \<Longrightarrow> node_kept n n'"
  "initialize_expect_ping E n = Some (r, n') \<Longrightarrow> node_kept n n'"
  "initialize_leader_make_progress E n = Some (r, n') \<Longrightarrow> node_kept n n'"
  by (auto simp: initialize_leader_ping_def initialize_expect_ping_def initialize_leader_make_progress_def
      Let_def node_kept_def node_ok_def split: if_splits)

lemma become_kept:
  assumes "(if node_isLeader n then become_leader E n else become_secondary E n) = Some n'"
    and "node_kept m (n\<lparr>cur_view := v\<rparr>)"
  shows "node_kept m n'"
proof -
  from assms(1) obtain n1 r where n1: "update_role n = Some n1"
    "initialize_leader_ping E n1 = Some (r, n') \<or> initialize_expect_ping E n1 = Some (r, n')"
    by (auto simp: become_leader_def become_secondary_def split: if_splits)
  have "node_kept m n1"
    using assms(2) update_role_shape [OF n1(1)] by (auto simp: node_kept_def node_ok_def)
  moreover have "node_kept n1 n'" using n1(2) initialize_ping_kept by blast
  ultimately show ?thesis by (rule node_kept_trans)
qed

lemma store_view_kept: "store_view_loop E k r n = Some n' \<Longrightarrow> node_kept n n'"
  using store_view_loop_keeps [of E k r n n'] node_kept_upd(2) [of n "disk n'"] by simp

lemma update_view_kept:
  assumes "update_view E v n = Some n'"
  shows "node_kept n n'"
proof (cases "v_view_id (cur_view n) + 1 = v_view_id v")
  case False
  with assms show ?thesis by (simp add: update_view_def)
next
  case True
  with assms obtain n1 where
    n1: "(if v_view_id v \<noteq> 1 then do {
        n \<leftarrow> store_view_loop E 10 (vstol (VS (v_view_id v) 0)) n;
        Some (n\<lparr>disk := snd (delete_record E (node_db_ptr n)
          (vstol (VS (v_view_id v - 1) (v_req_id v + 1))) (disk n))\<rparr>)
      } else Some n) = Some n1"
    and b: "(if node_isLeader (n1\<lparr>cur_view := v, node_state := NODE_ACTIVE\<rparr>)
      then become_leader E (n1\<lparr>cur_view := v, node_state := NODE_ACTIVE\<rparr>)
      else become_secondary E (n1\<lparr>cur_view := v, node_state := NODE_ACTIVE\<rparr>)) = Some n'"
    unfolding update_view_def Let_def by auto
  have "node_kept n n1"
    using n1 by (auto split: if_splits dest: store_view_kept intro: node_kept_trans)
  then have "node_kept n (n1\<lparr>node_state := NODE_ACTIVE\<rparr>)" using node_kept_trans node_kept_upd(1) by blast
  then have "node_kept n (n1\<lparr>cur_view := v, node_state := NODE_ACTIVE\<rparr>\<lparr>cur_view := cur_view n1\<rparr>)"
    by simp
  from become_kept [OF b this] show ?thesis .
qed

end
