(* ===== verification/ElectionLemmas.thy ===== *)
theory ElectionLemmas
  imports NodeShape
begin

text \<open>
  What the handlers of a node leave alone: every operation of an election, and every other handler
  of a message, keeps the node's view or moves it to the next one (\<open>moves\<close>), and never takes back
  a promise of the acceptor.
\<close>

section \<open>What the operations of an election leave alone\<close>

definition promised :: "('d, 'z) node_scheme \<Rightarrow> pnum_t option" where
  "promised n = map_option (highest_seen_pnum \<circ> acceptor) (election_mod n)"

definition promise_le :: "pnum_t option \<Rightarrow> pnum_t option \<Rightarrow> bool" where
  "promise_le p q \<longleftrightarrow> (\<forall>a. p = Some a \<longrightarrow> (\<exists>b. q = Some b \<and> a \<le>s b))"

definition keeps :: "('d, 'z) node_scheme \<Rightarrow> ('d, 'z) node_scheme \<Rightarrow> bool" where
  "keeps n n' \<longleftrightarrow> cur_view n' = cur_view n \<and> promise_le (promised n) (promised n') \<and> node_kept n n'"

lemma promise_le_refl [simp]: "promise_le p p"
  by (simp add: promise_le_def)

lemma promise_le_trans: "promise_le p q \<Longrightarrow> promise_le q r \<Longrightarrow> promise_le p r"
  unfolding promise_le_def by (metis signed.order_trans)

lemma keeps_refl [simp]: "keeps n n"
  by (simp add: keeps_def)

lemma keeps_trans: "keeps a b \<Longrightarrow> keeps b c \<Longrightarrow> keeps a c"
  unfolding keeps_def by (auto intro: promise_le_trans node_kept_trans)

lemma keeps_set_peer: "(active p \<Longrightarrow> \<exists>ws. my_buff_event p = Ptr ws) \<Longrightarrow> keeps n (set_peer i p n)"
  using set_peer_kept [of p n i] by (simp add: set_peer_def keeps_def promised_def)

lemma send_to_one_keeps [frame]: "send_to_one_node t m n = Some n' \<Longrightarrow> keeps n n'"
  by (auto simp: send_to_one_node_def split: if_splits intro!: keeps_set_peer dest: bufferevent_write_Some)

lemma send_each_keeps: "send_each is m n = Some n' \<Longrightarrow> keeps n n'"
proof (induction "is" arbitrary: n)
  case (Cons i "is")
  show ?case
  proof (cases "int i \<noteq> sint (node_id n)")
    case True
    with Cons.prems obtain p n1 where n1: "(if active p then do {
        buff \<leftarrow> bufferevent_write (my_buff_event p) m;
        Some (set_peer (int i) (p\<lparr>my_buff_event := buff\<rparr>) n)
      } else Some n) = Some n1" "send_each is m n1 = Some n'"
      by auto
    then have "keeps n n1"
      by (auto split: if_splits intro!: keeps_set_peer dest: bufferevent_write_Some)
    with Cons.IH [OF n1(2)] show ?thesis using keeps_trans by blast
  qed (use Cons in simp)
qed simp

lemma send_to_other_keeps [frame]: "send_to_other_nodes m n = Some n' \<Longrightarrow> keeps n n'"
  by (simp add: send_to_other_nodes_def send_each_keeps)

lemma set_mod_keeps:
  "election_mod n = Some md \<Longrightarrow> highest_seen_pnum (acceptor md) \<le>s highest_seen_pnum (acceptor md') \<Longrightarrow>
    length (learner_arr md') = length (learner_arr md) \<Longrightarrow>
    length (proposer_arr md') = length (proposer_arr md) \<Longrightarrow> keeps n (set_mod md' n)"
  using set_mod_kept [of n md md'] by (simp add: keeps_def promised_def promise_le_def set_mod_def)

lemma arr_set_length: "arr_set xs i x = Some ys \<Longrightarrow> length ys = length xs"
  by (auto simp: arr_set_def split: if_splits)

lemma keeps_disk [simp]: "keeps n (n\<lparr>disk := d\<rparr>)" "keeps n (n\<lparr>node_state := st\<rparr>)"
  by (simp_all add: keeps_def promised_def)

lemma arm_keeps [frame]: "arm t n = Some n' \<Longrightarrow> keeps n n'" "rearm t n = Some n' \<Longrightarrow> keeps n n'"
  by (auto simp: arm_def rearm_def get_mod_def intro!: set_mod_keeps)

lemma stop_propose_keeps [frame]: "stop_propose n = Some n' \<Longrightarrow> keeps n n'"
  by (auto simp: stop_propose_def dest: arm_keeps split: if_splits)

lemma disk_same: "\<exists>d. n = n\<lparr>disk := d\<rparr>"
  by (rule exI [of _ "disk n"]) simp

lemma acceptor_update_eq:
  assumes "acceptor_update_record E n = Some (r, n')"
  shows "\<exists>d. n' = n\<lparr>disk := d\<rparr>"
proof -
  have "n' = n \<or> (\<exists>d. n' = n\<lparr>disk := d\<rparr>)"
    using assms by (auto simp: acceptor_update_record_def split: if_splits prod.splits)
  then show ?thesis using disk_same by blast
qed

lemma acceptor_store_loop_eq:
  assumes "acceptor_store_loop E n = Some n'"
  shows "\<exists>d. n' = n\<lparr>disk := d\<rparr>"
proof (rule acceptor_store_loop.raw_induct [where P = "\<lambda>E n n'. \<exists>d. n' = n\<lparr>disk := d\<rparr>", OF _ assms])
  fix loop E and n n' :: "('a, 'b) node_scheme"
  assume IH: "\<And>E n n'. loop E n = Some (n' :: ('a, 'b) node_scheme) \<Longrightarrow> \<exists>d. n' = n\<lparr>disk := d\<rparr>"
    and eq: "Option.bind (acceptor_update_record E n) (\<lambda>r. if fst r \<noteq> 0 then loop E (snd r) else Some (snd r)) = Some n'"
  then obtain r where r: "acceptor_update_record E n = Some r"
    "(if fst r \<noteq> 0 then loop E (snd r) else Some (snd r)) = Some n'" by auto
  from acceptor_update_eq [of E n "fst r" "snd r"] r(1) obtain d where d: "snd r = n\<lparr>disk := d\<rparr>" by auto
  show "\<exists>d. n' = n\<lparr>disk := d\<rparr>"
  proof (cases "fst r = 0")
    case True
    with r(2) d show ?thesis by (intro exI [of _ d]) simp
  next
    case False
    with r(2) have "loop E (snd r) = Some n'" by simp
    from IH [OF this] obtain d' where "n' = (snd r)\<lparr>disk := d'\<rparr>" ..
    with d show ?thesis by (intro exI [of _ d']) simp
  qed
qed

lemma acceptor_store_keeps [frame]: "acceptor_store_loop E n = Some n' \<Longrightarrow> keeps n n'"
  by (auto dest: acceptor_store_loop_eq)

lemma acceptor_store_mod: "acceptor_store_loop E n = Some n' \<Longrightarrow> election_mod n' = election_mod n"
  by (auto dest: acceptor_store_loop_eq)

lemma mod_then_keeps:
  assumes "keeps (set_mod md' n) n'" "election_mod n = Some md"
    "highest_seen_pnum (acceptor md) \<le>s highest_seen_pnum (acceptor md')"
    "length (learner_arr md') = length (learner_arr md)" "length (proposer_arr md') = length (proposer_arr md)"
  shows "keeps n n'"
  using assms set_mod_keeps keeps_trans by blast

lemma phase_two_keeps [frame]:
  assumes "leader_election_proposer_phase_two E msg n = Some n'"
  shows "keeps n n'"
proof -
  from assms obtain md l m j x where "election_mod n = Some md" "arr_set (learner_arr md) j x = Some l"
    "send_to_other_nodes m (set_mod (md\<lparr>learner_arr := l\<rparr>) n) = Some n'"
    unfolding leader_election_proposer_phase_two_def get_mod_def by (auto simp: Let_def split: if_splits)
  with send_to_other_keeps [OF this(3)] arr_set_length [OF this(2)] show ?thesis by (auto intro: mod_then_keeps)
qed

lemma check_and_propose_keeps [frame]: "check_and_propose E n = Some n' \<Longrightarrow> keeps n n'"
  by (auto simp: check_and_propose_def split: if_splits dest: phase_two_keeps)

lemma get_mod_keeps: "keeps n n' \<Longrightarrow> election_mod n \<noteq> None \<Longrightarrow> election_mod n' \<noteq> None"
  by (auto simp: keeps_def promised_def promise_le_def)

lemma proposer_do_keeps [frame]:
  assumes "leader_election_proposer_do E msg n = Some n'"
  shows "keeps n n'"
proof (cases msg)
  case None
  with assms obtain md m n1 n2 where md: "election_mod n = Some md"
    and n1: "rearm wait_for_net_lele (set_mod (md\<lparr>next_pnum := next_pnum md + ucast (group_size n)\<rparr>) n) = Some n1"
    and n2: "send_to_other_nodes (lele_bytes E m) n1 = Some n2"
    and r: "(do {
          md \<leftarrow> get_mod n2;
          if highest_seen_pnum (acceptor md) <s lm_pnum m then do {
            r \<leftarrow> arr_get (proposer_arr md) (sint (node_id n2));
            p \<leftarrow> arr_set (proposer_arr md) (sint (node_id n2))
              (r\<lparr>pr_p_pnum := lm_pnum m, pr_a_pnum := accepted_pnum (acceptor md),
                 pr_content := ac_content (acceptor md)\<rparr>);
            n \<leftarrow> acceptor_store_loop E (set_mod (md\<lparr>proposer_arr := p,
              acceptor := (acceptor md)\<lparr>highest_seen_pnum := lm_pnum m\<rparr>\<rparr>) n2);
            check_and_propose E n
          }
          else Some n2 }) = Some n'"
    by (auto simp: leader_election_proposer_do_def get_mod_def)
  have "keeps n n1"
    by (rule mod_then_keeps [OF arm_keeps(2) [OF n1] md]) simp_all
  then have "keeps n n2" using send_to_other_keeps [OF n2] keeps_trans by blast
  moreover have "keeps n2 n'"
    using r by (auto simp: get_mod_def split: if_splits dest!: check_and_propose_keeps acceptor_store_keeps
        intro: keeps_trans mod_then_keeps signed.less_imp_le simp: arr_set_length)
  ultimately show ?thesis by (rule keeps_trans)
next
  case (Some m)
  with assms show ?thesis
    by (auto simp: leader_election_proposer_do_def get_mod_def Let_def split: if_splits
        dest!: check_and_propose_keeps intro: mod_then_keeps simp: arr_set_length)
qed

lemma sle_refl [simp]: "(w :: i64) \<le>s w"
  by (simp add: word_sle_eq)

definition moves :: "('d, 'z) node_scheme \<Rightarrow> ('d, 'z) node_scheme \<Rightarrow> bool" where
  "moves n n' \<longleftrightarrow> promise_le (promised n) (promised n') \<and> node_kept n n' \<and>
     (cur_view n' = cur_view n \<or> v_view_id (cur_view n') = v_view_id (cur_view n) + 1)"

lemma keeps_moves: "keeps n n' \<Longrightarrow> moves n n'"
  by (simp add: keeps_def moves_def)

lemma keeps_moves_trans: "keeps a b \<Longrightarrow> moves b c \<Longrightarrow> moves a c"
  unfolding keeps_def moves_def by (auto intro: promise_le_trans node_kept_trans)

lemma moves_keeps_trans: "moves a b \<Longrightarrow> keeps b c \<Longrightarrow> moves a c"
  unfolding keeps_def moves_def by (auto intro: promise_le_trans node_kept_trans)

section \<open>The learner and the edge\<close>

lemma set_edge_keeps: "election_mod n = Some md \<Longrightarrow> keeps n (set_mod (md\<lparr>edge := e\<rparr>) n)"
  by (erule set_mod_keeps) simp_all

lemma leader_cal_edge_shape:
  assumes "leader_election_leader_cal_edge E (set_mod md n) = Some n'"
  shows "\<exists>e. n' = set_mod (md\<lparr>edge := e\<rparr>) n"
proof -
  have "get_mod (set_mod md n) = Some md" by (simp add: get_mod_def set_mod_def)
  with assms obtain e where "n' = set_mod (md\<lparr>edge := e\<rparr>) (set_mod md n)"
    unfolding leader_election_leader_cal_edge_def by (auto simp: Let_def)
  then show ?thesis by (auto simp: set_mod_def)
qed

lemma initialize_edge_shape:
  assumes "leader_election_initialize_edge_mod E n = Some n'"
  shows "\<exists>md e. election_mod n = Some md \<and> n' = set_mod (md\<lparr>edge := e\<rparr>) n"
proof -
  from assms obtain md where md: "get_mod n = Some md"
    unfolding leader_election_initialize_edge_mod_def by auto
  have "n' = set_mod (md\<lparr>edge := x\<rparr>) n \<Longrightarrow> \<exists>e. n' = set_mod (md\<lparr>edge := e\<rparr>) n" for x by blast
  moreover have "leader_election_leader_cal_edge E (set_mod (md\<lparr>edge := x\<rparr>) n) = Some n' \<Longrightarrow>
      \<exists>e. n' = set_mod (md\<lparr>edge := e\<rparr>) n" for x
    using leader_cal_edge_shape [of E "md\<lparr>edge := x\<rparr>" n n'] by simp
  ultimately have "\<exists>e. n' = set_mod (md\<lparr>edge := e\<rparr>) n"
    using assms md unfolding leader_election_initialize_edge_mod_def
    by (simp only: Let_def split_beta bind.bind_lunit) (auto split: option.splits if_splits)
  with md show ?thesis by (auto simp: get_mod_def)
qed

lemma initialize_edge_keeps: "leader_election_initialize_edge_mod E n = Some n' \<Longrightarrow> keeps n n'"
  by (auto dest!: initialize_edge_shape intro: set_edge_keeps)

lemma cal_edge_keeps:
  assumes "leader_election_cal_edge E n = Some n'"
  shows "keeps n n'"
proof -
  from assms obtain md where md: "election_mod n = Some md"
    unfolding leader_election_cal_edge_def get_mod_def by auto
  with assms obtain msg where "(case msg of
        None \<Rightarrow> Some n
      | Some blk \<Rightarrow> do {
          n \<leftarrow> send_to_one_node (new_leader md) blk n;
          rearm wait_for_net_lele (set_mod (md\<lparr>announce_ack_msg := Some blk\<rparr>) n)
        }) = Some n'"
    unfolding leader_election_cal_edge_def get_mod_def by (auto simp: Let_def split_beta)
  then show ?thesis
  proof (cases msg)
    case (Some blk)
    with \<open>(case msg of None \<Rightarrow> _ | Some x \<Rightarrow> _ x) = _\<close> obtain n1 where
      n1: "send_to_one_node (new_leader md) blk n = Some n1"
      "rearm wait_for_net_lele (set_mod (md\<lparr>announce_ack_msg := Some blk\<rparr>) n1) = Some n'" by auto
    have "election_mod n1 = election_mod n"
      using n1(1) by (auto simp: send_to_one_node_def set_peer_def split: if_splits)
    with md have "keeps n1 n'" by (intro mod_then_keeps [OF arm_keeps(2) [OF n1(2)], where md = md]) simp_all
    with send_to_one_keeps [OF n1(1)] show ?thesis by (rule keeps_trans)
  qed simp
qed

lemma handle_announce_keeps:
  assumes "leader_election_handle_announce E msg n = Some n'"
  shows "keeps n n'"
proof -
  from assms obtain md where md: "election_mod n = Some md"
    and r: "(let n1 = set_mod (md\<lparr>new_leader := lm_content msg\<rparr>) (n\<lparr>node_state := NODE_POSTLELE\<rparr>) in
       if lm_content msg = node_id n1 then leader_election_initialize_edge_mod E n1
       else leader_election_cal_edge E n1) = Some n'"
    by (auto simp: leader_election_handle_announce_def leader_election_enter_post_stage_def
        get_mod_def set_mod_def Let_def split: if_splits)
  have "keeps (set_mod (md\<lparr>new_leader := lm_content msg\<rparr>) (n\<lparr>node_state := NODE_POSTLELE\<rparr>)) n'"
    using r by (auto simp: Let_def split: if_splits dest: initialize_edge_keeps cal_edge_keeps)
  then have "keeps (n\<lparr>node_state := NODE_POSTLELE\<rparr>) n'"
    by (rule mod_then_keeps [where md = md]) (simp_all add: md sle_refl)
  then show ?thesis using keeps_trans keeps_disk(2) by blast
qed

lemma learner_do_keeps:
  assumes "leader_election_learner_do E msg n = Some n'"
  shows "keeps n n'"
proof (cases "lm_type msg = lele_val LELE_ACCEPT_ACK")
  case True
  with assms obtain md r where md: "election_mod n = Some md"
    and r: "(if lr_pnum r <s lm_pnum msg then do {
          l \<leftarrow> arr_set (learner_arr md) (sint (lm_node_id msg))
            (r\<lparr>lr_pnum := lm_pnum msg, lr_content := lm_content msg\<rparr>);
          let n = set_mod (md\<lparr>learner_arr := l\<rparr>) n;
          (ok, temp) \<leftarrow> learner_check_accept E n;
          if ok then do {
            md \<leftarrow> get_mod n;
            sent_msg \<leftarrow> build_lele_msg E (node_id n) md LELE_ANNOUNCE (Some temp);
            n \<leftarrow> send_to_other_nodes (lele_bytes E sent_msg) n;
            leader_election_handle_announce E sent_msg n
          }
          else Some n
        }
        else Some n) = Some n'"
    unfolding leader_election_learner_do_def get_mod_def by auto
  show ?thesis
  proof (cases "lr_pnum r <s lm_pnum msg")
    case False
    with r show ?thesis by simp
  next
    case True
    with r obtain l j x where len: "arr_set (learner_arr md) j x = Some l" and l: "(let n1 = set_mod (md\<lparr>learner_arr := l\<rparr>) n in do {
          (ok, temp) \<leftarrow> learner_check_accept E n1;
          if ok then do {
            md \<leftarrow> get_mod n1;
            sent_msg \<leftarrow> build_lele_msg E (node_id n1) md LELE_ANNOUNCE (Some temp);
            n \<leftarrow> send_to_other_nodes (lele_bytes E sent_msg) n1;
            leader_election_handle_announce E sent_msg n
          }
          else Some n1
        }) = Some n'"
      by (auto simp: Let_def)
    define n1 where "n1 = set_mod (md\<lparr>learner_arr := l\<rparr>) n"
    have "keeps n1 n'"
      using l unfolding n1_def [symmetric] Let_def
      by (auto split: if_splits dest!: send_to_other_keeps handle_announce_keeps intro: keeps_trans)
    then have "keeps (set_mod (md\<lparr>learner_arr := l\<rparr>) n) n'" by (simp add: n1_def)
    then show ?thesis using md by (rule mod_then_keeps) (simp_all add: sle_refl arr_set_length [OF len])
  qed
qed (use assms in \<open>simp add: leader_election_learner_do_def\<close>)

section \<open>The acceptor\<close>

lemma acceptor_prepare_keeps:
  assumes "leader_election_acceptor_do E msg n = Some n'" "lm_type msg = lele_val LELE_PREPARE"
  shows "keeps n n'"
proof -
  from assms obtain n1 md where
    n1: "(if lm_node_id msg <s node_id n then stop_propose n else Some n) = Some n1"
    and md: "election_mod n1 = Some md"
    and r: "(if highest_seen_pnum (acceptor md) <s lm_pnum msg then do {
        n \<leftarrow> acceptor_store_loop E (set_mod (md\<lparr>acceptor :=
          (acceptor md)\<lparr>highest_seen_pnum := lm_pnum msg, ac_content := lm_content msg\<rparr>\<rparr>) n1);
        md \<leftarrow> get_mod n;
        sent_msg \<leftarrow> build_lele_msg E (node_id n) md LELE_PREPARE_ACK None;
        send_to_one_node (lm_node_id msg) (lele_bytes E sent_msg) n
      }
      else Some n1) = Some n'"
    unfolding leader_election_acceptor_do_def get_mod_def by auto
  have k: "keeps n n1" using n1 by (auto split: if_splits dest: stop_propose_keeps)
  show ?thesis
  proof (cases "highest_seen_pnum (acceptor md) <s lm_pnum msg")
    case True
    define n2 where "n2 = set_mod (md\<lparr>acceptor :=
        (acceptor md)\<lparr>highest_seen_pnum := lm_pnum msg, ac_content := lm_content msg\<rparr>\<rparr>) n1"
    have "keeps n1 n2"
      unfolding n2_def using True by (intro set_mod_keeps [OF md]) (simp_all add: signed.less_imp_le)
    moreover have "keeps n2 n'"
      using r True unfolding n2_def [symmetric]
      by (auto dest!: acceptor_store_keeps send_to_one_keeps intro: keeps_trans)
    ultimately show ?thesis using k keeps_trans by blast
  qed (use r k in simp)
qed

lemma acceptor_accept_keeps:
  assumes "leader_election_acceptor_do E msg n = Some n'" "lm_type msg = lele_val LELE_ACCEPT"
  shows "keeps n n'"
proof -
  from assms obtain md where md: "election_mod n = Some md"
    and r: "(if highest_seen_pnum (acceptor md) \<le>s lm_pnum msg then do {
        n \<leftarrow> acceptor_store_loop E (set_mod (md\<lparr>acceptor :=
          \<lparr>highest_seen_pnum = lm_pnum msg, accepted_pnum = lm_pnum msg,
           ac_content = lm_content msg\<rparr>\<rparr>) n);
        md \<leftarrow> get_mod n;
        sent_msg \<leftarrow> build_lele_msg E (node_id n) md LELE_ACCEPT_ACK None;
        n \<leftarrow> leader_election_learner_do E sent_msg n;
        send_to_other_nodes (lele_bytes E sent_msg) n
      }
      else Some n) = Some n'"
    unfolding leader_election_acceptor_do_def get_mod_def by auto
  show ?thesis
  proof (cases "highest_seen_pnum (acceptor md) \<le>s lm_pnum msg")
    case True
    define n2 where "n2 = set_mod (md\<lparr>acceptor := \<lparr>highest_seen_pnum = lm_pnum msg,
        accepted_pnum = lm_pnum msg, ac_content = lm_content msg\<rparr>\<rparr>) n"
    have "keeps n n2" unfolding n2_def using True by (intro set_mod_keeps [OF md]) simp_all
    moreover from r True obtain n3 m n4 x where "acceptor_store_loop E n2 = Some n3"
      "leader_election_learner_do E m n3 = Some n4" "send_to_other_nodes x n4 = Some n'"
      unfolding n2_def [symmetric] by auto
    then have "keeps n2 n3" "keeps n3 n4" "keeps n4 n'"
      by (auto dest: acceptor_store_keeps learner_do_keeps send_to_other_keeps)
    ultimately show ?thesis using keeps_trans by blast
  qed (use r in simp)
qed

lemma acceptor_do_keeps:
  assumes "leader_election_acceptor_do E msg n = Some n'"
  shows "keeps n n'"
proof -
  consider "lm_type msg = lele_val LELE_PREPARE" | "lm_type msg = lele_val LELE_ACCEPT"
    | "lm_type msg \<noteq> lele_val LELE_PREPARE" "lm_type msg \<noteq> lele_val LELE_ACCEPT" by blast
  then show ?thesis
    by cases (fact acceptor_prepare_keeps [OF assms], fact acceptor_accept_keeps [OF assms],
        use assms in \<open>simp add: leader_election_acceptor_do_def\<close>)
qed

section \<open>Closing\<close>

lemma update_view_moves:
  assumes "update_view E v n = Some n'"
  shows "moves n n'"
proof (cases "v_view_id (cur_view n) + 1 = v_view_id v")
  case False
  with assms show ?thesis by (simp add: update_view_def keeps_moves)
next
  case True
  with update_view_keeps [OF assms True] update_view_kept [OF assms] show ?thesis
    by (simp add: moves_def promised_def)
qed

lemma leader_close_moves:
  assumes "leader_election_leader_close E n = Some n'"
  shows "moves n n'"
proof -
  from assms obtain info n1 m where n1: "update_view E info n = Some n1"
    and m: "(case m of None \<Rightarrow> Some (leader_election_mod_collection n1)
      | Some x \<Rightarrow> map_option leader_election_mod_collection (send_to_other_nodes (lele_bytes E x) n1)) = Some n'"
    unfolding leader_election_leader_close_def by (auto simp: Let_def)
  have "keeps n1 n'"
    using m by (auto simp: leader_election_mod_collection_def split: option.splits dest: send_to_other_keeps)
  with update_view_moves [OF n1] show ?thesis by (rule moves_keeps_trans)
qed

lemma handle_close_moves: "leader_election_handle_close E msg n = Some n' \<Longrightarrow> moves n n'"
  by (auto simp: leader_election_handle_close_def leader_election_mod_collection_def keeps_moves
      split: if_splits dest: update_view_moves)

lemma announce_ack_moves:
  assumes "leader_election_handle_announce_ack E msg blk n = Some n'"
  shows "moves n n'"
proof -
  from assms obtain md0 where md0: "get_mod n = Some md0"
    unfolding leader_election_handle_announce_ack_def by auto
  with assms obtain n1 where n1: "(if edge_start (edge md0) = - 1 \<and> node_id n = lm_content msg
      then leader_election_handle_announce E msg n else Some n) = Some n1"
    and r: "(do {
       md \<leftarrow> get_mod n1;
       counts \<leftarrow> msg_count (edge md);
       c \<leftarrow> arr_get counts (sint (lm_node_id msg));
       if c = 0 then do {
         counts \<leftarrow> arr_set counts (sint (lm_node_id msg)) 1;
         e \<leftarrow> merge_edge msg blk ((edge md)\<lparr>msg_count := Some counts\<rparr>);
         let n = set_mod (md\<lparr>edge := e\<rparr>) n1;
         let gs = unat (group_size n);
         if gs \<le> length counts then
           if group_size n div 2 + 1 \<le> of_nat (length (filter (\<lambda>x. x = 1) (take gs counts)))
           then leader_election_leader_close E n
           else Some n
         else None
       }
       else Some n1 }) = Some n'"
    unfolding leader_election_handle_announce_ack_def md0 bind.bind_lunit bind_eq_Some_iff [of _ _ n'] by blast
  have k: "keeps n n1" using n1 by (auto split: if_splits dest: handle_announce_keeps)
  have "moves n1 n'"
  proof -
    have "n' = n1 \<or> (\<exists>md e. election_mod n1 = Some md \<and> (n' = set_mod (md\<lparr>edge := e\<rparr>) n1 \<or>
        leader_election_leader_close E (set_mod (md\<lparr>edge := e\<rparr>) n1) = Some n'))"
      using r by (auto simp: get_mod_def Let_def split: if_splits)
    then show ?thesis
      using keeps_moves keeps_moves_trans leader_close_moves set_edge_keeps by (metis keeps_refl)
  qed
  with k show ?thesis by (rule keeps_moves_trans)
qed

lemma election_msg_moves:
  assumes "handle_leader_election_msg E blk n = Some n'"
  shows "moves n n'"
proof -
  from assms obtain msg where msg: "dec_lele_msg blk = Some msg"
    unfolding handle_leader_election_msg_def by auto
  show ?thesis
  proof (cases "lm_next_view msg = v_view_id (cur_view n) + 1")
    case False
    with assms msg have "keeps n n'"
      by (auto simp: handle_leader_election_msg_def split: if_splits option.splits dest: send_to_one_keeps)
    then show ?thesis by (rule keeps_moves)
  next
    case True
    with assms msg show ?thesis
      by (auto simp: handle_leader_election_msg_def split: if_splits option.splits lele_msg_type.splits
          dest: acceptor_do_keeps proposer_do_keeps learner_do_keeps handle_announce_keeps
            announce_ack_moves handle_close_moves intro: keeps_moves)
  qed
qed

section \<open>Every message\<close>

lemma same_more_keeps:
  fixes n n' :: "('d, 'z) node_scheme"
  assumes "same_config n n'"
  shows "keeps n n'"
proof -
  have "consensus_component.more n' = consensus_component.more n" "cur_view n' = cur_view n"
    using same_configD [OF assms] by simp_all
  moreover then have "election_mod n' = election_mod n" by (cases n; cases n') simp
  ultimately show ?thesis using same_config_kept [OF assms] by (simp add: keeps_def promised_def)
qed

lemma drain_keeps: "drain_effects E es n = Some n' \<Longrightarrow> keeps n n'"
proof (induction es arbitrary: n rule: user_cbs.induct)
  case (2 s b es)
  then have "keeps (n\<lparr>user_calls := user_calls n @ [(s, b)]\<rparr>) n'" by simp
  moreover have "keeps n (n\<lparr>user_calls := user_calls n @ [(s, b)]\<rparr>)" by (simp add: keeps_def promised_def)
  ultimately show ?case using keeps_trans by blast
next
  case (3 m t es)
  then obtain n1 where n1: "send_for_consensus_comp E (of_nat (length m)) m t n = Some n1"
    "drain_effects E es n1 = Some n'" by auto
  have "keeps n n1"
    using n1(1) by (auto simp: send_for_consensus_comp_def split: option.splits if_splits
        dest: send_to_one_keeps send_to_other_keeps)
  with 3(1) [OF n1(2)] show ?case using keeps_trans by blast
qed simp

lemma run_consensus_keeps:
  assumes "run_consensus E f n = Some n'" "\<And>n n'. f n = Some n' \<Longrightarrow> same_config n n'"
  shows "keeps n n'"
proof -
  from assms(1) obtain n1 where n1: "f (n\<lparr>effects := []\<rparr>) = Some n1"
    "drain_effects E (effects n1) (n1\<lparr>effects := []\<rparr>) = Some n'"
    by (auto simp: run_consensus_def)
  have "keeps (n\<lparr>effects := []\<rparr>) n1" "keeps (n1\<lparr>effects := []\<rparr>) n'"
    using same_more_keeps [OF assms(2) [OF n1(1)]] drain_keeps [OF n1(2)] by simp_all
  moreover have "keeps n (n\<lparr>effects := []\<rparr>)" "keeps n1 (n1\<lparr>effects := []\<rparr>)"
    by (simp_all add: keeps_def promised_def)
  ultimately show ?thesis using keeps_trans by blast
qed

lemma ping_req_moves:
  assumes "handle_ping_req E msg n = Some n'"
  shows "moves n n'"
  using assms
  by (auto simp: handle_ping_req_def Let_def leader_election_mod_collection_def split: if_splits option.splits
      dest: update_view_moves send_to_one_keeps intro: keeps_moves)
    (auto simp: moves_def promised_def node_kept_def node_ok_def)

lemma dispatch_moves:
  assumes "dispatch_msg E blk n = Some n'"
  shows "moves n n'"
proof -
  have c: "handle_consensus_msg E blk n = Some n' \<Longrightarrow> keeps n n'"
    by (auto simp: handle_consensus_msg_def split: ptr.splits
        dest!: run_consensus_keeps intro: consensus_handle_msg_frame)
  have s: "handle_request_submit E blk n = Some n' \<Longrightarrow> keeps n n'"
    by (auto simp: handle_request_submit_def split: ptr.splits
        dest!: run_consensus_keeps intro: consensus_submit_request_frame)
  from assms obtain t :: u32 where t: "ld 4 0 blk = Some t" unfolding dispatch_msg_def by auto
  show ?thesis
  proof (cases "sys_msg_code_of t")
    case None
    with assms t show ?thesis by (simp add: dispatch_msg_def keeps_moves)
  next
    case (Some code)
    with assms t show ?thesis
      by (cases code) (auto simp: dispatch_msg_def ping_ack_ignored split: if_splits
          dest: c s ping_req_moves election_msg_moves intro: keeps_moves)
  qed
qed

end
