(* ===== verification/ElectionProps.thy ===== *)
theory ElectionProps
  imports ElectionRuns ElectionLemmas
begin

text \<open>
  Properties of the leader election: what no message takes back (the view, a promise), when an
  acceptor answers, when a learner announces and which value a proposer takes over, and what the
  new leader's scan for empty slots finds.
\<close>

section \<open>Views and promises\<close>

text \<open>C30 whatever message a node receives, it stays in its view or moves to the next one.\<close>

theorem view_moves_by_one:
  assumes "dispatch_msg E blk n = Some n'"
  shows "cur_view n' = cur_view n \<or> v_view_id (cur_view n') = v_view_id (cur_view n) + 1"
  using dispatch_moves [OF assms] by (simp add: moves_def)

definition demo_next_ping :: bytes where
  "demo_next_ping = enc_header 0 \<lparr>sh_type = sys_msg_code_val PING_REQ, sh_data_size = 48\<rparr> @
     enc_ping 0 0 \<lparr>pm_node_id = 1, pm_view = demo_view, pm_timestamp = \<lparr>tv_sec = 50, tv_usec = 0\<rparr>\<rparr>"

lemma demo_next_view:
  "map_option (\<lambda>n. v_view_id (cur_view n)) (dispatch_msg mem_env demo_next_ping demo_node) = Some 2"
  by code_simp

theorem view_moves_by_one_witness:
  "\<exists>n'. dispatch_msg mem_env demo_next_ping demo_node = Some n' \<and> v_view_id (cur_view n') = 2 \<and>
     v_view_id (cur_view n') = v_view_id (cur_view demo_node) + 1"
proof -
  from demo_next_view obtain n' where n': "dispatch_msg mem_env demo_next_ping demo_node = Some n'"
    "v_view_id (cur_view n') = 2" by auto
  with view_moves_by_one [OF n'(1)] show ?thesis by auto
qed

text \<open>C29 an acceptor never takes back a promise: no message lowers the highest proposal number that it
  has seen.\<close>

theorem promise_monotone:
  assumes "dispatch_msg E blk n = Some n'" "election_mod n = Some md"
  shows "\<exists>md'. election_mod n' = Some md' \<and>
    highest_seen_pnum (acceptor md) \<le>s highest_seen_pnum (acceptor md')"
  using dispatch_moves [OF assms(1)] assms(2) by (auto simp: moves_def promise_le_def promised_def)

theorem promise_monotone_witness:
  "\<exists>n' md'. dispatch_msg log_env (lele_bytes log_env (prepare_of 2)) after_accept_1 = Some n' \<and>
     election_mod n' = Some md' \<and> 1 \<le>s highest_seen_pnum (acceptor md')"
proof -
  obtain md where md: "election_mod after_accept_1 = Some md" "acceptor md = acc 1 1 1"
    using after_accept_1_mod by auto
  obtain n' where n': "dispatch_msg log_env (lele_bytes log_env (prepare_of 2)) after_accept_1 = Some n'"
    using dispatch_evaluated by auto
  from promise_monotone [OF n' md(1)] md(2) n' show ?thesis by auto
qed

section \<open>The acceptor\<close>

lemma acceptor_store_stores:
  assumes "bdb_contract E" "acceptor_store_loop E n = Some n'" "election_mod n = Some md"
  shows "retrieve_record E (node_db_ptr n) (ucast (next_view md)) (disk n') =
    (0, Some (enc_acceptor_record (acceptor md)))"
proof -
  have "E = E \<longrightarrow> election_mod n = Some md \<longrightarrow>
      retrieve_record E (node_db_ptr n) (ucast (next_view md)) (disk n') =
      (0, Some (enc_acceptor_record (acceptor md)))"
    using assms(2)
  proof (rule acceptor_store_loop.raw_induct [where P = "\<lambda>E1 n n'. E1 = E \<longrightarrow> election_mod n = Some md \<longrightarrow>
      retrieve_record E (node_db_ptr n) (ucast (next_view md)) (disk n') =
      (0, Some (enc_acceptor_record (acceptor md)))", rotated])
    fix loop E1 and n n' :: "('a, 'b) node_scheme"
    assume IH: "\<And>E1 n n'. loop E1 n = Some (n' :: ('a, 'b) node_scheme) \<Longrightarrow> E1 = E \<longrightarrow> election_mod n = Some md \<longrightarrow>
        retrieve_record E (node_db_ptr n) (ucast (next_view md)) (disk n') =
        (0, Some (enc_acceptor_record (acceptor md)))"
      and eq: "Option.bind (acceptor_update_record E1 n)
        (\<lambda>r. if fst r \<noteq> 0 then loop E1 (snd r) else Some (snd r)) = Some n'"
    show "E1 = E \<longrightarrow> election_mod n = Some md \<longrightarrow>
        retrieve_record E (node_db_ptr n) (ucast (next_view md)) (disk n') =
        (0, Some (enc_acceptor_record (acceptor md)))"
    proof (intro impI)
      assume E1: "E1 = E" and md: "election_mod n = Some md"
      from eq obtain r where r: "acceptor_update_record E n = Some r"
        "(if fst r \<noteq> 0 then loop E (snd r) else Some (snd r)) = Some n'" unfolding E1 by auto
      show "retrieve_record E (node_db_ptr n) (ucast (next_view md)) (disk n') =
        (0, Some (enc_acceptor_record (acceptor md)))"
      proof (cases "fst r = 0")
        case True
        have ne: "enc_acceptor_record (acceptor md) \<noteq> []"
          using length_enc_msg(5) [of "acceptor md"] by (metis list.size(3) zero_neq_numeral)
        from True r md obtain d where "n' = n\<lparr>disk := d\<rparr>"
          "store_record E (node_db_ptr n) (ucast (next_view md)) (enc_acceptor_record (acceptor md))
             (disk n) = (0, d)"
          by (auto simp: acceptor_update_record_def get_mod_def split: if_splits prod.splits)
        with rs.retrieve_store [OF assms(1) this(2) ne] show ?thesis by simp
      next
        case False
        from acceptor_update_eq [of E n "fst r" "snd r"] r(1) obtain d where d: "snd r = n\<lparr>disk := d\<rparr>" by auto
        from False r(2) have "loop E (snd r) = Some n'" by simp
        from IH [OF this] md d show ?thesis by simp
      qed
    qed
  qed
  with assms(3) show ?thesis by simp
qed

lemma send_to_one_disk:
  assumes "send_to_one_node t m n = Some n'"
  shows "disk n' = disk n" "election_mod n' = election_mod n"
  using assms by (auto simp: send_to_one_node_def set_peer_def split: if_splits)

lemma stop_propose_frame:
  assumes "stop_propose n = Some n'" "election_mod n = Some md"
  shows "\<exists>md'. election_mod n' = Some md' \<and> acceptor md' = acceptor md \<and> next_view md' = next_view md \<and>
    node_db_ptr n' = node_db_ptr n"
  using assms by (auto simp: stop_propose_def rearm_def get_mod_def set_mod_def)

text \<open>C31 an acceptor answers a prepare only after its promise is in the database: when the handler
  returns, the record under the election's view is the acceptor's with the new number. But the
  handler also replaces the value that the acceptor has accepted by the one of the message, and
  leaves its number.\<close>

theorem prepare_is_persistent:
  assumes "bdb_contract E" "lm_type msg = lele_val LELE_PREPARE" "election_mod n = Some md"
    and "highest_seen_pnum (acceptor md) <s lm_pnum msg"
    and "leader_election_acceptor_do E msg n = Some n'"
  shows "\<exists>md' a. election_mod n' = Some md' \<and> acceptor md' = a \<and>
    a = \<lparr>highest_seen_pnum = lm_pnum msg, accepted_pnum = accepted_pnum (acceptor md),
         ac_content = lm_content msg\<rparr> \<and>
    retrieve_record E (node_db_ptr n) (ucast (next_view md)) (disk n') = (0, Some (enc_acceptor_record a))"
proof -
  from assms(2,5) obtain n1 where
    n1: "(if lm_node_id msg <s node_id n then stop_propose n else Some n) = Some n1"
    unfolding leader_election_acceptor_do_def by auto
  obtain md1 where md1: "election_mod n1 = Some md1" "acceptor md1 = acceptor md"
    "next_view md1 = next_view md" "node_db_ptr n1 = node_db_ptr n"
    using n1 assms(3) stop_propose_frame by (auto split: if_splits)
  define md2 where "md2 = md1\<lparr>acceptor := (acceptor md1)\<lparr>highest_seen_pnum := lm_pnum msg,
    ac_content := lm_content msg\<rparr>\<rparr>"
  from assms(2,4,5) n1 md1 obtain n2 m where n2: "acceptor_store_loop E (set_mod md2 n1) = Some n2"
    "send_to_one_node (lm_node_id msg) m n2 = Some n'"
    unfolding leader_election_acceptor_do_def by (auto simp: get_mod_def md2_def)
  have m2: "election_mod (set_mod md2 n1) = Some md2" by (simp add: set_mod_def)
  have "next_view md2 = next_view md" "acceptor md2 = \<lparr>highest_seen_pnum = lm_pnum msg,
      accepted_pnum = accepted_pnum (acceptor md), ac_content = lm_content msg\<rparr>"
    using md1 by (simp_all add: md2_def)
  moreover have "node_db_ptr (set_mod md2 n1) = node_db_ptr n" using md1 by (simp add: set_mod_def)
  ultimately show ?thesis
    using acceptor_store_stores [OF assms(1) n2(1) m2] acceptor_store_mod [OF n2(1)] m2
      send_to_one_disk [OF n2(2)] by auto
qed

theorem prepare_is_persistent_witness:
  "\<exists>n'. leader_election_acceptor_do log_env (prepare_of 2) after_accept_1 = Some n' \<and>
     retrieve_record log_env (Some \<lparr>bdb_ptr = Some ''d''\<rparr>) 2 (disk n') =
       (0, Some (enc_acceptor_record (acc 2 1 (- 1))))"
proof -
  obtain md where md: "election_mod after_accept_1 = Some md" "acceptor md = acc 1 1 1" "next_view md = 2"
    "node_db_ptr after_accept_1 = Some \<lparr>bdb_ptr = Some ''d''\<rparr>"
    using after_accept_1_mod by auto
  obtain n' where n': "leader_election_acceptor_do log_env (prepare_of 2) after_accept_1 = Some n'"
    using acceptor_evaluated by auto
  have "lm_type (prepare_of 2) = lele_val LELE_PREPARE" "lm_pnum (prepare_of 2) = 2"
    "lm_content (prepare_of 2) = - 1" "highest_seen_pnum (acceptor md) <s lm_pnum (prepare_of 2)"
    using md(2) by (simp_all add: prepare_of_def word_sless_alt)
  with prepare_is_persistent [OF log_env_bdb _ md(1) _ n'] n' md show ?thesis by auto
qed

text \<open>Without a database an acceptor never answers: the loop that stores its record has no end, and
  the proxy's fake mode starts a node without a database.\<close>

lemma acceptor_needs_database:
  assumes "node_db_ptr n = None" "malloc_usable E 24 \<noteq> None"
  shows "acceptor_store_loop E n = None"
proof -
  have "False" if "acceptor_store_loop E n = Some n'" for n'
  proof -
    have "E = E \<longrightarrow> node_db_ptr n \<noteq> None"
      using that
    proof (rule acceptor_store_loop.raw_induct [where P = "\<lambda>E1 n n'. E1 = E \<longrightarrow> node_db_ptr n \<noteq> None", rotated])
      fix loop E1 and n n' :: "('a, 'b) node_scheme"
      assume IH: "\<And>E1 n n'. loop E1 n = Some (n' :: ('a, 'b) node_scheme) \<Longrightarrow> E1 = E \<longrightarrow> node_db_ptr n \<noteq> None"
        and eq: "Option.bind (acceptor_update_record E1 n)
          (\<lambda>r. if fst r \<noteq> 0 then loop E1 (snd r) else Some (snd r)) = Some n'"
      show "E1 = E \<longrightarrow> node_db_ptr n \<noteq> None"
      proof (intro impI notI)
        assume "E1 = E" "node_db_ptr n = None"
        with eq assms(2) have "loop E n = Some n'"
          by (auto simp: acceptor_update_record_def store_record_def)
        from IH [OF this] \<open>node_db_ptr n = None\<close> show False by simp
      qed
    qed
    with assms(1) show False by simp
  qed
  then show ?thesis by (cases "acceptor_store_loop E n") auto
qed


lemma acceptor_needs_database_witness:
  "acceptor_store_loop log_env (after_accept_1\<lparr>node_db_ptr := None\<rparr>) = None"
  by (rule acceptor_needs_database) (simp_all add: log_env_def)

section \<open>The learner\<close>

lemma votes_reach_iff:
  "inc < half \<Longrightarrow> votes_reach half base rs inc \<longleftrightarrow>
    half \<le> inc + int (length (filter (\<lambda>r. lr_pnum r = base) rs))"
  by (induction rs arbitrary: inc) (auto simp: Let_def)

definition votes :: "pnum_t \<Rightarrow> accepted_record list \<Rightarrow> nat" where
  "votes p rs = length (filter (\<lambda>r. lr_pnum r = p) rs)"

lemma check_accept_from_chosen:
  assumes "0 < half" "check_accept_from half arr rs s = (True, p, c)" "set rs \<subseteq> set arr"
  shows "p \<noteq> - 1 \<and> half \<le> int (votes p arr) \<and> (\<exists>r \<in> set arr. lr_pnum r = p \<and> lr_content r = c)"
  using assms(2,3)
  by (induction rs arbitrary: s) (auto simp: votes_def votes_reach_iff assms(1) split: if_splits)

lemma check_accept_from_complete:
  assumes "0 < half" "r \<in> set rs" "lr_pnum r \<noteq> - 1" "half \<le> int (votes (lr_pnum r) arr)"
  shows "fst (check_accept_from half arr rs s)"
  using assms(2)
  by (induction rs arbitrary: s) (use assms(1,3,4) in \<open>auto simp: votes_def votes_reach_iff\<close>)

text \<open>C27 a learner announces a leader exactly if some proposal number stands in the records of a
  majority of the group, and then announces that proposal with the content of one of its records.\<close>

theorem learner_needs_majority:
  assumes "election_mod n = Some md" "unat (group_size n) \<le> length (learner_arr md)" "0 < g_half_size n"
  shows "\<exists>ok m. learner_check_accept E n = Some (ok, m) \<and>
    (ok \<longleftrightarrow> (\<exists>r \<in> set (take (unat (group_size n)) (learner_arr md)). lr_pnum r \<noteq> - 1 \<and>
       g_half_size n \<le> int (votes (lr_pnum r) (take (unat (group_size n)) (learner_arr md))))) \<and>
    (ok \<longrightarrow> lm_pnum m \<noteq> - 1 \<and>
       g_half_size n \<le> int (votes (lm_pnum m) (take (unat (group_size n)) (learner_arr md))) \<and>
       (\<exists>r \<in> set (take (unat (group_size n)) (learner_arr md)).
          lr_pnum r = lm_pnum m \<and> lr_content r = lm_content m))"
proof -
  let ?arr = "take (unat (group_size n)) (learner_arr md)"
  obtain ok p c where r: "check_accept_from (g_half_size n) ?arr ?arr (- 1, - 1) = (ok, p, c)"
    by (rule prod_cases3)
  have "learner_check_accept E n = Some (ok, (junk_lele E)\<lparr>lm_pnum := p, lm_content := c\<rparr>)"
    using assms(1,2) r by (simp add: learner_check_accept_def get_mod_def)
  moreover have "ok \<Longrightarrow> p \<noteq> - 1 \<and> g_half_size n \<le> int (votes p ?arr) \<and>
      (\<exists>r \<in> set ?arr. lr_pnum r = p \<and> lr_content r = c)"
    using check_accept_from_chosen [OF assms(3) _ subset_refl, of ?arr "(- 1, - 1)" p c] r by simp
  moreover have "ok" if "r' \<in> set ?arr" "lr_pnum r' \<noteq> - 1" "g_half_size n \<le> int (votes (lr_pnum r') ?arr)" for r'
    using check_accept_from_complete [OF assms(3) that, of "(- 1, - 1)"] r by simp
  ultimately show ?thesis by fastforce
qed

theorem learner_needs_majority_witness:
  "\<exists>m. learner_check_accept log_env (elect_state 1 4 (acc 1 1 1) [(1, 1), (1, 1), no_vote] [] 1 []) =
     Some (True, m) \<and> 2 \<le> votes (lm_pnum m)
       [\<lparr>lr_pnum = 1, lr_content = 1, lr_last_req = 0xAAAAAAAA\<rparr>,
        \<lparr>lr_pnum = 1, lr_content = 1, lr_last_req = 0xAAAAAAAA\<rparr>,
        \<lparr>lr_pnum = - 1, lr_content = junk_id, lr_last_req = 0xAAAAAAAA\<rparr>]"
proof -
  let ?n = "elect_state 1 4 (acc 1 1 1) [(1, 1), (1, 1), no_vote] [] 1 []"
  obtain md where md: "election_mod ?n = Some md"
    "learner_arr md = [\<lparr>lr_pnum = 1, lr_content = 1, lr_last_req = 0xAAAAAAAA\<rparr>,
        \<lparr>lr_pnum = 1, lr_content = 1, lr_last_req = 0xAAAAAAAA\<rparr>,
        \<lparr>lr_pnum = - 1, lr_content = junk_id, lr_last_req = 0xAAAAAAAA\<rparr>]"
    by (simp add: elect_state_def)
  have gs: "group_size ?n = 3" by (simp add: elect_state_def elect_node_def)
  have g: "g_half_size ?n = 2" unfolding g_half_size_def gs by simp
  have v: "votes 1 (learner_arr md) = 2" "length (learner_arr md) = 3" by (simp_all add: md(2) votes_def)
  have one: "lr_pnum (hd (learner_arr md)) = 1" "hd (learner_arr md) \<in> set (learner_arr md)"
    by (simp_all add: md(2))
  obtain ok m where m: "learner_check_accept log_env ?n = Some (ok, m)"
    "ok \<longleftrightarrow> (\<exists>r \<in> set (learner_arr md). lr_pnum r \<noteq> - 1 \<and> 2 \<le> int (votes (lr_pnum r) (learner_arr md)))"
    "ok \<longrightarrow> 2 \<le> int (votes (lm_pnum m) (learner_arr md))"
    using learner_needs_majority [OF md(1), of log_env] v(2) gs g by auto
  have ok unfolding m(2) using v(1) one(1) by (intro bexI [OF _ one(2)]) simp
  with m show ?thesis unfolding md(2) by auto
qed

section \<open>The proposer\<close>

definition promises :: "pnum_t \<Rightarrow> proposer_record list \<Rightarrow> proposer_record list" where
  "promises origin ps = filter (\<lambda>p. pr_p_pnum p = origin) ps"

lemma check_prepare_from_spec:
  assumes "check_prepare_from origin ps (inc, pnum, content) = (inc', pnum', content')"
  shows "inc' = inc + int (length (filter (\<lambda>p. pr_a_pnum p \<noteq> - 1) (promises origin ps)))"
    and "pnum \<le>s pnum'" and "\<forall>p \<in> set (promises origin ps). pr_a_pnum p \<le>s pnum'"
    and "pnum' = pnum \<and> content' = content \<or>
      (\<exists>p \<in> set (promises origin ps). pr_a_pnum p = pnum' \<and> pr_content p = content' \<and> pnum <s pnum')"
proof -
  have "inc' = inc + int (length (filter (\<lambda>p. pr_a_pnum p \<noteq> - 1) (promises origin ps))) \<and>
    sint pnum \<le> sint pnum' \<and> (\<forall>p \<in> set (promises origin ps). sint (pr_a_pnum p) \<le> sint pnum') \<and>
    (pnum' = pnum \<and> content' = content \<or>
      (\<exists>p \<in> set (promises origin ps). pr_a_pnum p = pnum' \<and> pr_content p = content' \<and>
        sint pnum < sint pnum'))"
    using assms
  proof (induction ps arbitrary: inc pnum content)
    case (Cons q ps)
    from Cons.prems have s: "check_prepare_from origin ps
       (if pr_p_pnum q = origin then
          (if pr_a_pnum q \<noteq> - 1 then inc + 1 else inc,
           if pnum <s pr_a_pnum q then (pr_a_pnum q, pr_content q) else (pnum, content))
        else (inc, pnum, content)) = (inc', pnum', content')" by simp
    show ?case
    proof (cases "pr_p_pnum q = origin \<and> pnum <s pr_a_pnum q")
      case True
      with s have "check_prepare_from origin ps (if pr_a_pnum q \<noteq> - 1 then inc + 1 else inc,
          pr_a_pnum q, pr_content q) = (inc', pnum', content')" by simp
      from Cons.IH [OF this] True show ?thesis
        by (auto simp: promises_def word_sless_alt)
    next
      case False
      with s have "check_prepare_from origin ps
          (if pr_p_pnum q = origin \<and> pr_a_pnum q \<noteq> - 1 then inc + 1 else inc, pnum, content) =
          (inc', pnum', content')" by (auto split: if_splits)
      from Cons.IH [OF this] False show ?thesis
        by (auto simp: promises_def word_sless_alt)
    qed
  qed (simp add: promises_def)
  then show "inc' = inc + int (length (filter (\<lambda>p. pr_a_pnum p \<noteq> - 1) (promises origin ps)))"
    "pnum \<le>s pnum'" "\<forall>p \<in> set (promises origin ps). pr_a_pnum p \<le>s pnum'"
    "pnum' = pnum \<and> content' = content \<or>
      (\<exists>p \<in> set (promises origin ps). pr_a_pnum p = pnum' \<and> pr_content p = content' \<and> pnum <s pnum')"
    by (auto simp: word_sle_eq word_sless_alt)
qed

text \<open>C28 a proposer counts the promises for its number and takes over the value that was accepted under
  the highest number among them; without such a value it is free to choose its own.\<close>

theorem proposer_takes_highest:
  assumes "election_mod n = Some md" "unat (group_size n) \<le> length (proposer_arr md)"
  shows "\<exists>enough m. proposer_check_prepare E n = Some (enough, m) \<and>
    lm_pnum m = next_pnum md - ucast (group_size n) \<and>
    (let ps = promises (lm_pnum m) (take (unat (group_size n)) (proposer_arr md)) in
      (enough \<longleftrightarrow> g_half_size n \<le> int (length (filter (\<lambda>p. pr_a_pnum p \<noteq> - 1) ps))) \<and>
      ((\<forall>p \<in> set ps. pr_a_pnum p \<le>s - 1) \<and> lm_content m = - 1 \<or>
       (\<exists>p \<in> set ps. lm_content m = pr_content p \<and> (\<forall>q \<in> set ps. pr_a_pnum q \<le>s pr_a_pnum p))))"
proof -
  let ?o = "next_pnum md - ucast (group_size n)"
  let ?ps = "take (unat (group_size n)) (proposer_arr md)"
  obtain inc pnum c where r: "check_prepare_from ?o ?ps (0, - 1, - 1) = (inc, pnum, c)"
    by (rule prod_cases3)
  have "proposer_check_prepare E n = Some (g_half_size n \<le> inc, (junk_lele E)\<lparr>lm_pnum := ?o, lm_content := c\<rparr>)"
    using assms r by (simp add: proposer_check_prepare_def get_mod_def)
  with check_prepare_from_spec [OF r] show ?thesis
    by (intro exI [of _ "g_half_size n \<le> inc"] exI [of _ "(junk_lele E)\<lparr>lm_pnum := ?o, lm_content := c\<rparr>"])
      (auto simp: Let_def)
qed


theorem proposer_takes_highest_witness:
  "\<exists>m. proposer_check_prepare log_env (elect_state 2 5 (acc 2 0 (- 1)) [] [(2, 1), no_promise, (2, 0)] 1 []) =
     Some (True, m) \<and> lm_pnum m = 2 \<and> lm_content m = - 1"
proof -
  let ?n = "elect_state 2 5 (acc 2 0 (- 1)) [] [(2, 1), no_promise, (2, 0)] 1 []"
  obtain md where md: "election_mod ?n = Some md" "next_pnum md = 5"
    "proposer_arr md = [\<lparr>pr_p_pnum = 2, pr_a_pnum = 1, pr_content = - 1\<rparr>,
       \<lparr>pr_p_pnum = junk_id, pr_a_pnum = - 1, pr_content = - 1\<rparr>,
       \<lparr>pr_p_pnum = 2, pr_a_pnum = 0, pr_content = - 1\<rparr>]"
    by (simp add: elect_state_def)
  have gs: "group_size ?n = 3" by (simp add: elect_state_def elect_node_def)
  have g: "g_half_size ?n = 2" unfolding g_half_size_def gs by simp
  show ?thesis
    using proposer_takes_highest [OF md(1), of log_env] md(2,3) gs g
    by (auto simp: promises_def Let_def)
qed

section \<open>The edge\<close>

abbreviation missing_in :: "'d env \<Rightarrow> db option \<Rightarrow> view_id_t \<Rightarrow> 'd \<Rightarrow> req_id_t \<Rightarrow> bool" where
  "missing_in E h view d r \<equiv> snd (retrieve_record E h (vstol (VS view r)) d) = None"

definition missing_reqs ::
  "'d env \<Rightarrow> db option \<Rightarrow> view_id_t \<Rightarrow> 'd \<Rightarrow> req_id_t \<Rightarrow> req_id_t \<Rightarrow> req_id_t list" where
  "missing_reqs E h view d start lst =
     filter (missing_in E h view d) (map of_nat [unat start..<Suc (unat lst)])"

lemma sint_of_nat_small: "n < 2 ^ 31 \<Longrightarrow> sint (of_nat n :: i32) = int n"
  by (simp add: signed_of_nat signed_take_bit_int_eq_self)

lemma bind_None_always: "Option.bind x (\<lambda>_. None) = None"
  by (cases x) simp_all

lemma bind_eq_None_conv: "Option.bind x f = None \<longleftrightarrow> (\<forall>y. x = Some y \<longrightarrow> f y = None)"
  by (cases x) simp_all

lemma missing_reqs_step:
  assumes "k \<le> lst" "lst \<noteq> - 1"
  shows "missing_reqs E h v d k lst =
    (if missing_in E h v d k then [k] else []) @ missing_reqs E h v d (k + 1) lst"
proof -
  have "unat k < Suc (unat lst)" using assms(1) by (simp add: word_le_nat_alt)
  moreover have "k + 1 \<noteq> 0"
    using assms by (metis add.commute add_eq_0_iff word_order.extremum_uniqueI)
  then have "unat (k + 1) = Suc (unat k)" by (simp add: unatSuc add.commute)
  ultimately show ?thesis
    by (simp add: missing_reqs_def upt_conv_Cons del: upt_Suc)
qed

lemma missing_reqs_end: "\<not> k \<le> lst \<Longrightarrow> missing_reqs E h v d k lst = []"
  by (simp add: missing_reqs_def word_le_nat_alt)

text \<open>The scan for empty slots terminates and appends exactly the requests between its bounds that
  the database lacks, in order, when the array has room for them.\<close>

lemma scan_lists_missing:
  assumes "lst \<noteq> - 1" "u + length (missing_reqs E h v d k lst) \<le> length arr" "length arr < 2 ^ 31"
    and "\<forall>j < length arr. room (of_nat j)"
  shows "\<exists>arr'. mark_missing E h v d room lst k (arr, of_nat u) =
      Some (arr', of_nat (u + length (missing_reqs E h v d k lst))) \<and>
    take (u + length (missing_reqs E h v d k lst)) arr' = take u arr @ missing_reqs E h v d k lst \<and>
    length arr' = length arr"
  using assms(2-4)
proof (induction "unat lst + 1 - unat k" arbitrary: k u arr)
  case 0
  then have k: "\<not> k \<le> lst" by (simp add: word_le_nat_alt)
  then show ?case by (simp add: mark_missing.simps missing_reqs_end)
next
  case (Suc m)
  then have k: "k \<le> lst" by (simp add: word_le_nat_alt)
  have k1: "unat (k + 1) = Suc (unat k)"
  proof -
    have "k + 1 \<noteq> 0" using k assms(1) by (metis add.commute add_eq_0_iff word_order.extremum_uniqueI)
    then show ?thesis by (simp add: unatSuc add.commute)
  qed
  note step = missing_reqs_step [OF k assms(1), of E h v d]
  show ?case
  proof (cases "missing_in E h v d k")
    case False
    with Suc.hyps(1) [of "k + 1" u arr] Suc.hyps(2) Suc.prems k k1 step show ?thesis
      by (subst mark_missing.simps) (auto split: option.split)
  next
    case True
    with step Suc.prems(1) have u: "u < length arr"
      "Suc u + length (missing_reqs E h v d (k + 1) lst) \<le> length arr" by simp_all
    have s: "sint (of_nat u :: i32) = int u"
      using u(1) Suc.prems(2) by (simp add: sint_of_nat_small)
    have "\<exists>arr'. mark_missing E h v d room lst (k + 1) (arr[u := k], of_nat (Suc u)) =
        Some (arr', of_nat (Suc u + length (missing_reqs E h v d (k + 1) lst))) \<and>
      take (Suc u + length (missing_reqs E h v d (k + 1) lst)) arr' =
        take (Suc u) (arr[u := k]) @ missing_reqs E h v d (k + 1) lst \<and> length arr' = length (arr[u := k])"
      using Suc.hyps(2) Suc.prems u k1 by (intro Suc.hyps(1)) simp_all
    with True k s u Suc.prems step show ?thesis
      by (subst mark_missing.simps) (simp add: arr_set_def take_Suc_conv_app_nth add.commute)
  qed
qed

lemma scan_endless: "mark_missing E h v d room (- 1) k slots = None"
proof -
  have "e \<noteq> - 1" if "mark_missing E h v d room e k slots = Some r" for e r
  proof (rule mark_missing.raw_induct [where P = "\<lambda>E h v d room e k slots r. e \<noteq> - 1", OF _ that])
    fix loop and E :: "'a env" and h v d room key slots e r
    assume IH: "\<And>E h v d room e key slots r. loop E h v (d :: 'a) room e key slots = Some r \<Longrightarrow> e \<noteq> - 1"
      and eq: "(if key \<le> e then Option.bind
              (case snd (retrieve_record E h (vstol (VS v key)) d) of
                 None \<Rightarrow> if room (snd slots)
                   then Option.bind (arr_set (fst slots) (sint (snd slots)) key)
                     (\<lambda>arr. Some (arr, snd slots + 1))
                   else None
               | Some _ \<Rightarrow> Some slots)
              (loop E h v d room e (key + 1))
            else Some slots) = Some r"
    show "e \<noteq> - 1"
    proof
      assume "e = - 1"
      with eq obtain slots' where "loop E h v d room e (key + 1) slots' = Some r"
        by (auto simp: bind_eq_Some_conv)
      from IH [OF this] \<open>e = - 1\<close> show False by simp
    qed
  qed
  then show ?thesis by (cases "mark_missing E h v d room (- 1) k slots") auto
qed

text \<open>A node whose highest request belongs to another view than its own never gets past the computation of
  the edge: the scan runs to the largest request number and has no end.\<close>

lemma empty_edge_never_returns:
  assumes "\<forall>k. malloc_usable E k \<noteq> None" "edge_range n = None"
  shows "leader_election_initialize_edge_mod E n = None"
proof -
  have cal: "leader_election_leader_cal_edge E n' = None"
    if "election_mod n' = Some md'" "edge_end (edge md') = - 1" for md' and n' :: "('a, 'b) node_scheme"
    using that by (simp add: leader_election_leader_cal_edge_def get_mod_def scan_endless Let_def bind_None_always)
  show ?thesis
    using assms by (auto simp: leader_election_initialize_edge_mod_def get_mod_def set_mod_def Let_def cal
        bind_eq_None_conv split: option.splits)
qed

lemma scan_lists_missing_witness:
  "\<exists>arr'. mark_missing mem_env (node_db_ptr demo_node) 1 Map.empty (\<lambda>_. True) 7 5 ([0, 0, 0, 0], 0) =
     Some (arr', 3) \<and> take 3 arr' = [5, 6, 7]"
proof -
  have m: "missing_reqs mem_env (node_db_ptr demo_node) 1 Map.empty 5 7 = [5, 6, 7]" by code_simp
  show ?thesis
    using scan_lists_missing [of 7 0 mem_env "node_db_ptr demo_node" 1 Map.empty 5 "[0, 0, 0, 0]" "\<lambda>_. True"]
    unfolding m by (auto simp: numeral_3_eq_3)
qed

end
