(* ===== verification/Config.thy ===== *)
theory Config
  imports Replica
begin

text \<open>
  \<open>src/src/config-comp/config-comp.c\<close>: reading a node's configuration. libconfig is a parameter:
  \<open>'c\<close> is its settings, and the operations are those the code calls; \<open>None\<close> stands for the
  value with which libconfig reports that there is no such setting.
\<close>

record 'c libconfig =
  config_read_file :: "string \<Rightarrow> 'c option"
  config_lookup :: "'c \<Rightarrow> string \<Rightarrow> 'c option"
  config_lookup_int :: "'c \<Rightarrow> string \<Rightarrow> i32 option"
  config_setting_get_elem :: "'c \<Rightarrow> u32 \<Rightarrow> 'c option"
  config_setting_lookup_int :: "'c \<Rightarrow> string \<Rightarrow> i32 option"
  config_setting_lookup_int64 :: "'c \<Rightarrow> string \<Rightarrow> i64 option"
  config_setting_lookup_string :: "'c \<Rightarrow> string \<Rightarrow> string option"

text \<open>An address is the text of the IP address and the port in network byte order.\<close>

definition htons :: "u16 \<Rightarrow> u16" where
  "htons p = push_bit 8 p OR drop_bit 8 p"

type_synonym address = "string \<times> u16"

text \<open>\<open>config_setting_lookup_...\<close> leaves the variable alone when there is no such setting.\<close>

definition lookup_or :: "'v option \<Rightarrow> 'v \<Rightarrow> 'v" where
  "lookup_or found old = (case found of None \<Rightarrow> old | Some v \<Rightarrow> v)"

definition read_timeval ::
  "'c libconfig \<Rightarrow> 'c \<Rightarrow> string \<Rightarrow> string \<Rightarrow> timeval \<Rightarrow> timeval" where
  "read_timeval L s sec usec t =
     \<lparr>tv_sec = lookup_or (config_setting_lookup_int64 L s sec) (tv_sec t),
      tv_usec = lookup_or (config_setting_lookup_int64 L s usec) (tv_usec t)\<rparr>"

definition read_node_config :: "'c libconfig \<Rightarrow> 'c option \<Rightarrow> node_config \<Rightarrow> node_config" where
  "read_node_config L global c =
     (case global of
        None \<Rightarrow> c
      | Some g \<Rightarrow>
          \<lparr>reconnect_timeval =
             read_timeval L g ''reconnect_timeval_s'' ''reconnect_timeval_us'' (reconnect_timeval c),
           ping_timeval =
             read_timeval L g ''ping_timeval_s'' ''ping_timeval_us'' (ping_timeval c),
           expect_ping_timeval =
             read_timeval L g ''expected_ping_timeval_s'' ''expected_ping_timeval_us''
               (expect_ping_timeval c),
           make_progress_timeval =
             read_timeval L g ''progress_timeval_s'' ''progress_timeval_us''
               (make_progress_timeval c)\<rparr>)"

text \<open>A peer of the freshly allocated pool, before it is filled in.\<close>

definition unset_peer :: peer where
  "unset_peer = \<lparr>peer_id = 0, active = False, sock_id = 0, peer_address = Dangling,
     my_buff_event = Dangling, reconnect = Dangling\<rparr>"

text \<open>The loop over the nodes of the group; the value is 0 or -1.\<close>

fun read_nodes :: "'d env \<Rightarrow> 'c libconfig \<Rightarrow> 'c \<Rightarrow> nat list \<Rightarrow> ('d, 'z) node_scheme \<Rightarrow>
    (int \<times> ('d, 'z) node_scheme) option" where
  "read_nodes E L nodes_config [] n = Some (0, n)"
| "read_nodes E L nodes_config (i # is) n =
     (case config_setting_get_elem L nodes_config (of_nat i) of
        None \<Rightarrow> Some (- 1, n)
      | Some nc \<Rightarrow>
          (case (config_setting_lookup_string L nc ''ip_address'',
                 config_setting_lookup_int L nc ''port'') of
             (Some ip, Some port) \<Rightarrow> do {
               _ \<leftarrow> malloc_usable E 16;
               let n = set_peer (int i) \<lparr>peer_id = of_nat i, active = False, sock_id = - 1,
                 peer_address = Ptr (ip, htons (ucast port)), my_buff_event = NULL,
                 reconnect = NULL\<rparr> n;
               if int i = sint (node_id n) then
                 (let n = n\<lparr>
                    node_sys_log := lookup_or
                      (map_option sint (config_setting_lookup_int L nc ''sys_log'')) (node_sys_log n),
                    node_stat_log := lookup_or
                      (map_option sint (config_setting_lookup_int L nc ''stat_log''))
                      (node_stat_log n)\<rparr> in
                  case config_setting_lookup_string L nc ''db_name'' of
                    None \<Rightarrow> Some (- 1, n)
                  | Some db_name \<Rightarrow>
                      if malloc_usable E (length db_name + 1) = None then Some (- 1, n)
                      else read_nodes E L nodes_config is
                        (n\<lparr>node_db_name := db_name, my_address := (ip, htons (ucast port))\<rparr>))
               else read_nodes E L nodes_config is n
             }
           | _ \<Rightarrow> Some (- 1, n)))"

definition consensus_read_config ::
  "'d env \<Rightarrow> 'c libconfig \<Rightarrow> string \<Rightarrow> ('d, 'z) node_scheme \<Rightarrow>
    (int \<times> ('d, 'z) node_scheme) option" where
  "consensus_read_config E L config_path n =
     (case config_read_file L config_path of
        None \<Rightarrow> Some (- 1, n)
      | Some cfg \<Rightarrow>
          (case config_lookup_int L cfg ''group_size'' of
             None \<Rightarrow> Some (- 1, n)
           | Some gs \<Rightarrow>
               if malloc_usable E (unat gs * 64) = None then
                 Some (- 1, n\<lparr>group_size := gs, peer_pool := []\<rparr>)
               else
                 (let n = n\<lparr>group_size := gs, peer_pool := replicate (unat gs) unset_peer\<rparr> in
                  if int (unat gs) \<le> sint (node_id n) then Some (- 1, n)
                  else
                    (let n = n\<lparr>config := read_node_config L
                       (config_lookup L cfg ''consensus_global_config'') (config n)\<rparr> in
                     case config_lookup L cfg ''consensus_config'' of
                       None \<Rightarrow> Some (- 1, n)
                     | Some nodes_config \<Rightarrow>
                         read_nodes E L nodes_config [0..<unat gs] n))))"

section \<open>A concrete configuration\<close>

text \<open>Settings as a tree, for the witnesses.\<close>

datatype setting =
    SInt i64
  | SString string
  | SGroup "(string \<times> setting) list"
  | SList "setting list"

fun set_lookup :: "setting \<Rightarrow> string \<Rightarrow> setting option" where
  "set_lookup (SGroup fs) k = map_of fs k"
| "set_lookup _ k = None"

fun set_elem :: "setting \<Rightarrow> u32 \<Rightarrow> setting option" where
  "set_elem (SList xs) i = (if unat i < length xs then Some (xs ! unat i) else None)"
| "set_elem _ i = None"

fun set_int :: "setting \<Rightarrow> i64 option" where
  "set_int (SInt i) = Some i"
| "set_int _ = None"

fun set_string :: "setting \<Rightarrow> string option" where
  "set_string (SString s) = Some s"
| "set_string _ = None"

definition tree_config :: "setting \<Rightarrow> setting libconfig" where
  "tree_config root =
     \<lparr>config_read_file = (\<lambda>_. Some root),
      config_lookup = set_lookup,
      config_lookup_int = (\<lambda>s k. map_option ucast (Option.bind (set_lookup s k) set_int)),
      config_setting_get_elem = set_elem,
      config_setting_lookup_int = (\<lambda>s k. map_option ucast (Option.bind (set_lookup s k) set_int)),
      config_setting_lookup_int64 = (\<lambda>s k. Option.bind (set_lookup s k) set_int),
      config_setting_lookup_string = (\<lambda>s k. Option.bind (set_lookup s k) set_string)\<rparr>"

end
