(* ===== verification/NodeRun.thy ===== *)
theory NodeRun
  imports ElectionProps Config
begin

text \<open>
  A node between \<open>system_initialize\<close> and the end of libevent's loop: the loop calls the node's
  callbacks, one after the other, whenever a connection has data or an event, a timer runs out or a
  signal arrives. \<open>node_step\<close> is one such call, or the sending of what was written to a connection.
  Everything the code relies on without testing it (\<open>node_ok\<close>) holds from the initialisation on.
\<close>

section \<open>The event loop\<close>

text \<open>
  A timer that runs out is no longer pending when its callback runs. The environment of a callback
  (time, allocator, failures) may be another one each time.
\<close>

inductive node_step :: "('d, 'z) node_scheme \<Rightarrow> ('d, 'z) node_scheme \<Rightarrow> bool" where
  read: "replica_on_read E (input, n) = Some (rest, n') \<Longrightarrow> node_step n n'"
| connection: "\<lbrakk>peer_at n i = Some p; my_buff_event p = Ptr ws; peer_node_on_event i ev n = Some n'\<rbrakk> \<Longrightarrow>
    node_step n n'"
| sent: "\<lbrakk>peer_at n i = Some p; my_buff_event p = Ptr ws\<rbrakk> \<Longrightarrow>
    node_step n (set_peer i (p\<lparr>my_buff_event := Ptr (drop k ws)\<rparr>) n)"
| reconnect: "\<lbrakk>peer_at n i = Some p; reconnect p = Ptr (Some t);
    peer_node_on_timeout E i (set_peer i (p\<lparr>reconnect := Ptr None\<rparr>) n) = Some n'\<rbrakk> \<Longrightarrow> node_step n n'"
| leader_ping: "\<lbrakk>ev_leader_ping n = Ptr (Some t);
    leader_ping_period E (n\<lparr>ev_leader_ping := Ptr None\<rparr>) = Some n'\<rbrakk> \<Longrightarrow> node_step n n'"
| expect_ping: "\<lbrakk>ev_expect_ping n = Ptr (Some t);
    expected_leader_ping_period E (n\<lparr>ev_expect_ping := Ptr None\<rparr>) = Some n'\<rbrakk> \<Longrightarrow> node_step n n'"
| make_progress: "\<lbrakk>ev_make_progress n = Ptr (Some t);
    make_progress_on E (n\<lparr>ev_make_progress := Ptr None\<rparr>) = Some n'\<rbrakk> \<Longrightarrow> node_step n n'"
| election: "\<lbrakk>election_mod n = Some md; slient_period md = Ptr (Some t);
    leader_election_on_timeout E (set_mod (md\<lparr>slient_period := Ptr None\<rparr>) n) = Some n'\<rbrakk> \<Longrightarrow>
    node_step n n'"
| accept: "replica_on_accept E n = Some n' \<Longrightarrow> node_step n n'"
| error: "node_step n (replica_on_error_cb n)"
| signal: "node_step n (node_sys_sig_handler n)"

inductive_cases node_stepE: "node_step n n'"

section \<open>The callbacks keep the shape\<close>

lemma check_exit_kept [simp]: "node_kept n (check_exit n)"
  by (simp add: check_exit_def)

lemma kept_check_exit: "node_kept n n' \<Longrightarrow> node_kept n (check_exit n')"
  using node_kept_trans check_exit_kept by blast

lemma keeps_kept: "keeps n n' \<Longrightarrow> node_kept n n'"
  by (simp add: keeps_def)

lemma moves_kept: "moves n n' \<Longrightarrow> node_kept n n'"
  by (simp add: moves_def)

lemma replica_read_kept: "replica_read_loop E s = Some s' \<Longrightarrow> node_kept (snd s) (snd s')"
proof (rule replica_read_loop.raw_induct [where P = "\<lambda>E s s'. node_kept (snd s) (snd s')"])
  fix loop E and s s' :: "bytes \<times> ('a, 'b) node_scheme"
  assume IH: "\<And>E s s'. loop E s = Some (s' :: bytes \<times> ('a, 'b) node_scheme) \<Longrightarrow> node_kept (snd s) (snd s')"
    and eq: "(if SYS_MSG_HEADER_SIZE \<le> length (fst s) then
        if malloc_usable E SYS_MSG_HEADER_SIZE = None then Some s
        else do {
          buf \<leftarrow> dec_header (fst s);
          let data_size = (scast (ucast (sh_data_size buf) :: i32) :: u64);
          if unat (16 + data_size) \<le> length (fst s) then do {
            s \<leftarrow> handle_msg E data_size s;
            loop E s
          }
          else Some s
        }
      else Some s) = Some s'"
  have h: "node_kept (snd s) (snd s1)" if "handle_msg E size s = Some s1" for size s1
    using that by (cases s) (auto simp: handle_msg_def Let_def split: option.splits
        dest!: dispatch_moves moves_kept)
  show "node_kept (snd s) (snd s')"
    using eq by (auto simp: Let_def split: if_splits dest!: h IH intro: node_kept_trans)
qed

lemma replica_on_read_kept: "replica_on_read E (input, n) = Some (rest, n') \<Longrightarrow> node_kept n n'"
  by (auto simp: replica_on_read_def dest!: replica_read_kept intro: kept_check_exit)

lemma connect_peer_kept: "connect_peer E i n = Some n' \<Longrightarrow> node_kept n n'"
  by (auto simp: connect_peer_def split: if_splits intro!: set_peer_kept)

lemma same_link_kept:
  assumes "peer_at n i = Some p" "active q = active p" "my_buff_event q = my_buff_event p"
  shows "node_kept n (set_peer i q n)"
proof -
  have "p \<in> set (peer_pool n)" using assms(1) by (auto simp: peer_at_def split: if_splits)
  then have "peers_linked (peer_pool n) \<longrightarrow> peers_linked ((peer_pool n)[nat i := q])"
    using assms(2,3) set_update_subset_insert [of "peer_pool n" "nat i" q] by (auto simp: peers_linked_def)
  then show ?thesis by (simp add: node_kept_def node_ok_def set_peer_def)
qed

lemma peer_event_kept:
  assumes "peer_node_on_event i ev n = Some n'" "peer_at n i = Some p" "my_buff_event p = Ptr ws"
  shows "node_kept n n'"
  using assms by (cases ev) (auto simp: peer_node_on_event_def intro!: kept_check_exit set_peer_kept)

lemma initialize_mod_kept:
  assumes "initialize_leader_election_mod E n = Some n'"
  shows "node_kept n n'"
  using assms
  by (auto simp: initialize_leader_election_mod_def free_leader_election_mod_def Let_def node_kept_def
      node_ok_def arrays_ok_def split: if_splits)

lemma refresh_lengths:
  "refresh_leader_election n md = Some md' \<Longrightarrow>
    length (learner_arr md') = length (learner_arr md) \<and> length (proposer_arr md') = length (proposer_arr md)"
  by (auto simp: refresh_leader_election_def Let_def split: if_splits)

lemma initialize_election_kept:
  assumes "initialize_leader_election E n = Some n'"
  shows "node_kept n n'"
proof -
  let ?n = "n\<lparr>node_state := NODE_INLELE\<rparr>"
  from assms obtain n1 where n1: "(if election_mod ?n = None then initialize_leader_election_mod E ?n
      else Some ?n) = Some n1"
    and r: "(case election_mod n1 of
        None \<Rightarrow> Some n1
      | Some md \<Rightarrow> do {
          md \<leftarrow> refresh_leader_election n1
            (md\<lparr>next_view := v_view_id (cur_view n1) + 1, next_pnum := node_id n1\<rparr>);
          arm first_proposer_lele (set_mod md n1)
        }) = Some n'"
    by (auto simp: initialize_leader_election_def get_mod_def Let_def split: if_splits)
  have "node_kept n ?n" by simp
  moreover have "node_kept ?n n1" using n1 initialize_mod_kept [of E ?n n1] by (auto split: if_splits)
  moreover have "node_kept n1 n'"
  proof (cases "election_mod n1")
    case (Some md)
    with r obtain md' where md': "refresh_leader_election n1
        (md\<lparr>next_view := v_view_id (cur_view n1) + 1, next_pnum := node_id n1\<rparr>) = Some md'"
      "arm first_proposer_lele (set_mod md' n1) = Some n'" by auto
    have "node_kept n1 (set_mod md' n1)"
      using refresh_lengths [OF md'(1)] by (intro set_mod_kept [OF Some]) simp_all
    with keeps_kept [OF arm_keeps(1) [OF md'(2)]] show ?thesis using node_kept_trans by blast
  qed (use r in simp)
  ultimately show ?thesis using node_kept_trans by blast
qed

lemma leader_ping_kept: "leader_ping_period E n = Some n' \<Longrightarrow> node_kept n n'"
proof -
  assume a: "leader_ping_period E n = Some n'"
  show ?thesis
  proof (cases "v_leader_id (cur_view n) = node_id n")
    case True
    with a obtain m n1 where "send_to_other_nodes m n = Some n1"
      "n' = check_exit n1 \<or> (\<exists>e. n' = check_exit (n1\<lparr>ev_leader_ping := e\<rparr>))"
      by (auto simp: leader_ping_period_def split: if_splits)
    then show ?thesis
      using keeps_kept [OF send_to_other_keeps] node_kept_trans node_kept_upd(5) kept_check_exit by metis
  next
    case False
    with a obtain n1 where "n1 = n \<or> (\<exists>e r. initialize_expect_ping E (n\<lparr>ev_leader_ping := e\<rparr>) = Some (r, n1))"
      "n' = check_exit n1"
      by (auto simp: leader_ping_period_def split: if_splits)
    then show ?thesis
      using initialize_ping_kept(2) node_kept_trans node_kept_upd(5) kept_check_exit node_kept_refl by metis
  qed
qed

lemma make_progress_kept: "make_progress_on E n = Some n' \<Longrightarrow> node_kept n n'"
proof -
  assume a: "make_progress_on E n = Some n'"
  show ?thesis
  proof (cases "v_leader_id (cur_view n) = node_id n")
    case True
    with a obtain n1 where "n1 = n \<or> run_consensus E (consensus_make_progress E) n = Some n1"
      "n' = check_exit n1 \<or> (\<exists>e. n' = check_exit (n1\<lparr>ev_make_progress := e\<rparr>))"
      by (auto simp: make_progress_on_def split: if_splits ptr.splits)
    moreover have "node_kept n n1" if "run_consensus E (consensus_make_progress E) n = Some n1" for n1
      by (rule keeps_kept [OF run_consensus_keeps [OF that consensus_make_progress_frame]])
    ultimately show ?thesis
      using node_kept_trans node_kept_upd(7) kept_check_exit node_kept_refl by metis
  next
    case False
    with a obtain n1 where "n1 = n \<or> (\<exists>e r. initialize_leader_make_progress E (n\<lparr>ev_make_progress := e\<rparr>) = Some (r, n1))"
      "n' = check_exit n1"
      by (auto simp: make_progress_on_def split: if_splits)
    then show ?thesis
      using initialize_ping_kept(3) node_kept_trans node_kept_upd(7) kept_check_exit node_kept_refl by metis
  qed
qed

lemma expected_ping_kept: "expected_leader_ping_period E n = Some n' \<Longrightarrow> node_kept n n'"
  by (auto simp: expected_leader_ping_period_def lost_connection_with_leader_def Let_def split: if_splits
      dest!: initialize_ping_kept initialize_election_kept intro: kept_check_exit)

lemma election_timeout_kept: "leader_election_on_timeout E n = Some n' \<Longrightarrow> node_kept n n'"
  by (cases "node_state n") (auto simp: leader_election_on_timeout_def split: if_splits option.splits
      dest!: arm_keeps proposer_do_keeps send_to_one_keeps keeps_kept
      intro: kept_check_exit node_kept_trans)

lemma peer_timeout_kept: "peer_node_on_timeout E i n = Some n' \<Longrightarrow> node_kept n n'"
  by (auto simp: peer_node_on_timeout_def dest!: connect_peer_kept intro: kept_check_exit)

lemma node_step_kept:
  assumes "node_step n n'"
  shows "node_kept n n'"
  using assms
proof cases
  case (reconnect i p t E)
  have "node_kept n (set_peer i (p\<lparr>reconnect := Ptr None\<rparr>) n)"
    by (rule same_link_kept [OF reconnect(1)]) simp_all
  with peer_timeout_kept [OF reconnect(3)] show ?thesis using node_kept_trans by blast
next
  case (election md t E)
  have "node_kept n (set_mod (md\<lparr>slient_period := Ptr None\<rparr>) n)"
    by (rule set_mod_kept [OF election(1)]) simp_all
  with election_timeout_kept [OF election(3)] show ?thesis using node_kept_trans by blast
qed (auto simp: replica_on_accept_def replica_on_error_cb_def node_sys_sig_handler_def split: if_splits
    dest!: replica_on_read_kept leader_ping_kept expected_ping_kept make_progress_kept
    intro!: set_peer_kept intro: peer_event_kept node_kept_upd [THEN node_kept_trans])

section \<open>Initialisation\<close>

text \<open>The pool that the configuration fills in has no connection yet.\<close>

definition fresh :: "node_id_t \<Rightarrow> view \<Rightarrow> ('d, 'z) node_scheme \<Rightarrow> bool" where
  "fresh nid vw n \<longleftrightarrow> node_id n = nid \<and> cur_view n = vw \<and> election_mod n = None \<and>
     length (peer_pool n) = unat (group_size n) \<and> sint nid < int (unat (group_size n)) \<and>
     (\<forall>p \<in> set (peer_pool n). \<not> active p)"

lemma fresh_set_peer: "fresh nid vw n \<Longrightarrow> \<not> active p \<Longrightarrow> fresh nid vw (set_peer i p n)"
  using set_update_subset_insert [of "peer_pool n" "nat i" p] by (auto simp: fresh_def set_peer_def)

lemma fresh_upd [simp]:
  "fresh nid vw (n\<lparr>node_sys_log := a\<rparr>) = fresh nid vw n" "fresh nid vw (n\<lparr>node_stat_log := b\<rparr>) = fresh nid vw n"
  "fresh nid vw (n\<lparr>node_db_name := s\<rparr>) = fresh nid vw n" "fresh nid vw (n\<lparr>my_address := ad\<rparr>) = fresh nid vw n"
  "fresh nid vw (n\<lparr>config := c\<rparr>) = fresh nid vw n" "fresh nid vw (n\<lparr>ev_leader_ping := e\<rparr>) = fresh nid vw n"
  "fresh nid vw (n\<lparr>ev_expect_ping := e\<rparr>) = fresh nid vw n" "fresh nid vw (n\<lparr>ev_make_progress := e\<rparr>) = fresh nid vw n"
  "fresh nid vw (n\<lparr>last_ping_msg := t\<rparr>) = fresh nid vw n" "fresh nid vw (n\<lparr>node_state := st\<rparr>) = fresh nid vw n"
  "fresh nid vw (n\<lparr>msg_cb_set := mc\<rparr>) = fresh nid vw n" "fresh nid vw (n\<lparr>consensus_comp := cc\<rparr>) = fresh nid vw n"
  "fresh nid vw (n\<lparr>listener := l\<rparr>) = fresh nid vw n"
  by (simp_all add: fresh_def)

lemma read_nodes_fresh:
  "read_nodes E L nc is n = Some (r, n') \<Longrightarrow> fresh nid vw n \<Longrightarrow> fresh nid vw n'"
proof (induction "is" arbitrary: n)
  case (Cons i "is")
  have deep: "fresh nid vw n'" if "read_nodes E L nc is (set_peer j p n\<lparr>node_sys_log := a, node_stat_log := b,
      node_db_name := s, my_address := ad\<rparr>) = Some (r, n')" "\<not> active p" for j p a b s ad
    by (rule Cons.IH [OF that(1)]) (use that(2) Cons.prems(2) in \<open>simp add: fresh_set_peer\<close>)
  show ?case
    using Cons.prems by (auto simp: Let_def split: option.splits if_splits
        intro!: fresh_set_peer dest!: deep intro: Cons.IH)
qed simp

lemma read_config_fresh:
  assumes "consensus_read_config E L path n = Some (0, n')" "node_id n = nid" "election_mod n = None" "cur_view n = vw"
  shows "fresh nid vw n'"
  using assms by (auto simp: consensus_read_config_def Let_def split: option.splits if_splits
      elim!: read_nodes_fresh) (auto simp: fresh_def unset_peer_def)

lemma timers_fresh:
  "initialize_leader_ping E n = Some (r, n') \<Longrightarrow> fresh nid vw n \<Longrightarrow> fresh nid vw n'"
  "initialize_expect_ping E n = Some (r, n') \<Longrightarrow> fresh nid vw n \<Longrightarrow> fresh nid vw n'"
  "initialize_leader_make_progress E n = Some (r, n') \<Longrightarrow> fresh nid vw n \<Longrightarrow> fresh nid vw n'"
  by (auto simp: initialize_leader_ping_def initialize_expect_ping_def initialize_leader_make_progress_def
      Let_def split: if_splits)

lemma fresh_peer: "fresh nid vw n \<Longrightarrow> peer_at n i = Some p \<Longrightarrow> \<not> active p"
  by (force simp: fresh_def peer_at_def nat_less_iff split: if_splits dest: nth_mem [of "nat i"])

lemma connect_each_fresh: "connect_each E is n = Some n' \<Longrightarrow> fresh nid vw n \<Longrightarrow> fresh nid vw n'"
proof (induction "is" arbitrary: n)
  case (Cons i "is")
  show ?case
  proof (cases "int i = sint (node_id n)")
    case False
    with Cons.prems(1) obtain p n1 where p: "peer_at n (int i) = Some p"
      "connect_peer E (int i) (set_peer (int i) (p\<lparr>reconnect := evtimer_new E\<rparr>) n) = Some n1"
      "connect_each E is n1 = Some n'"
      by auto
    have s: "fresh nid vw (set_peer (int i) (p\<lparr>reconnect := evtimer_new E\<rparr>) n)"
      using fresh_peer [OF Cons.prems(2) p(1)] Cons.prems(2) by (simp add: fresh_set_peer)
    then have "fresh nid vw n1"
      using p(2) by (auto simp: connect_peer_def split: if_splits dest: fresh_peer intro!: fresh_set_peer)
    with Cons.IH [OF p(3)] show ?thesis .
  qed (use Cons in simp)
qed simp

lemma init_comp_ok:
  assumes "init_consensus_comp E (ucast (node_id n)) s mode db (group_size n) ucb True n = Some (Ptr (), n')"
    and "fresh nid vw n"
  shows "node_ok (n'\<lparr>consensus_comp := Ptr ()\<rparr>) \<and> node_id n' = nid \<and> cur_view n' = vw \<and>
    highest_seen_vs n' = VS 1 0"
  using assms
  by (auto simp: init_consensus_comp_def Let_def split: if_splits prod.splits)
    (auto simp: node_ok_def fresh_def peers_linked_def role_ok_def)

lemma initialize_node_ok:
  assumes "initialize_node E lg mode ucb db n = Some (0, n')" "fresh nid vw n" "consensus_comp n' = Ptr ()"
  shows "node_ok n' \<and> node_id n' = nid \<and> cur_view n' = vw \<and> highest_seen_vs n' = VS 1 0"
proof -
  define timers where "timers = (let n = n\<lparr>last_ping_msg := now E\<rparr> in
      if v_leader_id (cur_view n) = node_id n then do {
         (ret, n) \<leftarrow> initialize_leader_ping E n;
         if ret \<noteq> 0 then Some (ret, n) else initialize_leader_make_progress E n
       } else initialize_expect_ping E n)"
  have start: "do {
     (ret, n) \<leftarrow> timers;
     if ret \<noteq> 0 then Some (1, n)
     else do {
       _ \<leftarrow> open_log E lg (''/node-'' @ nat_str (unat (ucast (node_id n) :: u32)) @ ''-consensus-sys.log'');
       n \<leftarrow> connect_peers E (n\<lparr>node_state := NODE_ACTIVE, msg_cb_set := True\<rparr>);
       (comp, n) \<leftarrow> init_consensus_comp E (ucast (node_id n)) (node_db_name n) mode db
         (group_size n) ucb True (n\<lparr>consensus_comp := NULL\<rparr>);
       let n = n\<lparr>consensus_comp := comp\<rparr>;
       Some (if comp = NULL then 1 else 0, n)
     } } = Some (0 :: int, n')"
    using assms(1) unfolding initialize_node_def timers_def Let_def .
  then obtain r n1 where n1: "timers = Some (r, n1)" by (cases timers) auto
  have "fresh nid vw n1"
    using n1 assms(2) by (auto simp: timers_def Let_def split: if_splits
        dest!: timers_fresh(1) timers_fresh(2) timers_fresh(3))
  moreover from start n1 obtain n2 comp n3 where
    n2: "connect_each E [0..<unat (group_size n1)] (n1\<lparr>node_state := NODE_ACTIVE, msg_cb_set := True\<rparr>) = Some n2"
    and n3: "init_consensus_comp E (ucast (node_id n2)) (node_db_name n2) mode db
         (group_size n2) ucb True (n2\<lparr>consensus_comp := NULL\<rparr>) = Some (comp, n3)" "n' = n3\<lparr>consensus_comp := comp\<rparr>"
    by (auto simp: connect_peers_def split: if_splits)
  ultimately have "fresh nid vw n2" using connect_each_fresh [OF n2, of nid vw] by simp
  then have "fresh nid vw (n2\<lparr>consensus_comp := NULL\<rparr>)" by simp
  from init_comp_ok [OF _ this, of E "node_db_name n2" mode db ucb n3] n3 assms(3) show ?thesis by simp
qed

lemma node_run_kept: "node_step\<^sup>*\<^sup>* n n' \<Longrightarrow> node_kept n n'"
  by (induction rule: rtranclp_induct) (auto dest: node_step_kept intro: node_kept_trans)

lemma started_node:
  assumes "system_initialize E (consensus_read_config E L path) nid start lg mode ucb db d = Some (Some n0)"
    and "consensus_comp n0 = Ptr ()"
  shows "node_ok n0 \<and> node_id n0 = nid \<and> cur_view n0 = cur_view (blank_node nid start db d) \<and>
    highest_seen_vs n0 = VS 1 0"
proof -
  from assms(1) obtain n1 n2 where n1: "consensus_read_config E L path (blank_node nid start db d) = Some (0, n1)"
    and n2: "initialize_node E lg mode ucb db n1 = Some (0, n2)" "n0 = n2\<lparr>listener := Ptr ()\<rparr>"
    by (auto simp: system_initialize_def split: if_splits)
  let ?vw = "cur_view (blank_node nid start db d)"
  have "fresh nid ?vw n1" by (rule read_config_fresh [OF n1]) (simp_all add: blank_node_def Let_def)
  from initialize_node_ok [OF n2(1) this] assms(2) n2(2)
  have "node_ok n2" "node_id n2 = nid \<and> cur_view n2 = ?vw \<and> highest_seen_vs n2 = VS 1 0" by simp_all
  moreover have "node_kept n2 n0" unfolding n2(2) by (simp add: node_kept_def node_ok_def role_ok_def)
  ultimately show ?thesis using n2(2) by (simp add: node_kept_def)
qed

lemma started_node_kept:
  assumes "system_initialize E (consensus_read_config E L path) nid start lg mode ucb db d = Some (Some n0)"
    and "consensus_comp n0 = Ptr ()" "node_step\<^sup>*\<^sup>* n0 n"
  shows "node_ok n \<and> node_id n = nid \<and> group_size n = group_size n0 \<and> config n = config n0"
  using started_node [OF assms(1,2)] node_run_kept [OF assms(3)] by (simp add: node_kept_def)

text \<open>C11 a node that has been initialised from a configuration keeps its shape for ever: after any calls
  of its callbacks, in any order, the pool has one peer for every node of the group, every active
  peer has a connection, the consensus component has the node's identity, group and view, its role
  is the one that the view gives it, and the arrays of an election have one entry for every node.\<close>

theorem node_shape_holds:
  assumes "system_initialize E (consensus_read_config E L path) nid start lg mode ucb db d = Some (Some n0)"
    and "consensus_comp n0 = Ptr ()" "node_step\<^sup>*\<^sup>* n0 n"
  shows "node_ok n \<and> node_id n = nid \<and> group_size n = group_size n0 \<and> config n = config n0"
  using assms by (rule started_node_kept)

text \<open>A configuration of two nodes; node 1 is started, is told the view by the leader, and receives
  a signal.\<close>

definition two_nodes :: setting where
  "two_nodes = SGroup [(''group_size'', SInt 2), (''consensus_config'', SList
     [SGroup [(''ip_address'', SString ''10.0.0.1''), (''port'', SInt 8000), (''db_name'', SString ''n0'')],
      SGroup [(''ip_address'', SString ''10.0.0.2''), (''port'', SInt 8001), (''db_name'', SString ''n1'')]])]"

definition started :: "log_db node option option" where
  "started = system_initialize log_env (consensus_read_config log_env (tree_config two_nodes) ''f'')
     1 ''s'' None 0 True (Some \<lparr>bdb_ptr = Some ''d''\<rparr>) []"

definition after_ping :: "log_db node \<Rightarrow> log_db node option" where
  "after_ping n = do {
     n \<leftarrow> peer_node_on_event 0 BEV_CONNECTED n;
     leader_ping_period log_env (n\<lparr>ev_leader_ping := Ptr None\<rparr>)
   }"

lemma after_ping_steps:
  assumes "after_ping n = Some n'" "peer_at n 0 = Some p" "my_buff_event p = Ptr ws"
    and "ev_leader_ping n = Ptr (Some t)"
  shows "node_step\<^sup>*\<^sup>* n n'"
proof -
  from assms(1) obtain n1 where n1: "peer_node_on_event 0 BEV_CONNECTED n = Some n1"
    "leader_ping_period log_env (n1\<lparr>ev_leader_ping := Ptr None\<rparr>) = Some n'"
    by (auto simp: after_ping_def)
  then have "ev_leader_ping n1 = Ptr (Some t)"
    using assms(2,4) by (auto simp: peer_node_on_event_def check_exit_def set_peer_def)
  from node_step.connection [OF assms(2,3) n1(1)] node_step.leader_ping [OF this n1(2)]
  show ?thesis by (meson r_into_rtranclp rtranclp.rtrancl_into_rtrancl)
qed

lemma started_evaluated:
  "case started of
     Some (Some n) \<Rightarrow> consensus_comp n = Ptr () \<and>
       ev_leader_ping n = Ptr (Some \<lparr>tv_sec = 2, tv_usec = 0\<rparr>) \<and>
       map_option my_buff_event (peer_at n 0) = Some (Ptr []) \<and>
       (case after_ping n of
          Some n' \<Rightarrow> map_option active (peer_at n' 0) = Some True \<and>
            map_option (\<lambda>p. case my_buff_event p of Ptr ws \<Rightarrow> length ws | _ \<Rightarrow> 0) (peer_at n' 0) = Some 1
        | None \<Rightarrow> False)
   | _ \<Rightarrow> False"
  by code_simp

lemma started_run:
  obtains n0 n p ws where "started = Some (Some n0)" "consensus_comp n0 = Ptr ()" "node_step\<^sup>*\<^sup>* n0 n"
    "peer_at n 0 = Some p" "active p" "my_buff_event p = Ptr ws" "length ws = 1"
proof -
  from started_evaluated obtain n0 n p0 p where s: "started = Some (Some n0)" "consensus_comp n0 = Ptr ()"
    "ev_leader_ping n0 = Ptr (Some \<lparr>tv_sec = 2, tv_usec = 0\<rparr>)" "peer_at n0 0 = Some p0"
    "my_buff_event p0 = Ptr []" "after_ping n0 = Some n" "peer_at n 0 = Some p" "active p"
    "(case my_buff_event p of Ptr ws \<Rightarrow> length ws | _ \<Rightarrow> 0) = 1"
    by (auto split: option.splits)
  from s(9) obtain ws where "my_buff_event p = Ptr ws" "length ws = 1" by (auto split: ptr.splits)
  with that [OF s(1,2) after_ping_steps [OF s(6,4,5,3)] s(7,8)] show ?thesis .
qed

theorem node_shape_holds_witness:
  "\<exists>n0 n. started = Some (Some n0) \<and> node_step\<^sup>*\<^sup>* n0 n \<and> (\<exists>p. peer_at n 0 = Some p \<and> active p) \<and>
    node_ok n \<and> node_id n = 1 \<and> group_size n = group_size n0"
proof -
  obtain n0 n p ws where s: "started = Some (Some n0)" "consensus_comp n0 = Ptr ()" "node_step\<^sup>*\<^sup>* n0 n"
    "peer_at n 0 = Some p" "active p" "my_buff_event p = Ptr ws" "length ws = 1" by (rule started_run)
  from node_shape_holds [OF s(1) [unfolded started_def] s(2,3)] s show ?thesis by blast
qed

text \<open>C12 a node that has been initialised can always send to the others: after any calls of its
  callbacks, \<open>send_to_other_nodes\<close> touches no peer outside the pool and no connection that is not
  there; the message is appended to the connection of every active peer of the group, once, and
  nothing else of the node changes.\<close>

theorem reached_node_sends:
  assumes "system_initialize E (consensus_read_config E L path) nid start lg mode ucb db d = Some (Some n0)"
    and "consensus_comp n0 = Ptr ()" "node_step\<^sup>*\<^sup>* n0 n"
  shows "\<exists>n'. send_to_other_nodes m n = Some n' \<and> n' = n\<lparr>peer_pool := peer_pool n'\<rparr> \<and>
    length (peer_pool n') = unat (group_size n0) \<and>
    (\<forall>i < unat (group_size n0). \<exists>p. peer_at n (int i) = Some p \<and>
      (if int i \<noteq> sint nid \<and> active p
       then \<exists>ws. my_buff_event p = Ptr ws \<and> peer_at n' (int i) = Some (p\<lparr>my_buff_event := Ptr (ws @ [m])\<rparr>)
       else peer_at n' (int i) = Some p))"
proof -
  let ?ps = "deliver_to {i \<in> set [0..<unat (group_size n)]. sent_to n i} m (peer_pool n)"
  from started_node_kept [OF assms] have k: "node_ok n" "node_id n = nid" "group_size n = group_size n0"
    by auto
  then have l: "length (peer_pool n) = unat (group_size n0)" by (simp add: node_ok_def)
  have c: "\<forall>p \<in> set (peer_pool n). active p \<longrightarrow> (\<exists>ws. my_buff_event p = Ptr ws)"
    using k(1) by (simp add: node_ok_def peers_linked_def)
  then have s: "send_to_other_nodes m n = Some (n\<lparr>peer_pool := ?ps\<rparr>)"
    using send_each_eq [of "[0..<unat (group_size n)]" n m] l k(3) by (simp add: send_to_other_nodes_def)
  have each: "\<exists>p. peer_at n (int i) = Some p \<and>
      (if int i \<noteq> sint nid \<and> active p
       then \<exists>ws. my_buff_event p = Ptr ws \<and>
         peer_at (n\<lparr>peer_pool := ?ps\<rparr>) (int i) = Some (p\<lparr>my_buff_event := Ptr (ws @ [m])\<rparr>)
       else peer_at (n\<lparr>peer_pool := ?ps\<rparr>) (int i) = Some p)" if i: "i < unat (group_size n0)" for i
  proof -
    have j: "i < length (peer_pool n)" "set [0..<unat (group_size n)] = {0..<length (peer_pool n)}"
      using i l k(3) by simp_all
    then have "peer_pool n ! i \<in> set (peer_pool n)" by simp
    with c have "active (peer_pool n ! i) \<Longrightarrow> \<exists>ws. my_buff_event (peer_pool n ! i) = Ptr ws" by blast
    with j(1) k(2) show ?thesis unfolding j(2) by (auto simp: peer_at_def deliver_to_nth sent_to_def)
  qed
  show ?thesis
    by (rule exI [of _ "n\<lparr>peer_pool := ?ps\<rparr>"]) (use s l each in simp)
qed

theorem reached_node_sends_witness:
  "\<exists>n0 n n'. started = Some (Some n0) \<and> node_step\<^sup>*\<^sup>* n0 n \<and> send_to_other_nodes [1, 2] n = Some n' \<and>
    (\<exists>p ws. peer_at n' 0 = Some p \<and> my_buff_event p = Ptr (ws @ [[1, 2]]) \<and> length ws = 1)"
proof -
  obtain n0 n p ws where s: "started = Some (Some n0)" "consensus_comp n0 = Ptr ()" "node_step\<^sup>*\<^sup>* n0 n"
    "peer_at n 0 = Some p" "active p" "my_buff_event p = Ptr ws" "length ws = 1" by (rule started_run)
  have k: "0 < unat (group_size n0)"
  proof -
    have "0 < length (peer_pool n)" using s(4) by (auto simp: peer_at_def split: if_splits)
    moreover have "length (peer_pool n) = unat (group_size n0)"
      using started_node_kept [OF s(1) [unfolded started_def] s(2,3)] by (simp add: node_ok_def)
    ultimately show ?thesis by linarith
  qed
  from reached_node_sends [OF s(1) [unfolded started_def] s(2,3), of "[1, 2]"] k s show ?thesis
    by fastforce
qed

section \<open>A node that joins\<close>

text \<open>C38 a node that joins the group and is elected before it was told of a view never gets past the
  computation of the edge: it is in view 0, but the highest request it has seen is request 0 of view 1, so
  the code takes it for a leader that lags behind, sets the end of the scan for empty slots to the largest
  request number, and scans all the same. The scan has no end but a failed assertion. So neither setting up
  the edge nor handling the announcement of its own election returns, in any state of the node in which its
  view and its highest request are still those of the start.\<close>

theorem joined_leader_never_returns:
  assumes "system_initialize E (consensus_read_config E L path) nid start lg mode ucb db d = Some (Some n0)"
    and "consensus_comp n0 = Ptr ()" "start = [] \<or> hd start \<noteq> CHR ''s''"
    and "cur_view n = cur_view n0" "highest_seen_vs n = highest_seen_vs n0" "\<forall>k. malloc_usable E' k \<noteq> None"
  shows "edge_range n = None \<and> leader_election_initialize_edge_mod E' n = None \<and>
    (lm_content msg = node_id n \<longrightarrow> leader_election_handle_announce E' msg n = None)"
proof -
  have "cur_view n = \<lparr>v_view_id = 0, v_leader_id = 9999, v_req_id = 0\<rparr>" "highest_seen_vs n = VS 1 0"
    using started_node [OF assms(1,2)] assms(3-5) by (auto simp: blank_node_def Let_def)
  then have e: "edge_range n = None" by (simp add: edge_range_def)
  have "leader_election_handle_announce E' msg n = None" if c: "lm_content msg = node_id n"
  proof (cases "election_mod n")
    case (Some md)
    let ?n = "set_mod (md\<lparr>new_leader := lm_content msg\<rparr>) (n\<lparr>node_state := NODE_POSTLELE\<rparr>)"
    have "edge_range ?n = None" using e by (simp add: edge_range_def set_mod_def split: if_splits)
    from empty_edge_never_returns [OF assms(6) this] Some c show ?thesis
      by (simp add: leader_election_handle_announce_def leader_election_enter_post_stage_def get_mod_def set_mod_def)
  qed (simp add: leader_election_handle_announce_def leader_election_enter_post_stage_def get_mod_def)
  with e empty_edge_never_returns [OF assms(6) e] show ?thesis by blast
qed

text \<open>Node 1 of the two joins, hears of nobody, and sets up an election.\<close>

definition joined :: "log_db node option option" where
  "joined = system_initialize log_env (consensus_read_config log_env (tree_config two_nodes) ''f'')
     1 ''j'' None 0 True (Some \<lparr>bdb_ptr = Some ''d''\<rparr>) []"

lemma joined_elects:
  "case joined of
     Some (Some n0) \<Rightarrow> consensus_comp n0 = Ptr () \<and>
       (case initialize_leader_election log_env n0 of
          Some n \<Rightarrow> cur_view n = cur_view n0 \<and> node_id n = 1 \<and> highest_seen_vs n = highest_seen_vs n0 \<and>
            election_mod n \<noteq> None
        | None \<Rightarrow> False)
   | _ \<Rightarrow> False"
  by code_simp

theorem joined_leader_never_returns_witness:
  "\<exists>n0 n. joined = Some (Some n0) \<and> initialize_leader_election log_env n0 = Some n \<and> election_mod n \<noteq> None \<and>
    leader_election_handle_announce log_env ((junk_lele log_env)\<lparr>lm_content := 1\<rparr>) n = None"
proof -
  from joined_elects obtain n0 n where s: "joined = Some (Some n0)" "consensus_comp n0 = Ptr ()"
    "initialize_leader_election log_env n0 = Some n" "cur_view n = cur_view n0" "node_id n = 1"
    "highest_seen_vs n = highest_seen_vs n0" "election_mod n \<noteq> None"
    by (auto split: option.splits)
  have "\<forall>k. malloc_usable log_env k \<noteq> None" by (simp add: log_env_def)
  from joined_leader_never_returns [OF s(1) [unfolded joined_def] s(2) _ s(4,6) this] s show ?thesis
    by (intro exI [of _ n0] exI [of _ n]) simp
qed

end
