(* ===== verification/Proxy.thy ===== *)
theory Proxy
  imports Config
begin

text \<open>
  \<open>src/src/proxy/proxy.c\<close> with \<open>proxy.h\<close>, \<open>rsm-interface.h\<close> and
  \<open>src/src/config-comp/config-proxy.c\<close>: the proxy in front of the replicated server. It turns
  what happens on client connections into requests to the consensus component, and executes the
  decided requests, which it finds in the database under their record numbers, on connections to
  the real server.

  The socket pairs are never freed; a pair is its position in the list of all pairs, newest last,
  and the hash table finds the pair that was added last under a key, as uthash does. The state of
  the database is an argument, as it is the consensus component that writes it. What the proxy
  writes to its request log is kept in \<open>req_out\<close>; the system log is left out.
\<close>

section \<open>Messages of the clients and to the consensus component\<close>

datatype client_msg_code = C_SEND_WR | C_SEND_RD

fun client_msg_code_val :: "client_msg_code \<Rightarrow> u32" where
  "client_msg_code_val C_SEND_WR = 0"
| "client_msg_code_val C_SEND_RD = 1"

record client_msg_header =
  ch_type :: u32
  ch_data_size :: u64

abbreviation CLIENT_MSG_HEADER_SIZE :: nat where "CLIENT_MSG_HEADER_SIZE \<equiv> 16"

definition enc_client_header :: "u32 \<Rightarrow> client_msg_header \<Rightarrow> bytes" where
  "enc_client_header pad h = le 4 (ch_type h) @ le 4 pad @ le 8 (ch_data_size h)"

definition dec_client_header :: "bytes \<Rightarrow> client_msg_header option" where
  "dec_client_header blk = do {
     t \<leftarrow> ld 4 0 blk;
     s \<leftarrow> ld 8 8 blk;
     Some \<lparr>ch_type = t, ch_data_size = s\<rparr>
   }"

datatype proxy_action = P_CONNECT | P_SEND | P_CLOSE

fun proxy_action_val :: "proxy_action \<Rightarrow> u32" where
  "proxy_action_val P_CONNECT = 0"
| "proxy_action_val P_SEND = 1"
| "proxy_action_val P_CLOSE = 2"

definition proxy_action_of :: "u32 \<Rightarrow> proxy_action option" where
  "proxy_action_of = code_find proxy_action_val [P_CONNECT, P_SEND, P_CLOSE]"

lemma proxy_action_roundtrip [simp]: "proxy_action_of (proxy_action_val a) = Some a"
  by (cases a) (simp_all add: proxy_action_of_def code_find_def)

type_synonym hk_t = u64

record proxy_msg_header =
  pa_action :: u32
  pa_received_time :: timeval
  pa_created_time :: timeval
  pa_connection_id :: hk_t
  pa_counter :: u64

abbreviation PROXY_MSG_HEADER_SIZE :: nat where "PROXY_MSG_HEADER_SIZE \<equiv> 56"
abbreviation PROXY_CONNECT_MSG_SIZE :: nat where "PROXY_CONNECT_MSG_SIZE \<equiv> 56"
abbreviation PROXY_SEND_LEN :: nat where "PROXY_SEND_LEN \<equiv> 64"

definition enc_proxy_header :: "u32 \<Rightarrow> proxy_msg_header \<Rightarrow> bytes" where
  "enc_proxy_header pad h = le 4 (pa_action h) @ le 4 pad @ enc_timeval (pa_received_time h) @
     enc_timeval (pa_created_time h) @ le 8 (pa_connection_id h) @ le 8 (pa_counter h)"

definition dec_proxy_header :: "bytes \<Rightarrow> proxy_msg_header option" where
  "dec_proxy_header blk = do {
     a \<leftarrow> ld 4 0 blk;
     r \<leftarrow> dec_timeval 8 blk;
     t \<leftarrow> dec_timeval 24 blk;
     k \<leftarrow> ld 8 40 blk;
     c \<leftarrow> ld 8 48 blk;
     Some \<lparr>pa_action = a, pa_received_time = r, pa_created_time = t, pa_connection_id = k,
       pa_counter = c\<rparr>
   }"

lemma length_enc_proxy [simp, layout]:
  "length (enc_client_header pad ch) = CLIENT_MSG_HEADER_SIZE"
  "length (enc_proxy_header pad h) = PROXY_MSG_HEADER_SIZE"
  by (simp_all add: enc_client_header_def enc_proxy_header_def)

interpretation client_header: codec "\<lambda>_. True" "enc_client_header pad" dec_client_header for pad
  by unfold_locales (simp add: enc_client_header_def dec_client_header_def layout)

interpretation proxy_header: codec "\<lambda>_. True" "enc_proxy_header pad" dec_proxy_header for pad
  by unfold_locales (simp add: enc_proxy_header_def dec_proxy_header_def layout)

section \<open>State\<close>

record socket_pair =
  sp_key :: hk_t
  sp_counter :: u64
  p_s :: "conn ptr"
  p_c :: "conn ptr"

record proxy_address =
  p_addr :: address
  c_addr :: address
  s_addr :: address

datatype log_line =
    Log_request u64
  | Log_times hk_t timeval timeval
  | Log_connects
  | Log_sends
  | Log_sends_text bytes
  | Log_closes
  | Log_newline

record 'd proxy_node =
  px_node_id :: u32
  pair_count :: u16
  pairs :: "socket_pair list"
  sys_addr :: proxy_address
  fake :: bool
  ts_log :: bool
  px_sys_log :: int
  px_stat_log :: int
  req_log :: bool
  px_listener :: "unit ptr"
  recon_period :: timeval
  do_action :: "timer ptr"
  action_period :: timeval
  cur_rec :: db_key_type
  highest_rec :: db_key_type
  con_node :: "'d node option"
  con_conn :: "conn ptr"
  re_con :: "timer ptr"
  req_log_file :: bool
  px_sys_log_file :: bool
  px_db_name :: string
  px_db_ptr :: "db option"
  req_out :: "log_line list"
  woken :: bool
  px_loop_exit :: bool

definition log_out :: "bool \<Rightarrow> log_line list \<Rightarrow> 'd proxy_node \<Rightarrow> 'd proxy_node" where
  "log_out to_file lines p = (if to_file then p\<lparr>req_out := req_out p @ lines\<rparr> else p)"

section \<open>Keys and the hash table\<close>

definition gen_key :: "u32 \<Rightarrow> u16 \<Rightarrow> u64 \<Rightarrow> hk_t" where
  "gen_key nid node_count time =
     (time OR push_bit 52 (ucast nid)) OR push_bit 36 (ucast node_count)"

definition proxy_cross_view :: "'d proxy_node \<Rightarrow> 'd proxy_node" where
  "proxy_cross_view p = p\<lparr>cur_rec := push_bit 32 (drop_bit 32 (cur_rec p) + 1) + 1\<rparr>"

text \<open>The last position in the list with the key.\<close>

definition hash_get :: "hk_t \<Rightarrow> socket_pair list \<Rightarrow> nat option" where
  "hash_get k ps = find (\<lambda>i. sp_key (ps ! i) = k) (rev [0..<length ps])"

definition set_pair :: "nat \<Rightarrow> socket_pair \<Rightarrow> 'd proxy_node \<Rightarrow> 'd proxy_node" where
  "set_pair i sp p = p\<lparr>pairs := (pairs p)[i := sp]\<rparr>"

definition get_pair :: "nat \<Rightarrow> 'd proxy_node \<Rightarrow> socket_pair option" where
  "get_pair i p = (if i < length (pairs p) then Some (pairs p ! i) else None)"

definition new_pair :: "'d env \<Rightarrow> hk_t \<Rightarrow> 'd proxy_node \<Rightarrow> (nat \<times> 'd proxy_node) option" where
  "new_pair E key p = do {
     _ \<leftarrow> malloc_usable E 96;
     Some (length (pairs p), p\<lparr>pairs := pairs p @
       [\<lparr>sp_key = key, sp_counter = 0, p_s = NULL, p_c = NULL\<rparr>]\<rparr>)
   }"

section \<open>Executing decided requests\<close>

definition do_action_connect :: "'d env \<Rightarrow> bytes \<Rightarrow> 'd proxy_node \<Rightarrow> 'd proxy_node option" where
  "do_action_connect E data p = do {
     header \<leftarrow> dec_proxy_header data;
     (i, p) \<leftarrow> (case hash_get (pa_connection_id header) (pairs p) of
         None \<Rightarrow> new_pair E (pa_connection_id header) p
       | Some i \<Rightarrow> Some (i, p));
     ret \<leftarrow> get_pair i p;
     if p_s ret = NULL then
       if bufferevent_new_ok E then Some (set_pair i (ret\<lparr>p_s := Ptr []\<rparr>) p) else None
     else Some p
   }"

definition do_action_send :: "bytes \<Rightarrow> 'd proxy_node \<Rightarrow> 'd proxy_node option" where
  "do_action_send data p = do {
     header \<leftarrow> dec_proxy_header data;
     (case hash_get (pa_connection_id header) (pairs p) of
        None \<Rightarrow> Some p
      | Some i \<Rightarrow> do {
          ret \<leftarrow> get_pair i p;
          if p_s ret = NULL then Some p
          else do {
            data_size \<leftarrow> ld 8 PROXY_MSG_HEADER_SIZE data;
            payload \<leftarrow> ld_bytes (unat (data_size :: u64)) PROXY_SEND_LEN data;
            s \<leftarrow> bufferevent_write (p_s ret) payload;
            Some (set_pair i (ret\<lparr>p_s := s\<rparr>) p)
          }
        })
   }"

text \<open>\<open>bufferevent_free\<close> and clearing of the pointer.\<close>

fun close_conn :: "conn ptr \<Rightarrow> conn ptr option" where
  "close_conn Dangling = None"
| "close_conn _ = Some NULL"

definition do_action_close :: "bytes \<Rightarrow> 'd proxy_node \<Rightarrow> 'd proxy_node option" where
  "do_action_close data p = do {
     header \<leftarrow> dec_proxy_header data;
     (case hash_get (pa_connection_id header) (pairs p) of
        None \<Rightarrow> Some p
      | Some i \<Rightarrow> do {
          ret \<leftarrow> get_pair i p;
          s \<leftarrow> close_conn (p_s ret);
          c \<leftarrow> close_conn (p_c ret);
          Some (set_pair i (ret\<lparr>p_s := s, p_c := c\<rparr>) p)
        })
   }"

definition do_action_to_server :: "'d env \<Rightarrow> bytes \<Rightarrow> 'd proxy_node \<Rightarrow> 'd proxy_node option" where
  "do_action_to_server E data p = do {
     header \<leftarrow> dec_proxy_header data;
     let output = (req_log p \<and> req_log_file p);
     let p = log_out (ts_log p \<and> output) [Log_times (pa_connection_id header)
       (pa_received_time header) (pa_created_time header)] p;
     p \<leftarrow> (case proxy_action_of (pa_action header) of
         Some P_CONNECT \<Rightarrow> do_action_connect E data (log_out output [Log_connects] p)
       | Some P_SEND \<Rightarrow> do_action_send data (log_out output [Log_sends] p)
       | Some P_CLOSE \<Rightarrow> do_action_close data (log_out output [Log_closes] p)
       | None \<Rightarrow> Some p);
     Some (log_out output [Log_newline] p)
   }"

text \<open>
  The loop of \<open>real_do_action\<close>: a record number without a record makes the proxy go on with the
  next view.
\<close>

partial_function (option) do_action_loop ::
  "'d env \<Rightarrow> 'd \<Rightarrow> db_key_type \<Rightarrow> 'd proxy_node \<Rightarrow> 'd proxy_node option" where
  "do_action_loop E d cur_highest p =
     (if cur_rec p \<le> cur_highest then
        (case snd (retrieve_record E (px_db_ptr p) (cur_rec p) d) of
           None \<Rightarrow> do_action_loop E d cur_highest (proxy_cross_view p)
         | Some data \<Rightarrow> do {
             r \<leftarrow> dec_request_record data;
             p \<leftarrow> do_action_to_server E (drop request_record_len data)
               (log_out (req_log p \<and> req_log_file p) [Log_request (cur_rec p)] p);
             do_action_loop E d cur_highest (p\<lparr>cur_rec := cur_rec p + 1\<rparr>)
           })
      else Some p)"

declare do_action_loop.simps [code]

definition real_do_action :: "'d env \<Rightarrow> 'd \<Rightarrow> 'd proxy_node \<Rightarrow> 'd proxy_node option" where
  "real_do_action E d p = do_action_loop E d (highest_rec p) p"

definition proxy_do_action :: "'d env \<Rightarrow> 'd \<Rightarrow> 'd proxy_node \<Rightarrow> 'd proxy_node option" where
  "proxy_do_action E d p = real_do_action E d p"

text \<open>The handler of \<open>SIGUSR2\<close>.\<close>

definition proxy_singnal_handler :: "'d env \<Rightarrow> 'd \<Rightarrow> 'd proxy_node \<Rightarrow> 'd proxy_node option" where
  "proxy_singnal_handler E d p = real_do_action E d (p\<lparr>woken := False\<rparr>)"

section \<open>Callbacks of the consensus component\<close>

definition wake_up :: "'d proxy_node \<Rightarrow> 'd proxy_node" where
  "wake_up p = p\<lparr>woken := True\<rparr>"

definition update_state :: "bytes \<Rightarrow> 'd proxy_node \<Rightarrow> 'd proxy_node option" where
  "update_state data p = do {
     rec_no \<leftarrow> ld 8 0 data;
     Some (wake_up (p\<lparr>highest_rec := (if highest_rec p < rec_no then rec_no else highest_rec p)\<rparr>))
   }"

text \<open>In fake mode the request is only logged; \<open>%s\<close> prints the data up to the first zero byte.\<close>

definition c_string :: "nat \<Rightarrow> bytes \<Rightarrow> bytes option" where
  "c_string off blk =
     (if 0 \<in> set (drop off blk) then Some (takeWhile (\<lambda>b. b \<noteq> 0) (drop off blk)) else None)"

definition fake_update_state :: "bytes \<Rightarrow> 'd proxy_node \<Rightarrow> 'd proxy_node option" where
  "fake_update_state data p = do {
     header \<leftarrow> dec_proxy_header data;
     let output = req_log_file p;
     let p = log_out (ts_log p \<and> output) [Log_newline, Log_times (pa_connection_id header)
       (pa_received_time header) (pa_created_time header)] p;
     (case proxy_action_of (pa_action header) of
        Some P_CONNECT \<Rightarrow> Some (log_out output [Log_connects] p)
      | Some P_SEND \<Rightarrow>
          if output then do {
            text \<leftarrow> c_string PROXY_SEND_LEN data;
            Some (log_out output [Log_sends_text text] p)
          }
          else Some p
      | Some P_CLOSE \<Rightarrow> Some (log_out output [Log_closes] p)
      | None \<Rightarrow> Some p)
   }"

section \<open>Requests to the consensus component\<close>

text \<open>
  \<open>build_req_sub_msg\<close> writes into the block before it could test for \<open>NULL\<close>; its callers fill in
  \<open>received_time\<close>. A message is its proxy header, its data (for \<open>P_SEND\<close>) and its bytes.
\<close>

definition build_req_sub_msg ::
  "'d env \<Rightarrow> hk_t \<Rightarrow> u64 \<Rightarrow> proxy_action \<Rightarrow> u64 \<Rightarrow> bytes \<Rightarrow> (proxy_msg_header \<times> bytes) option" where
  "build_req_sub_msg E s_key counter type data_size data =
     (let header = \<lparr>pa_action = proxy_action_val type,
            pa_received_time = \<lparr>tv_sec = junk64 E 24, tv_usec = junk64 E 32\<rparr>,
            pa_created_time = now E, pa_connection_id = s_key, pa_counter = counter\<rparr> in
      case type of
        P_SEND \<Rightarrow> do {
          k \<leftarrow> malloc_usable E (unat (80 + data_size));
          payload \<leftarrow> ld_bytes (unat data_size) 0 data;
          if 80 + unat data_size \<le> k then Some (header, le 8 data_size @ payload) else None
        }
      | _ \<Rightarrow> do {
          _ \<leftarrow> malloc_usable E (SYS_MSG_HEADER_SIZE + PROXY_CONNECT_MSG_SIZE);
          Some (header, [])
        })"

definition req_sub_bytes :: "'d env \<Rightarrow> proxy_msg_header \<times> bytes \<Rightarrow> bytes" where
  "req_sub_bytes E m =
     enc_header (junk32 E 4) \<lparr>sh_type = sys_msg_code_val REQUEST_SUBMIT,
       sh_data_size = of_nat (PROXY_MSG_HEADER_SIZE + length (snd m))\<rparr> @
     enc_proxy_header (junk32 E 20) (fst m) @ snd m"

text \<open>
  Building a request for a pair, with its counter counted up and the time of receipt, and writing
  it to the consensus connection if there is one.
\<close>

definition submit_for_pair ::
  "'d env \<Rightarrow> nat \<Rightarrow> proxy_action \<Rightarrow> u64 \<Rightarrow> bytes \<Rightarrow> 'd proxy_node \<Rightarrow> 'd proxy_node option" where
  "submit_for_pair E i type data_size data p = do {
     pair \<leftarrow> get_pair i p;
     m \<leftarrow> build_req_sub_msg E (sp_key pair) (sp_counter pair) type data_size data;
     let p = set_pair i (pair\<lparr>sp_counter := sp_counter pair + 1\<rparr>) p;
     let m = ((fst m)\<lparr>pa_received_time := now E\<rparr>, snd m);
     (case con_conn p of
        NULL \<Rightarrow> Some p
      | c \<Rightarrow> do {
          c \<leftarrow> bufferevent_write c (req_sub_bytes E m);
          Some (p\<lparr>con_conn := c\<rparr>)
        })
   }"

definition client_process_data ::
  "'d env \<Rightarrow> nat \<Rightarrow> u64 \<Rightarrow> bytes \<times> 'd proxy_node \<Rightarrow> (bytes \<times> 'd proxy_node) option" where
  "client_process_data E i data_size s =
     (let size = unat (16 + data_size); (input, p) = s in
      case malloc_usable E size of
        None \<Rightarrow> Some (input, p)
      | Some k \<Rightarrow> do {
          let removed = take size input;
          let blk = removed @ map (junk E) [length removed..<k];
          header \<leftarrow> dec_client_header blk;
          p \<leftarrow> (if ch_type header = client_msg_code_val C_SEND_WR then
              submit_for_pair E i P_SEND (ch_data_size header) (drop CLIENT_MSG_HEADER_SIZE blk) p
            else Some p);
          Some (drop size input, p)
        })"

partial_function (option) client_side_on_read ::
  "'d env \<Rightarrow> nat \<Rightarrow> bytes \<times> 'd proxy_node \<Rightarrow> (bytes \<times> 'd proxy_node) option" where
  "client_side_on_read E i s =
     (if CLIENT_MSG_HEADER_SIZE \<le> length (fst s) then
        if malloc_usable E CLIENT_MSG_HEADER_SIZE = None then Some s
        else do {
          header \<leftarrow> dec_client_header (fst s);
          if unat (16 + ch_data_size header) \<le> length (fst s) then do {
            s \<leftarrow> client_process_data E i (ch_data_size header) s;
            client_side_on_read E i s
          }
          else Some s
        }
      else Some s)"

declare client_side_on_read.simps [code]

definition client_side_on_err ::
  "'d env \<Rightarrow> nat \<Rightarrow> bev_event \<Rightarrow> 'd proxy_node \<Rightarrow> 'd proxy_node option" where
  "client_side_on_err E i what p =
     (case what of
        BEV_EOF \<Rightarrow> submit_for_pair E i P_CLOSE 0 [] p
      | BEV_ERROR \<Rightarrow> submit_for_pair E i P_CLOSE 0 [] p
      | _ \<Rightarrow> Some p)"

definition server_side_on_err ::
  "'d env \<Rightarrow> nat \<Rightarrow> bev_event \<Rightarrow> 'd proxy_node \<Rightarrow> 'd proxy_node option" where
  "server_side_on_err E i what p =
     (case what of
        BEV_EOF \<Rightarrow> submit_for_pair E i P_CLOSE 0 [] p
      | BEV_ERROR \<Rightarrow> submit_for_pair E i P_CLOSE 0 [] p
      | _ \<Rightarrow> Some p)"

text \<open>What the server sends goes to the client, or nowhere once the client's side is closed.\<close>

definition server_side_on_read ::
  "nat \<Rightarrow> bytes \<times> 'd proxy_node \<Rightarrow> (bytes \<times> 'd proxy_node) option" where
  "server_side_on_read i s =
     (let (input, p) = s in
      if 0 < length input then do {
        pair \<leftarrow> get_pair i p;
        (case p_c pair of
           NULL \<Rightarrow> Some ([], p)
         | c \<Rightarrow> do {
             c \<leftarrow> bufferevent_write c input;
             Some ([], set_pair i (pair\<lparr>p_c := c\<rparr>) p)
           })
      }
      else Some (input, p))"

definition proxy_on_accept :: "'d env \<Rightarrow> 'd proxy_node \<Rightarrow> 'd proxy_node option" where
  "proxy_on_accept E p =
     (if con_conn p = NULL then Some p
      else do {
        let key = gen_key (px_node_id p) (pair_count p) (tv_sec (now E));
        (i, p) \<leftarrow> new_pair E key (p\<lparr>pair_count := pair_count p + 1\<rparr>);
        pair \<leftarrow> get_pair i p;
        if bufferevent_new_ok E then
          submit_for_pair E i P_CONNECT 0 [] (set_pair i (pair\<lparr>p_c := Ptr []\<rparr>) p)
        else None
      })"

section \<open>The connection to the consensus component\<close>

definition connect_consensus :: "'d env \<Rightarrow> 'd proxy_node \<Rightarrow> 'd proxy_node option" where
  "connect_consensus E p =
     (if bufferevent_new_ok E then Some (p\<lparr>con_conn := Ptr []\<rparr>) else None)"

definition consensus_on_event :: "bev_event \<Rightarrow> 'd proxy_node \<Rightarrow> 'd proxy_node option" where
  "consensus_on_event ev p =
     (case ev of
        BEV_CONNECTED \<Rightarrow> Some p
      | BEV_OTHER \<Rightarrow> Some p
      | _ \<Rightarrow> do {
          e \<leftarrow> event_add (re_con p) (recon_period p);
          Some (p\<lparr>con_conn := NULL, re_con := e\<rparr>)
        })"

definition reconnect_on_timeout :: "'d env \<Rightarrow> 'd proxy_node \<Rightarrow> 'd proxy_node option" where
  "reconnect_on_timeout E p = connect_consensus E p"

definition proxy_signal_term :: "'d proxy_node \<Rightarrow> 'd proxy_node" where
  "proxy_signal_term p =
     p\<lparr>con_node := map_option node_sys_sig_handler (con_node p), px_loop_exit := True\<rparr>"

section \<open>Configuration and start\<close>

definition read_address :: "'c libconfig \<Rightarrow> 'c \<Rightarrow> address option" where
  "read_address L s =
     (case config_setting_lookup_string L s ''ip_address'' of
        None \<Rightarrow> None
      | Some ip \<Rightarrow> map_option (\<lambda>port. (ip, htons (ucast port)))
          (config_setting_lookup_int L s ''port''))"

definition lookup_flag :: "'c libconfig \<Rightarrow> 'c \<Rightarrow> string \<Rightarrow> bool \<Rightarrow> bool" where
  "lookup_flag L s k old = lookup_or (map_option (\<lambda>i. i \<noteq> 0) (config_setting_lookup_int L s k)) old"

definition lookup_log :: "'c libconfig \<Rightarrow> 'c \<Rightarrow> string \<Rightarrow> int \<Rightarrow> int" where
  "lookup_log L s k old = lookup_or (map_option sint (config_setting_lookup_int L s k)) old"

text \<open>\<open>goto goto_config_error\<close> when a setting is missing.\<close>

definition require :: "'x option \<Rightarrow> 'p \<Rightarrow> ('x \<Rightarrow> (int \<times> 'p) option) \<Rightarrow> (int \<times> 'p) option" where
  "require m p k = (case m of None \<Rightarrow> Some (- 1, p) | Some x \<Rightarrow> k x)"

definition read_proxy_global ::
  "'c libconfig \<Rightarrow> 'c option \<Rightarrow> 'd proxy_node \<Rightarrow> 'd proxy_node" where
  "read_proxy_global L global p =
     (case global of
        None \<Rightarrow> p
      | Some g \<Rightarrow> p\<lparr>
          recon_period := read_timeval L g ''reconnect_timeval_s'' ''reconnect_timeval_us''
            (recon_period p),
          action_period := read_timeval L g ''action_timeval_s'' ''action_timeval_us''
            (action_period p)\<rparr>)"

text \<open>After looking up the server's element the code tests the consensus element again, so a
  missing server element is used as \<open>NULL\<close>.\<close>

definition proxy_read_config ::
  "'d env \<Rightarrow> 'c libconfig \<Rightarrow> string \<Rightarrow> 'd proxy_node \<Rightarrow> (int \<times> 'd proxy_node) option" where
  "proxy_read_config E L config_path p =
     require (config_read_file L config_path) p (\<lambda>cfg.
     require (config_lookup_int L cfg ''group_size'') p (\<lambda>gs.
     if gs \<le> px_node_id p then Some (- 1, p)
     else let p = read_proxy_global L (config_lookup L cfg ''proxy_global_config'') p in
     require (config_lookup L cfg ''proxy_config'') p (\<lambda>pc.
     require (config_setting_get_elem L pc (px_node_id p)) p (\<lambda>el.
     let p = p\<lparr>ts_log := lookup_flag L el ''time_stamp_log'' (ts_log p),
               px_sys_log := lookup_log L el ''sys_log'' (px_sys_log p),
               px_stat_log := lookup_log L el ''stat_log'' (px_stat_log p),
               req_log := lookup_flag L el ''req_log'' (req_log p)\<rparr> in
     require (read_address L el) p (\<lambda>a.
     let p = p\<lparr>sys_addr := (sys_addr p)\<lparr>p_addr := a\<rparr>\<rparr> in
     require (config_setting_lookup_string L el ''db_name'') p (\<lambda>db_name.
     require (malloc_usable E (length db_name + 1)) p (\<lambda>_.
     let p = p\<lparr>px_db_name := db_name\<rparr> in
     require (config_lookup L cfg ''consensus_config'') p (\<lambda>cc.
     require (config_setting_get_elem L cc (px_node_id p)) p (\<lambda>con_ele.
     require (read_address L con_ele) p (\<lambda>a.
     let p = p\<lparr>sys_addr := (sys_addr p)\<lparr>c_addr := a\<rparr>\<rparr> in
     require (config_lookup L cfg ''server_config'') p (\<lambda>sc.
     case config_setting_get_elem L sc (px_node_id p) of
       None \<Rightarrow> None
     | Some serv_ele \<Rightarrow>
         require (read_address L serv_ele) p (\<lambda>a.
         Some (0, p\<lparr>sys_addr := (sys_addr p)\<lparr>s_addr := a\<rparr>\<rparr>)))))))))))))"

definition blank_proxy :: "node_id_t \<Rightarrow> bool \<Rightarrow> 'd proxy_node" where
  "blank_proxy nid fake_mode =
     \<lparr>px_node_id = ucast nid, pair_count = 0, pairs = [],
      sys_addr = \<lparr>p_addr = ([], 0), c_addr = ([], 0), s_addr = ([], 0)\<rparr>,
      fake = fake_mode, ts_log = False, px_sys_log = 0, px_stat_log = 0, req_log = False,
      px_listener = NULL, recon_period = \<lparr>tv_sec = 2, tv_usec = 0\<rparr>, do_action = NULL,
      action_period = \<lparr>tv_sec = 0, tv_usec = 1000000\<rparr>, cur_rec = 0, highest_rec = 0,
      con_node = None, con_conn = NULL, re_con = NULL, req_log_file = False,
      px_sys_log_file = False, px_db_name = [], px_db_ptr = None, req_out = [], woken = False,
      px_loop_exit = False\<rparr>"

text \<open>
  \<open>proxy_init\<close> returns the proxy with the consensus node it started, or \<open>NULL\<close> (\<open>Some None\<close>).
  In fake mode the records go to the user callback (delivery mode 1) and the database may be
  missing; otherwise the record numbers do (mode 0).
\<close>

definition proxy_init ::
  "'d env \<Rightarrow> 'c libconfig \<Rightarrow> node_id_t \<Rightarrow> string \<Rightarrow> string \<Rightarrow> string option \<Rightarrow> bool \<Rightarrow> 'd \<Rightarrow>
    'd proxy_node option option" where
  "proxy_init E L nid start_mode config_path log_path fake_mode d =
     (if malloc_usable E 304 = None then Some None
      else do {
        (ret, p) \<leftarrow> proxy_read_config E L config_path (blank_proxy nid fake_mode);
        if ret \<noteq> 0 then Some None
        else if \<not> event_base_new_ok E then Some None
        else do {
          let name = ''/node-'' @ nat_str (unat (px_node_id p));
          sys_file \<leftarrow> open_log E log_path (name @ ''-proxy-sys.log'');
          req_file \<leftarrow> open_log E log_path (name @ ''-proxy-req.log'');
          (h, d) \<leftarrow> initialize_db E (px_db_name p) 0 d;
          let p = p\<lparr>px_sys_log_file := sys_file, req_log_file := req_file, px_db_ptr := h\<rparr>;
          if h = None \<and> \<not> fake p then Some None
          else if \<not> listener_bind_ok E then Some None
          else do {
            n \<leftarrow> system_initialize E (consensus_read_config E L config_path) nid start_mode
              log_path (if fake p then 1 else 0) True h d;
            (case n of
               None \<Rightarrow> Some None
             | Some con \<Rightarrow> Some (Some (p\<lparr>px_listener := Ptr (), con_node := Some con\<rparr>)))
          }
        }
      })"

text \<open>\<open>proxy_run\<close> up to the event loop.\<close>

definition proxy_run :: "'d env \<Rightarrow> 'd proxy_node \<Rightarrow> 'd proxy_node option" where
  "proxy_run E p = do {
     p \<leftarrow> connect_consensus E (p\<lparr>re_con := evtimer_new E\<rparr>);
     if do_action p \<noteq> NULL then do {
       e \<leftarrow> event_add (do_action p) (action_period p);
       Some (p\<lparr>do_action := e\<rparr>)
     }
     else Some p
   }"

end
