(* ===== verification/Start.thy ===== *)
theory Start
  imports Proxy
begin

text \<open>
  \<open>src/src/main.c\<close>, the program's entry, and \<open>src/client-ld-preload\<close>, the library preloaded into a
  client, which wraps what the client sends into a message for the proxy. \<open>getopt\<close>, \<open>atoi\<close> and
  the real \<open>send\<close> and \<open>write\<close> are parameters.
\<close>

section \<open>Command line\<close>

text \<open>
  What \<open>getopt\<close> returns: an option with its argument, or \<open>'?'\<close> with \<open>optopt\<close> set to the
  offending character. The case of \<open>'r'\<close> goes on into the one of \<open>'?'\<close>.
\<close>

datatype opt = Opt char string | Bad_opt char

record options =
  o_start_mode :: "string option"
  o_config_path :: "string option"
  o_log_dir :: "string option"
  o_node_id :: node_id_t
  o_fake_mode :: bool
  optopt :: char

definition default_options :: options where
  "default_options = \<lparr>o_start_mode = None, o_config_path = None, o_log_dir = None,
     o_node_id = - 1, o_fake_mode = True, optopt = CHR ''?''\<rparr>"

definition missing_argument :: "options \<Rightarrow> int + options" where
  "missing_argument o' =
     (if optopt o' = CHR ''n'' \<or> optopt o' = CHR ''m'' \<or> optopt o' = CHR ''c'' then Inl 1
      else Inr o')"

text \<open>One turn of the \<open>switch\<close>: \<open>Inl\<close> is the argument of \<open>exit\<close>.\<close>

definition take_option :: "(string \<Rightarrow> i32) \<Rightarrow> opt \<Rightarrow> options \<Rightarrow> int + options" where
  "take_option atoi item o' =
     (case item of
        Bad_opt c \<Rightarrow> missing_argument (o'\<lparr>optopt := c\<rparr>)
      | Opt c optarg \<Rightarrow>
          if c = CHR ''n'' then Inr (o'\<lparr>o_node_id := scast (atoi optarg)\<rparr>)
          else if c = CHR ''c'' then Inr (o'\<lparr>o_config_path := Some optarg\<rparr>)
          else if c = CHR ''l'' then Inr (o'\<lparr>o_log_dir := Some optarg\<rparr>)
          else if c = CHR ''m'' then
            if optarg \<noteq> [] \<and> (hd optarg = CHR ''s'' \<or> hd optarg = CHR ''r'')
            then Inr (o'\<lparr>o_start_mode := Some optarg\<rparr>) else Inl 1
          else if c = CHR ''r'' then missing_argument (o'\<lparr>o_fake_mode := False\<rparr>)
          else Inl 1)"

fun take_options :: "(string \<Rightarrow> i32) \<Rightarrow> opt list \<Rightarrow> options \<Rightarrow> int + options" where
  "take_options atoi [] o' = Inr o'"
| "take_options atoi (item # items) o' =
     (case take_option atoi item o' of Inl e \<Rightarrow> Inl e | Inr o'' \<Rightarrow> take_options atoi items o'')"

text \<open>\<open>main\<close> up to the event loop: \<open>Inl\<close> is the exit status.\<close>

definition main ::
  "'d env \<Rightarrow> 'c libconfig \<Rightarrow> (string \<Rightarrow> i32) \<Rightarrow> opt list \<Rightarrow> 'd \<Rightarrow> (int + 'd proxy_node) option" where
  "main E L atoi argv d =
     (case take_options atoi argv default_options of
        Inl e \<Rightarrow> Some (Inl e)
      | Inr o' \<Rightarrow>
          (case (o_config_path o', o_start_mode o') of
             (Some path, Some mode) \<Rightarrow>
               if o_node_id o' = - 1 then Some (Inl 1)
               else do {
                 p \<leftarrow> proxy_init E L (o_node_id o') mode path (o_log_dir o') (o_fake_mode o') d;
                 (case p of
                    None \<Rightarrow> Some (Inl 1)
                  | Some proxy \<Rightarrow> map_option Inr (proxy_run E proxy))
               }
           | _ \<Rightarrow> Some (Inl 1)))"

section \<open>The preloaded client library\<close>

text \<open>The thread-local flag that keeps the library's own calls from being wrapped again.\<close>

definition check_sys :: "int \<Rightarrow> bool" where
  "check_sys v = (v \<noteq> 0)"

definition enter_sys :: "int \<Rightarrow> int option" where
  "enter_sys v = (if v = 0 then Some 1 else None)"

definition leave_sys :: "int \<Rightarrow> int option" where
  "leave_sys v = (if v = 1 then Some 0 else None)"

definition client_request :: "'d env \<Rightarrow> bytes \<Rightarrow> bytes" where
  "client_request E data =
     enc_client_header (junk32 E 4) \<lparr>ch_type = client_msg_code_val C_SEND_WR,
       ch_data_size = of_nat (length data)\<rparr> @ data"

text \<open>
  The result: what is returned, the flag, and what was passed to the real function \<open>fp\<close>, which
  gives the number of bytes it took or a negative number. \<open>buffer\<close> has the given length.
\<close>

definition wrapped_call ::
  "'d env \<Rightarrow> (bytes \<Rightarrow> i64) \<Rightarrow> bytes \<Rightarrow> int \<Rightarrow> (i64 \<times> int \<times> bytes option) option" where
  "wrapped_call E fp buffer v = do {
     v \<leftarrow> enter_sys v;
     (case malloc_usable E (CLIENT_MSG_HEADER_SIZE + length buffer) of
        None \<Rightarrow> do { v \<leftarrow> leave_sys v; Some (- 1, v, None) }
      | Some k \<Rightarrow>
          if k < CLIENT_MSG_HEADER_SIZE + length buffer then None
          else do {
            let ret = fp (client_request E buffer);
            let ret = (if 0 <s ret then ret - 16 else ret);
            v \<leftarrow> leave_sys v;
            Some (ret, v, Some (client_request E buffer))
          })
   }"

definition ld_send ::
  "'d env \<Rightarrow> (bytes \<Rightarrow> i64) \<Rightarrow> bytes \<Rightarrow> int \<Rightarrow> (i64 \<times> int \<times> bytes option) option" where
  "ld_send E fp_send buffer v =
     (if \<not> check_sys v then wrapped_call E fp_send buffer v
      else Some (fp_send buffer, v, Some buffer))"

definition ld_write ::
  "'d env \<Rightarrow> (bytes \<Rightarrow> i64) \<Rightarrow> bool \<Rightarrow> bytes \<Rightarrow> int \<Rightarrow> (i64 \<times> int \<times> bytes option) option" where
  "ld_write E fp_write is_socket buf v =
     (if \<not> check_sys v \<and> is_socket then wrapped_call E fp_write buf v
      else Some (fp_write buf, v, Some buf))"

end
