(* ===== verification/ClientStream.thy ===== *)
theory ClientStream
  imports Start Streams
begin

text \<open>
  The stream from a client to its proxy: what the preloaded library sends is cut by the proxy into one
  request per call, and the size that the proxy's reading loop never gets past.
\<close>

section \<open>The stream of a client\<close>

definition client_frame :: "bytes \<Rightarrow> bool" where
  "client_frame f \<longleftrightarrow> (\<exists>p t data. f = enc_client_header p \<lparr>ch_type = t, ch_data_size = of_nat (length data)\<rparr> @
     data \<and> length data < 18446744073709551600)"

definition client_partial :: "bytes \<Rightarrow> bool" where
  "client_partial tail \<longleftrightarrow> length tail < 16 \<or> (\<exists>h. dec_client_header tail = Some h \<and>
     ch_data_size h < 18446744073709551600 \<and> length tail < 16 + unat (ch_data_size h))"

text \<open>What a message of the client amounts to: a request for writes, nothing otherwise.\<close>

definition client_request_of ::
  "'d env \<Rightarrow> nat \<Rightarrow> bytes \<Rightarrow> 'd proxy_node \<Rightarrow> 'd proxy_node option" where
  "client_request_of E i f p =
     (if ld 4 0 f = Some (client_msg_code_val C_SEND_WR)
      then submit_for_pair E i P_SEND (of_nat (length f - 16)) (drop 16 f) p else Some p)"

lemma submit_for_pair_rest:
  assumes "length data < 18446744073709551616"
  shows "submit_for_pair E i P_SEND (of_nat (length data)) (data @ rest) p =
    submit_for_pair E i P_SEND (of_nat (length data)) data p"
proof -
  have "unat (of_nat (length data) :: u64) = length data" using assms by (simp add: unat_of_nat_small)
  then have "build_req_sub_msg E k c P_SEND (of_nat (length data)) (data @ rest) =
      build_req_sub_msg E k c P_SEND (of_nat (length data)) data" for k c
    by (simp add: build_req_sub_msg_def layout)
  then show ?thesis by (simp add: submit_for_pair_def)
qed

lemma client_read_stops:
  assumes "client_partial tail" "malloc_usable E 16 \<noteq> None"
  shows "client_side_on_read E i (tail, p) = Some (tail, p)"
proof (cases "length tail < 16")
  case True
  then show ?thesis by (subst client_side_on_read.simps) simp
next
  case False
  with assms(1) obtain h where h: "dec_client_header tail = Some h"
    "ch_data_size h < 18446744073709551600" "length tail < 16 + unat (ch_data_size h)"
    by (auto simp: client_partial_def)
  then have "unat (ch_data_size h) < 18446744073709551600" by (simp add: word_less_nat_alt)
  then have "unat (16 + ch_data_size h) = 16 + unat (ch_data_size h)"
    by (simp add: unat_word_ariths)
  then show ?thesis
    using h assms(2) False by (subst client_side_on_read.simps) auto
qed

lemma client_read_frame:
  assumes "client_frame f" "\<forall>k. malloc_usable E k \<noteq> None"
  shows "client_side_on_read E i (f @ rest, p) =
    Option.bind (client_request_of E i f p) (\<lambda>p. client_side_on_read E i (rest, p))"
proof -
  obtain pad t data where f: "f = enc_client_header pad \<lparr>ch_type = t, ch_data_size = of_nat (length data)\<rparr> @ data"
    "length data < 18446744073709551600"
    using assms(1) by (auto simp: client_frame_def)
  let ?s = "of_nat (length data) :: u64"
  let ?h = "\<lparr>ch_type = t, ch_data_size = ?s\<rparr>"
  have s: "unat ?s = length data" using f(2) by (simp add: unat_of_nat_small)
  then have s16: "unat (16 + ?s) = 16 + length data" using f(2) by (simp add: unat_word_ariths)
  have dec: "dec_client_header (f @ xs) = Some ?h" for xs
    by (simp add: f(1) client_header.dec_enc_append)
  obtain k k' where k: "malloc_usable E (16 + length data) = Some k" "malloc_usable E 16 = Some k'"
    using assms(2) by blast
  have len: "length f = 16 + length data" by (simp add: f(1))
  have ld: "ld 4 0 f = Some t" by (simp add: f(1) enc_client_header_def layout)
  have d16: "drop 16 (f @ xs) = data @ xs" for xs by (simp add: f(1))
  have "client_process_data E i ?s (f @ rest, p) =
      map_option (Pair rest) (client_request_of E i f p)"
  proof -
    let ?j = "map (junk E) [length f..<k]"
    have sz: "unat (16 + ?s) = length f" and mu: "malloc_usable E (length f) = Some k"
      using s16 len k(1) by simp_all
    have "length data < 18446744073709551616" using f(2) by simp
    then have req: "submit_for_pair E i P_SEND ?s (drop 16 (f @ ?j)) p = submit_for_pair E i P_SEND ?s data p"
      unfolding d16 by (rule submit_for_pair_rest)
    have "client_process_data E i ?s (f @ rest, p) =
        Option.bind (if t = client_msg_code_val C_SEND_WR
          then submit_for_pair E i P_SEND ?s (drop 16 (f @ ?j)) p else Some p) (\<lambda>p. Some (rest, p))"
      using dec [of ?j] by (simp add: client_process_data_def sz mu)
    also have "\<dots> = map_option (Pair rest) (client_request_of E i f p)"
      unfolding req client_request_of_def ld using len d16 [of "[]"]
      by (cases "submit_for_pair E i P_SEND ?s data p") auto
    finally show ?thesis .
  qed
  with dec k(2) s16 len show ?thesis
    by (subst client_side_on_read.simps) (cases "client_request_of E i f p"; simp)
qed

interpretation client_stream: frame_reader "client_side_on_read E i"
    "\<lambda>f. client_frame f \<and> (\<forall>k. malloc_usable E k \<noteq> None)" "client_request_of E i"
    "\<lambda>tail. client_partial tail \<and> malloc_usable E 16 \<noteq> None" for E :: "'d env" and i
  by unfold_locales (simp_all add: client_read_stops client_read_frame)

lemma client_request_frame:
  assumes "length data < 18446744073709551600"
  shows "client_frame (client_request E data)"
    "client_request_of E' i (client_request E data) = submit_for_pair E' i P_SEND (of_nat (length data)) data"
  using assms
  by (auto simp: client_frame_def client_request_def client_request_of_def enc_client_header_def layout fun_eq_iff)

text \<open>C23 what a client sends through the preloaded library reaches the proxy unchanged: the proxy submits
  one request for every call, in the order of the calls and with the data of the call, however the
  stream was cut, and leaves an incomplete message for the next read.\<close>

theorem client_stream_roundtrip:
  assumes "list_all2 (\<lambda>data f. \<exists>ret. ld_send E' fp data 0 = Some (ret, 0, Some f) \<and>
      length data < 18446744073709551600) calls fs"
    and "client_partial tail" "\<forall>k. malloc_usable E k \<noteq> None"
  shows "client_side_on_read E i (concat fs @ tail, p) =
    map_option (Pair tail) (feed (\<lambda>data. submit_for_pair E i P_SEND (of_nat (length data)) data) calls p)"
proof -
  have "fs = map (client_request E') calls" "\<forall>data \<in> set calls. length data < 18446744073709551600"
    using assms(1)
    by (induction rule: list_all2_induct)
      (auto simp: ld_send_def check_sys_def wrapped_call_def enter_sys_def leave_sys_def Let_def
        split: option.splits if_splits)
  then have fs: "fs = map (client_request E') calls" "\<forall>f \<in> set fs. client_frame f"
    and calls: "\<forall>data \<in> set calls. length data < 18446744073709551600"
    using client_request_frame(1) by auto
  have "feed (client_request_of E i) fs p =
      feed (\<lambda>data. submit_for_pair E i P_SEND (of_nat (length data)) data) calls p"
    unfolding fs(1) feed_map
    by (rule feed_cong) (use calls in \<open>simp add: client_request_frame(2)\<close>)
  then show ?thesis
    using client_stream.reads [of fs E tail i p] assms(2,3) fs(2) by simp
qed


definition demo_proxy :: "mem_db proxy_node" where
  "demo_proxy = (blank_proxy 1 False)\<lparr>con_conn := Ptr [],
     pairs := [\<lparr>sp_key = 7, sp_counter = 0, p_s = NULL, p_c = Ptr []\<rparr>],
     px_db_ptr := Some \<lparr>bdb_ptr = Some ''d''\<rparr>\<rparr>"

theorem client_stream_roundtrip_witness:
  "client_side_on_read mem_env 0 (client_request mem_env [1, 2] @ client_request mem_env [3] @ [9, 9], demo_proxy) =
     map_option (Pair [9, 9]) (feed (\<lambda>data. submit_for_pair mem_env 0 P_SEND (of_nat (length data)) data)
       [[1, 2], [3]] demo_proxy)"
proof -
  have "ld_send mem_env (\<lambda>_. 20) data 0 = Some (4, 0, Some (client_request mem_env data))"
    if "data = [1, 2] \<or> data = [3]" for data :: bytes
    using that by (auto simp: ld_send_def check_sys_def wrapped_call_def enter_sys_def leave_sys_def
        mem_env_def glibc_usable_def word_sless_alt)
  then have "list_all2 (\<lambda>data f. \<exists>ret. ld_send mem_env (\<lambda>_. 20) data 0 = Some (ret, 0, Some f) \<and>
      length data < 18446744073709551600) [[1, 2], [3]] [client_request mem_env [1, 2], client_request mem_env [3]]"
    by auto
  from client_stream_roundtrip [OF this, of "[9, 9]" mem_env 0 demo_proxy]
  show ?thesis by (simp add: client_partial_def mem_env_def)
qed

text \<open>C37 a client message that announces \<open>2 ^ 64 - 16\<close> bytes keeps the proxy busy for ever: the size of
  the message wraps around to zero, no byte is taken off the input, and the header is found again.\<close>

theorem client_size_never_returns:
  assumes "dec_client_header input = Some h" "ch_data_size h = 0xFFFFFFFFFFFFFFF0"
    and "malloc_usable E 16 \<noteq> None"
  shows "client_side_on_read E i (input, p) = None"
proof -
  have sz: "unat (16 + ch_data_size h) = 0" unfolding assms(2) by simp
  have len: "16 \<le> length input"
    using assms(1) by (auto simp: dec_client_header_def ld_def split: if_splits)
  have "fst s \<noteq> input" if "client_side_on_read E i s = Some r" for s :: "bytes \<times> 'a proxy_node" and r
  proof -
    have "E = E \<longrightarrow> fst s \<noteq> input"
      using that
    proof (rule client_side_on_read.raw_induct [where P = "\<lambda>E1 i s r. E1 = E \<longrightarrow> fst s \<noteq> input", rotated])
      fix loop E1 i and s r :: "bytes \<times> 'a proxy_node"
      assume IH: "\<And>E1 i s r. loop E1 i s = Some (r :: bytes \<times> 'a proxy_node) \<Longrightarrow> E1 = E \<longrightarrow> fst s \<noteq> input"
        and eq: "(if CLIENT_MSG_HEADER_SIZE \<le> length (fst s) then
            if malloc_usable E1 CLIENT_MSG_HEADER_SIZE = None then Some s
            else do {
              header \<leftarrow> dec_client_header (fst s);
              if unat (16 + ch_data_size header) \<le> length (fst s) then do {
                s \<leftarrow> client_process_data E1 i (ch_data_size header) s;
                loop E1 i s
              }
              else Some s
            }
          else Some s) = Some r"
      show "E1 = E \<longrightarrow> fst s \<noteq> input"
      proof (intro impI notI)
        assume "E1 = E" "fst s = input"
        with eq assms(1,3) sz len obtain s' where s': "client_process_data E i (ch_data_size h) s = Some s'"
          "loop E i s' = Some r"
          by auto
        have "fst s' = input"
          using s'(1) sz \<open>fst s = input\<close>
          by (auto simp: client_process_data_def bind_eq_Some_conv Let_def split: prod.splits option.splits)
        with IH [OF s'(2)] show False by simp
      qed
    qed
    then show ?thesis by simp
  qed
  then show ?thesis by (cases "client_side_on_read E i (input, p)") force+
qed

theorem client_size_never_returns_witness:
  "client_side_on_read mem_env 0 (enc_client_header 0 \<lparr>ch_type = 0, ch_data_size = 0xFFFFFFFFFFFFFFF0\<rparr>,
     demo_proxy) = None"
  by (rule client_size_never_returns [OF client_header.dec_enc]) (simp_all add: mem_env_def)

end
