(* ===== verification/Replication.thy ===== *)
theory Replication
  imports Group
begin

text \<open>
  The abstract specification of a group in one view, a replicated log, and the refinement: every
  state of the group stands for one state of the log (\<open>log_of\<close>), and every step of the group's
  nodes is a sequence of steps of the log between these.
\<close>

section \<open>The replicated log\<close>

text \<open>What the group promises: a log that only grows, nodes that store its requests one by one, and users
  who are given the numbers of its requests in order, each only once a majority has stored the request.
  A request is its position in the log; \<open>stored\<close> has the positions whose request a node has stored
  as it is in the log, and \<open>given\<close> what a node has called its user with.\<close>

record log_spec =
  entries :: "bytes list"
  stored :: "nat \<Rightarrow> nat set"
  given :: "nat \<Rightarrow> (u64 \<times> bytes) list"

definition number :: "view_id_t \<Rightarrow> nat \<Rightarrow> u64" where
  "number v n = vstol (VS v 0) + 1 + of_nat n"

definition replicated :: "nat \<Rightarrow> log_spec \<Rightarrow> nat \<Rightarrow> bool" where
  "replicated N a n \<longleftrightarrow> N < 2 * card {j. j < N \<and> n \<in> stored a j}"

inductive log_step :: "nat \<Rightarrow> view_id_t \<Rightarrow> log_spec \<Rightarrow> log_spec \<Rightarrow> bool" for N v where
  append: "log_step N v a (a\<lparr>entries := entries a @ [data]\<rparr>)"
| store: "\<lbrakk>i < N; n < length (entries a)\<rbrakk> \<Longrightarrow>
    log_step N v a (a\<lparr>stored := (stored a)(i := insert n (stored a i))\<rparr>)"
| give: "\<lbrakk>i < N; n = length (given a i); n < length (entries a); replicated N a n\<rbrakk> \<Longrightarrow>
    log_step N v a (a\<lparr>given := (given a)(i := given a i @ [announce (number v n)])\<rparr>)"

definition log_start :: log_spec where
  "log_start = \<lparr>entries = [], stored = (\<lambda>_. {}), given = (\<lambda>_. [])\<rparr>"

text \<open>The log that a state of the group stands for: what the leader has numbered, with the leader's data,
  which of it each node holds with the same data, and the calls of each node's user.\<close>

definition record_data :: "'d env \<Rightarrow> ('d, 'z) comp \<Rightarrow> u64 \<Rightarrow> bytes" where
  "record_data E c k = (case snd (retrieve E c k) of None \<Rightarrow> [] | Some b \<Rightarrow> drop request_record_len b)"

definition log_entries :: "'d env \<Rightarrow> nat \<Rightarrow> view_id_t \<Rightarrow> 'd group \<Rightarrow> bytes list" where
  "log_entries E l v s = map (record_data E (nodes s l)) (keys_after (VS v 0) (highest_seen_vs (nodes s l)))"

definition log_of :: "'d env \<Rightarrow> nat \<Rightarrow> nat \<Rightarrow> view_id_t \<Rightarrow> 'd group \<Rightarrow> log_spec" where
  "log_of E N l v s = \<lparr>entries = log_entries E l v s,
     stored = (\<lambda>i. if i < N then {n. n < length (log_entries E l v s) \<and>
       holds E (nodes s i) (number v n) (log_entries E l v s ! n)} else {}),
     given = (\<lambda>i. if i < N then user_cbs (effects (nodes s i)) else [])\<rparr>"

section \<open>Runs of the log\<close>

lemma log_append_all: "(log_step N v)\<^sup>*\<^sup>* a (a\<lparr>entries := entries a @ ds\<rparr>)"
proof (induction ds rule: rev_induct)
  case (snoc d ds)
  let ?b = "a\<lparr>entries := entries a @ ds\<rparr>"
  have "log_step N v ?b (?b\<lparr>entries := entries ?b @ [d]\<rparr>)" by (rule log_step.append)
  with snoc show ?case by (auto intro: rtranclp.rtrancl_into_rtrancl)
qed simp

lemma log_store_set:
  assumes "i < N" "finite S" "S \<subseteq> {..<length (entries a)}"
  shows "(log_step N v)\<^sup>*\<^sup>* a (a\<lparr>stored := (stored a)(i := S \<union> stored a i)\<rparr>)"
  using assms(2,3)
proof (induction S rule: finite_induct)
  case (insert n S)
  let ?b = "a\<lparr>stored := (stored a)(i := S \<union> stored a i)\<rparr>"
  have "log_step N v ?b (?b\<lparr>stored := (stored ?b)(i := insert n (stored ?b i))\<rparr>)"
    using insert.prems by (intro log_step.store [OF assms(1)]) simp
  moreover have "?b\<lparr>stored := (stored ?b)(i := insert n (stored ?b i))\<rparr> =
      a\<lparr>stored := (stored a)(i := insert n S \<union> stored a i)\<rparr>" by simp
  ultimately have "log_step N v ?b (a\<lparr>stored := (stored a)(i := insert n S \<union> stored a i)\<rparr>)" by (simp only:)
  with insert.IH insert.prems show ?case by (metis insert_subset rtranclp.rtrancl_into_rtrancl)
qed simp

lemma log_store_all:
  assumes "\<forall>i < N. stored a i \<subseteq> S i \<and> S i \<subseteq> {..<length (entries a)}" "j \<le> N"
  shows "(log_step N v)\<^sup>*\<^sup>* a (a\<lparr>stored := (\<lambda>i. if i < j then S i else stored a i)\<rparr>)"
  using assms(2)
proof (induction j)
  case (Suc j)
  let ?b = "a\<lparr>stored := (\<lambda>i. if i < j then S i else stored a i)\<rparr>"
  have s: "stored a j \<subseteq> S j" "S j \<subseteq> {..<length (entries ?b)}" using assms(1) Suc.prems by simp_all
  then have "(log_step N v)\<^sup>*\<^sup>* ?b (?b\<lparr>stored := (stored ?b)(j := S j \<union> stored ?b j)\<rparr>)"
    using Suc.prems finite_subset [OF s(2)] by (intro log_store_set) simp_all
  moreover have "(stored ?b)(j := S j \<union> stored ?b j) = (\<lambda>i. if i < Suc j then S i else stored a i)"
    using s(1) by (auto simp: fun_eq_iff less_Suc_eq)
  ultimately have "(log_step N v)\<^sup>*\<^sup>* ?b (a\<lparr>stored := (\<lambda>i. if i < Suc j then S i else stored a i)\<rparr>)" by simp
  with Suc show ?case by (auto intro: rtranclp_trans)
qed simp

abbreviation calls_to :: "view_id_t \<Rightarrow> nat \<Rightarrow> (u64 \<times> bytes) list" where
  "calls_to v m \<equiv> map (\<lambda>n. announce (number v n)) [0..<m]"

lemma log_give_one:
  assumes "i < N" "given a i = calls_to v m" "m \<le> m'" "m' \<le> length (entries a)" "\<forall>n < m'. replicated N a n"
  shows "(log_step N v)\<^sup>*\<^sup>* a (a\<lparr>given := (given a)(i := calls_to v m')\<rparr>)"
  using assms(3,4,5)
proof (induction m' rule: dec_induct)
  case base
  have "a\<lparr>given := (given a)(i := calls_to v m)\<rparr> = a" using assms(2) by (cases a) auto
  then show ?case by (simp only: rtranclp.rtrancl_refl)
next
  case (step n)
  let ?b = "a\<lparr>given := (given a)(i := calls_to v n)\<rparr>"
  have "log_step N v ?b (?b\<lparr>given := (given ?b)(i := given ?b i @ [announce (number v n)])\<rparr>)"
    using step.prems step.hyps by (intro log_step.give [OF assms(1)]) (simp_all add: replicated_def)
  moreover have "?b\<lparr>given := (given ?b)(i := given ?b i @ [announce (number v n)])\<rparr> =
      a\<lparr>given := (given a)(i := calls_to v (Suc n))\<rparr>" by simp
  ultimately have "log_step N v ?b (a\<lparr>given := (given a)(i := calls_to v (Suc n))\<rparr>)" by (simp only:)
  with step.IH step.prems show ?case by (meson Suc_leD less_SucI rtranclp.rtrancl_into_rtrancl)
qed

lemma log_give_all:
  assumes "\<forall>i < N. given a i = calls_to v (m i) \<and> m i \<le> m' i \<and> m' i \<le> length (entries a) \<and>
      (\<forall>n < m' i. replicated N a n)" "j \<le> N"
  shows "(log_step N v)\<^sup>*\<^sup>* a (a\<lparr>given := (\<lambda>i. if i < j then calls_to v (m' i) else given a i)\<rparr>)"
  using assms(2)
proof (induction j)
  case (Suc j)
  let ?b = "a\<lparr>given := (\<lambda>i. if i < j then calls_to v (m' i) else given a i)\<rparr>"
  have "(log_step N v)\<^sup>*\<^sup>* ?b (?b\<lparr>given := (given ?b)(j := calls_to v (m' j))\<rparr>)"
  proof (rule log_give_one [where m = "m j"])
    show "\<forall>n < m' j. replicated N ?b n" using assms(1) Suc.prems by (simp add: replicated_def Suc_le_eq)
  qed (use assms(1) Suc.prems in simp_all)
  moreover have "(given ?b)(j := calls_to v (m' j)) = (\<lambda>i. if i < Suc j then calls_to v (m' i) else given a i)"
    by (auto simp: fun_eq_iff less_Suc_eq)
  ultimately have "(log_step N v)\<^sup>*\<^sup>* ?b (a\<lparr>given := (\<lambda>i. if i < Suc j then calls_to v (m' i) else given a i)\<rparr>)" by simp
  with Suc show ?case by (auto intro: rtranclp_trans)
qed simp

section \<open>Functional simulations\<close>

text \<open>A simulation of a system by another one, given by a function of its states.\<close>

locale simulation =
  fixes start :: "'c \<Rightarrow> bool" and step :: "'c \<Rightarrow> 'c \<Rightarrow> bool"
    and spec_start :: 'a and spec_step :: "'a \<Rightarrow> 'a \<Rightarrow> bool"
    and inv :: "'c \<Rightarrow> bool" and abs :: "'c \<Rightarrow> 'a"
  assumes start_inv: "start s \<Longrightarrow> inv s"
    and start_abs: "start s \<Longrightarrow> abs s = spec_start"
    and step_inv: "step s s' \<Longrightarrow> inv s \<Longrightarrow> inv s'"
    and step_abs: "step s s' \<Longrightarrow> inv s \<Longrightarrow> spec_step\<^sup>*\<^sup>* (abs s) (abs s')"
begin

lemma run_refines:
  assumes "start s0" "step\<^sup>*\<^sup>* s0 s"
  shows "inv s \<and> spec_step\<^sup>*\<^sup>* spec_start (abs s)"
  using assms(2)
proof (induction rule: rtranclp_induct)
  case base
  show ?case using start_inv [OF assms(1)] start_abs [OF assms(1)] by simp
next
  case (step s s')
  then show ?case using step_inv step_abs by (blast intro: rtranclp_trans)
qed

lemma next_step_refines:
  assumes "start s0" "step\<^sup>*\<^sup>* s0 s" "step s s'"
  shows "spec_step\<^sup>*\<^sup>* (abs s) (abs s')"
  using run_refines [OF assms(1,2)] step_abs [OF assms(3)] by blast

end

section \<open>The group refines the log\<close>

lemma key_range_nth: "n < length (key_range i e) \<Longrightarrow> key_range i e ! n = i + of_nat n"
  by (simp add: key_range_def del: upt_Suc)

lemma keys_after_number: "keys_after (VS v 0) ws = map (number v) [0..<length (keys_after (VS v 0) ws)]"
  by (rule nth_equalityI) (simp_all add: key_range_nth number_def)

lemma holds_data: "holds E c k d \<Longrightarrow> record_data E c k = d"
  by (auto simp: holds_def record_data_def length_enc)

lemma leader_keys:
  assumes "group_inv E N l v s"
  shows "set (keys_after (VS v 0) (highest_seen_vs (nodes s l))) = keys_to v (highest_seen_vs (nodes s l))"
    and "within v (nodes s l)" "VS v 0 \<le> highest_seen_vs (nodes s l)"
    and "vstol (highest_seen_vs (nodes s l)) \<noteq> - 1"
proof -
  have L: "within v (nodes s l)" "highest_to_commit_vs (nodes s l) \<le> highest_seen_vs (nodes s l)"
    using assms by (simp_all add: group_inv_def lead_inv_def)
  then show "within v (nodes s l)" by simp
  show "vstol (highest_seen_vs (nodes s l)) \<noteq> - 1" using L(1) by (intro key_bound) (auto simp: within_def)
  show "VS v 0 \<le> highest_seen_vs (nodes s l)" using L by (auto simp: within_def)
  have "vstol (VS v 0) \<noteq> - 1" using L(1) by (intro key_bound) (simp_all add: within_def)
  then show "set (keys_after (VS v 0) (highest_seen_vs (nodes s l))) = keys_to v (highest_seen_vs (nodes s l))"
    by (auto simp: set_keys_after keys_to_def)
qed

lemma leader_holds_entry:
  assumes "group_inv E N l v s" "n < length (log_entries E l v s)"
  shows "number v n \<in> keys_to v (highest_seen_vs (nodes s l))"
    and "holds E (nodes s l) (number v n) (log_entries E l v s ! n)"
proof -
  let ?K = "keys_after (VS v 0) (highest_seen_vs (nodes s l))"
  have n: "?K ! n = number v n" "n < length ?K"
    using assms(2) by (simp_all add: log_entries_def key_range_nth number_def)
  then show k: "number v n \<in> keys_to v (highest_seen_vs (nodes s l))"
    unfolding leader_keys(1) [OF assms(1), symmetric] by (metis nth_mem)
  with assms(1) have "backed E N l (nodes s) (nodes s l) (number v n)"
    by (simp add: group_inv_def lead_inv_def)
  then obtain d where d: "holds E (nodes s l) (number v n) d" by (auto simp: backed_def holds_def)
  have "log_entries E l v s ! n = d" using n holds_data [OF d] by (simp add: log_entries_def)
  with d show "holds E (nodes s l) (number v n) (log_entries E l v s ! n)" by simp
qed

lemma group_step_grows:
  assumes "group_step E N s s'" "group_inv E N l v s" "i < N"
  shows "lead_mono E v (nodes s l) (nodes s' l)" "prefix (effects (nodes s i)) (effects (nodes s' i))"
    and "\<lbrakk>k \<in> keys_to v (highest_seen_vs (nodes s l)); holds E (nodes s l) k d; holds E (nodes s i) k d\<rbrakk> \<Longrightarrow>
      holds E (nodes s' i) k d"
proof -
  have l: "l < N" using assms(2) by (simp add: group_inv_def)
  have "lead_mono E v (nodes s l) (nodes s' l) \<and> prefix (effects (nodes s i)) (effects (nodes s' i)) \<and>
    (k \<in> keys_to v (highest_seen_vs (nodes s l)) \<longrightarrow> holds E (nodes s l) k d \<longrightarrow> holds E (nodes s i) k d \<longrightarrow>
      holds E (nodes s' i) k d)"
    using l by (cases rule: group_step_cases [OF assms(1,2)])
      (auto simp: post_def lead_step_def foll_step_def same_config_def lead_mono_def)
  then show "lead_mono E v (nodes s l) (nodes s' l)" "prefix (effects (nodes s i)) (effects (nodes s' i))"
    "\<lbrakk>k \<in> keys_to v (highest_seen_vs (nodes s l)); holds E (nodes s l) k d; holds E (nodes s i) k d\<rbrakk> \<Longrightarrow>
      holds E (nodes s' i) k d" by blast+
qed

lemma log_entries_grow:
  assumes "group_step E N s s'" "group_inv E N l v s"
  shows "prefix (log_entries E l v s) (log_entries E l v s')"
proof -
  note inv' = group_step_inv [OF assms]
  have l: "l < N" using assms(2) by (simp add: group_inv_def)
  have p: "prefix (keys_after (VS v 0) (highest_seen_vs (nodes s l))) (keys_after (VS v 0) (highest_seen_vs (nodes s' l)))"
    using leader_keys(3) [OF assms(2)] leader_keys(4) [OF inv'] group_step_grows(1) [OF assms l]
    by (intro prefix_keys_after) (auto simp: lead_mono_def)
  have d: "record_data E (nodes s l) k = record_data E (nodes s' l) k"
    if "k \<in> set (keys_after (VS v 0) (highest_seen_vs (nodes s l)))" for k
  proof -
    have k: "k \<in> keys_to v (highest_seen_vs (nodes s l))" using that leader_keys(1) [OF assms(2)] by simp
    with assms(2) have "backed E N l (nodes s) (nodes s l) k" by (simp add: group_inv_def lead_inv_def)
    then obtain d where d: "holds E (nodes s l) k d" by (auto simp: backed_def holds_def)
    with k group_step_grows(1) [OF assms l] have "holds E (nodes s' l) k d" by (simp add: lead_mono_def)
    with d show ?thesis by (simp add: holds_data)
  qed
  have "log_entries E l v s = map (record_data E (nodes s' l)) (keys_after (VS v 0) (highest_seen_vs (nodes s l)))"
    unfolding log_entries_def by (rule map_cong [OF refl d])
  then show ?thesis using map_mono_prefix [OF p] unfolding log_entries_def by (simp only:)
qed

lemma log_stored_grows:
  assumes "group_step E N s s'" "group_inv E N l v s" "i < N"
  shows "stored (log_of E N l v s) i \<subseteq> stored (log_of E N l v s') i"
proof
  fix n
  assume "n \<in> stored (log_of E N l v s) i"
  then have n: "n < length (log_entries E l v s)" "holds E (nodes s i) (number v n) (log_entries E l v s ! n)"
    using assms(3) by (simp_all add: log_of_def)
  have "holds E (nodes s' i) (number v n) (log_entries E l v s ! n)"
    by (rule group_step_grows(3) [OF assms leader_holds_entry [OF assms(2) n(1)] n(2)])
  with n(1) log_entries_grow [OF assms(1,2)] assms(3) show "n \<in> stored (log_of E N l v s') i"
    by (auto simp: log_of_def prefix_def nth_append)
qed

text \<open>What a user was given, and that a majority has stored it.\<close>

lemma log_given:
  assumes "group_inv E N l v s" "i < N"
  shows "given (log_of E N l v s) i = calls_to v (length (user_cbs (effects (nodes s i))))"
    and "length (user_cbs (effects (nodes s i))) \<le> length (log_entries E l v s)"
    and "n < length (user_cbs (effects (nodes s i))) \<Longrightarrow> replicated N (log_of E N l v s) n"
proof -
  let ?ks = "keys_after (VS v 0) (highest_committed_vs (nodes s i))"
  let ?L = "nodes s l"
  have i: "within v (nodes s i) \<and> highest_to_commit_vs (nodes s i) \<le> highest_to_commit_vs ?L \<and>
      user_cbs (effects (nodes s i)) = map announce ?ks"
    using assms by (cases "i = l") (auto simp: group_inv_def lead_inv_def foll_inv_def)
  have L: "lead_inv E v N l (nodes s) ?L" using assms(1) by (simp add: group_inv_def)
  have c: "highest_committed_vs (nodes s i) \<le> highest_to_commit_vs ?L" "VS v 0 \<le> highest_committed_vs (nodes s i)"
    using i by (auto simp: within_def)
  have t: "highest_to_commit_vs ?L \<le> highest_seen_vs ?L" using L by (simp add: lead_inv_def)
  have vsb: "vstol (VS v 0) \<noteq> - 1" using i by (intro key_bound) (auto simp: within_def)
  show "given (log_of E N l v s) i = calls_to v (length (user_cbs (effects (nodes s i))))"
    using i assms(2) keys_after_number [of v "highest_committed_vs (nodes s i)"]
    by (simp add: log_of_def) (metis (no_types, lifting) comp_apply list.map_comp map_eq_conv)
  have p: "prefix ?ks (keys_after (VS v 0) (highest_seen_vs ?L))"
    using c t leader_keys(4) [OF assms(1)] by (intro prefix_keys_after) auto
  then show len: "length (user_cbs (effects (nodes s i))) \<le> length (log_entries E l v s)"
    using i prefix_length_le [OF p] by (simp add: log_entries_def)
  assume n: "n < length (user_cbs (effects (nodes s i)))"
  then have nl: "n < length (log_entries E l v s)" using len by simp
  have "number v n \<in> set ?ks"
    using n i keys_after_number [of v "highest_committed_vs (nodes s i)"] by (metis length_map nth_map nth_mem nth_upt add_0)
  then have "number v n \<in> keys_to v (highest_to_commit_vs ?L)"
    using c(1) leader_keys(2) [OF assms(1)] vsb
    by (auto simp: set_keys_after keys_to_def within_def intro: order_trans)
  from quorate_majority [OF L refl this] obtain d where
    d: "holds E ?L (number v n) d" "N < 2 * card {j. j < N \<and> holds E (nodes s j) (number v n) d}" by blast
  have "log_entries E l v s ! n = d" using holds_unique [OF leader_holds_entry(2) [OF assms(1) nl] d(1)] .
  with d(2) nl show "replicated N (log_of E N l v s) n"
    by (simp add: replicated_def log_of_def cong: conj_cong)
qed

lemma log_of_start:
  assumes "group_start N l v s"
  shows "log_of E N l v s = log_start"
proof -
  have l: "l < N" "v \<noteq> - 1" using assms by (simp_all add: group_start_def)
  have e: "effects (nodes s i) = []" if "i < N" for i
    using assms that by (force simp: group_start_def consensus_update_role_def Let_def)
  have "highest_seen_vs (nodes s l) = VS v 0"
    using assms l by (auto simp: group_start_def consensus_update_role_def Let_def)
  moreover have "vstol (VS v 0) < vstol (VS v 0) + 1"
    using l by (intro word_less_plus_1 key_bound) simp_all
  ultimately have "log_entries E l v s = []" by (simp add: log_entries_def)
  with e show ?thesis by (auto simp: log_of_def log_start_def fun_eq_iff)
qed

lemma log_of_step:
  assumes "group_step E N s s'" "group_inv E N l v s"
  shows "(log_step N v)\<^sup>*\<^sup>* (log_of E N l v s) (log_of E N l v s')"
proof -
  let ?a = "log_of E N l v s" and ?b = "log_of E N l v s'"
  let ?m = "\<lambda>s i. length (user_cbs (effects (nodes s i)))"
  note inv' = group_step_inv [OF assms]
  obtain ds where ds: "entries ?b = entries ?a @ ds"
    using log_entries_grow [OF assms] by (auto simp: log_of_def prefix_def)
  have 1: "(log_step N v)\<^sup>*\<^sup>* ?a (?a\<lparr>entries := entries ?b\<rparr>)" unfolding ds by (rule log_append_all)
  let ?a1 = "?a\<lparr>entries := entries ?b\<rparr>"
  have "\<forall>i < N. stored ?a1 i \<subseteq> stored ?b i \<and> stored ?b i \<subseteq> {..<length (entries ?a1)}"
    using log_stored_grows [OF assms] by (simp add: log_of_def) blast
  from log_store_all [OF this order_refl]
  have 2: "(log_step N v)\<^sup>*\<^sup>* ?a1 (?a1\<lparr>stored := (\<lambda>i. if i < N then stored ?b i else stored ?a1 i)\<rparr>)" .
  have s: "(\<lambda>i. if i < N then stored ?b i else stored ?a1 i) = stored ?b" by (simp add: log_of_def fun_eq_iff)
  let ?a2 = "?a1\<lparr>stored := stored ?b\<rparr>"
  have "\<forall>i < N. given ?a2 i = calls_to v (?m s i) \<and> ?m s i \<le> ?m s' i \<and> ?m s' i \<le> length (entries ?a2) \<and>
      (\<forall>n < ?m s' i. replicated N ?a2 n)"
  proof (intro allI impI conjI)
    fix i
    assume i: "i < N"
    show "given ?a2 i = calls_to v (?m s i)" using log_given(1) [OF assms(2) i] by simp
    show "?m s i \<le> ?m s' i" using group_step_grows(2) [OF assms i] by (auto simp: prefix_def)
    show "?m s' i \<le> length (entries ?a2)" using log_given(2) [OF inv' i] by (simp add: log_of_def)
    show "replicated N ?a2 n" if "n < ?m s' i" for n
      using log_given(3) [OF inv' i that] by (simp add: replicated_def)
  qed
  from log_give_all [OF this order_refl]
  have 3: "(log_step N v)\<^sup>*\<^sup>* ?a2 (?a2\<lparr>given := (\<lambda>i. if i < N then calls_to v (?m s' i) else given ?a2 i)\<rparr>)" .
  have g: "(\<lambda>i. if i < N then calls_to v (?m s' i) else given ?a2 i) = given ?b"
    using log_given(1) [OF inv'] by (auto simp: fun_eq_iff) (simp add: log_of_def)
  have "?a2\<lparr>given := given ?b\<rparr> = ?b" by simp
  with 1 2 3 show ?thesis unfolding s g by (metis rtranclp_trans)
qed

interpretation replication: simulation "group_start N l v" "group_step E N" log_start "log_step N v"
    "group_inv E N l v" "log_of E N l v" for E :: "'d env" and N l v
  by unfold_locales (fact group_start_inv log_of_start group_step_inv log_of_step)+

text \<open>C3 every run of a group from the beginning of a view is a run of the replicated log: the state at the
  beginning stands for the empty log, and every step that a reached state can take is a sequence of steps
  of the log, between the states that the two stand for. So a user is given a request only when a
  majority of the nodes holds it with the data it has in the log.\<close>

theorem group_refines_log:
  assumes "group_start N l v s0" "(group_step E N)\<^sup>*\<^sup>* s0 s"
  shows "log_of E N l v s0 = log_start \<and> (log_step N v)\<^sup>*\<^sup>* log_start (log_of E N l v s) \<and>
    (\<forall>s'. group_step E N s s' \<longrightarrow> (log_step N v)\<^sup>*\<^sup>* (log_of E N l v s) (log_of E N l v s'))"
  using log_of_start [OF assms(1)] replication.run_refines [OF assms] replication.next_step_refines [OF assms]
  by blast

theorem group_refines_log_witness:
  "(log_step 3 1)\<^sup>*\<^sup>* log_start (log_of mem_env 3 0 1 run_end) \<and>
   given (log_of mem_env 3 0 1 run_end) 0 = [announce 0x100000001]"
proof -
  have "(group_step mem_env 3)\<^sup>*\<^sup>* run_group run_end"
    using run_steps(2-4) by (meson converse_rtranclp_into_rtranclp rtranclp.rtrancl_refl)
  from group_refines_log [OF run_steps(1) this] run_executed(1) show ?thesis by (simp add: log_of_def)
qed

end
