(* ===== verification/ProxyProps.thy ===== *)
theory ProxyProps
  imports ClientStream FramingProps Replication
begin

text \<open>
  Properties of the proxy: keys of connections, the way of a client's data to the real server, the
  highest record number following the node's commit point, and the execution of the records in order,
  across views.
\<close>

section \<open>Keys of connections\<close>

lemma small_bits: "(w :: 'a::len word) < 2 ^ n \<Longrightarrow> bit w m \<Longrightarrow> m < n"
proof (rule ccontr)
  assume a: "w < 2 ^ n" "bit w m" "\<not> m < n"
  from a(2) have m: "m < LENGTH('a)" by (rule bit_imp_le_length)
  with a(3) have "unat (2 ^ n :: 'a word) = 2 ^ n" using unat_of_nat_small [of "2 ^ n", where 'a = 'a] by simp
  with a(1) have "unat w < 2 ^ n" by (simp add: word_less_nat_alt)
  also have "(2 :: nat) ^ n \<le> 2 ^ m" using a(3) by (intro power_increasing) simp_all
  finally have "\<not> bit (unat w) m" by (simp add: bit_iff_odd)
  with a(2) m show False by (simp add: bit_unsigned_iff)
qed

text \<open>C34 connections have different keys: the key tells the node, the number of the connection and the
  time of its beginning apart, as long as the node number has 12 bits and the time 36.\<close>

theorem gen_key_inj:
  assumes "nid < 4096" "nid' < 4096" "time < 68719476736" "time' < 68719476736"
  shows "gen_key nid cnt time = gen_key nid' cnt' time' \<longleftrightarrow> nid = nid' \<and> cnt = cnt' \<and> time = time'"
proof
  assume eq: "gen_key nid cnt time = gen_key nid' cnt' time'"
  have b: "bit (gen_key n c t) m \<longleftrightarrow> m < 64 \<and> (if m < 36 then bit t m else if m < 52 then bit c (m - 36) else bit n (m - 52))"
    if "t < 68719476736" for n :: u32 and c :: u16 and t :: u64 and m
    using small_bits [of t 36 m] that bit_imp_le_length [of c "m - 36"] bit_imp_le_length [of t m]
    by (auto simp: gen_key_def bit_simps)
  have e: "bit (gen_key nid cnt time) m = bit (gen_key nid' cnt' time') m" for m by (simp add: eq)
  have "time = time'"
  proof (rule bit_word_eqI)
    fix m assume "m < LENGTH(64)"
    show "bit time m = bit time' m"
      using e [of m] small_bits [of time 36 m] small_bits [of time' 36 m] assms(3,4)
      by (cases "m < 36") (auto simp: b assms)
  qed
  moreover have "cnt = cnt'"
  proof (rule bit_word_eqI)
    fix m assume "m < LENGTH(16)"
    then show "bit cnt m = bit cnt' m" using e [of "m + 36"] by (simp add: b assms)
  qed
  moreover have "nid = nid'"
  proof (rule bit_word_eqI)
    fix m assume "m < LENGTH(32)"
    show "bit nid m = bit nid' m"
      using e [of "m + 52"] small_bits [of nid 12 m] small_bits [of nid' 12 m] assms(1,2)
      by (cases "m < 12") (auto simp: b assms)
  qed
  ultimately show "nid = nid' \<and> cnt = cnt' \<and> time = time'" by simp
qed simp

theorem gen_key_inj_witness: "gen_key 1 0 1700000000 \<noteq> gen_key 2 0 1700000000"
  by (simp add: gen_key_inj)

section \<open>Executing requests on the server\<close>

lemma proxy_action_of_numeral [simp]:
  "proxy_action_of 0 = Some P_CONNECT" "proxy_action_of 1 = Some P_SEND" "proxy_action_of 2 = Some P_CLOSE"
  by (simp_all add: proxy_action_of_def code_find_def)

lemma log_out_frame [simp]:
  "pairs (log_out b ls p) = pairs p" "cur_rec (log_out b ls p) = cur_rec p"
  "px_db_ptr (log_out b ls p) = px_db_ptr p" "highest_rec (log_out b ls p) = highest_rec p"
  "req_log (log_out b ls p) = req_log p" "req_log_file (log_out b ls p) = req_log_file p"
  by (simp_all add: log_out_def)

lemma set_pair_frame [simp]:
  "cur_rec (set_pair i sp p) = cur_rec p" "px_db_ptr (set_pair i sp p) = px_db_ptr p"
  "highest_rec (set_pair i sp p) = highest_rec p" "pairs (set_pair i sp p) = (pairs p)[i := sp]"
  by (simp_all add: set_pair_def)

lemma do_action_send_eq:
  assumes "dec_proxy_header blk = Some h" "hash_get (pa_connection_id h) (pairs p) = Some j"
    and "j < length (pairs p)" "p_s (pairs p ! j) = Ptr ws"
    and "ld 8 56 blk = Some (n :: u64)" "ld_bytes (unat n) 64 blk = Some data"
  shows "do_action_send blk p = Some (set_pair j ((pairs p ! j)\<lparr>p_s := Ptr (ws @ [data])\<rparr>) p)"
  using assms by (simp add: do_action_send_def get_pair_def)

text \<open>C22 the data of a client reaches the real server unchanged: from the request that one proxy builds
  for a connection, another one writes exactly the data of the client to its own server connection of
  that key, and touches no other connection.\<close>

theorem request_reaches_server:
  fixes p :: "'d proxy_node"
  assumes "build_req_sub_msg E key counter P_SEND (of_nat (length data)) data = Some (h, body)"
    and "length data < 18446744073709551616"
    and "hash_get key (pairs p) = Some j" "j < length (pairs p)" "p_s (pairs p ! j) = Ptr ws"
  shows "\<exists>p'. do_action_to_server E' (drop 16 (req_sub_bytes E (h\<lparr>pa_received_time := t\<rparr>, body))) p = Some p' \<and>
    pairs p' = (pairs p)[j := (pairs p ! j)\<lparr>p_s := Ptr (ws @ [data])\<rparr>]"
proof -
  have n: "unat (of_nat (length data) :: u64) = length data" using assms(2) by (simp add: unat_of_nat_small)
  with assms(1) have h: "pa_action h = proxy_action_val P_SEND" "pa_connection_id h = key"
    "body = le 8 (of_nat (length data) :: u64) @ data"
    by (auto simp: build_req_sub_msg_def ld_bytes_def bind_eq_Some_conv split: if_splits)
  let ?r = "enc_proxy_header (junk32 E 20) (h\<lparr>pa_received_time := t\<rparr>) @ body"
  have r: "drop 16 (req_sub_bytes E (h\<lparr>pa_received_time := t\<rparr>, body)) = ?r"
    by (simp add: req_sub_bytes_def)
  have d: "dec_proxy_header ?r = Some (h\<lparr>pa_received_time := t\<rparr>)"
    by (rule proxy_header.dec_enc_append) simp
  have l: "ld 8 56 ?r = Some (of_nat (length data) :: u64)" "ld_bytes (length data) 64 ?r = Some data"
    by (simp_all add: h(3) layout)
  have "do_action_send ?r q = Some (set_pair j ((pairs p ! j)\<lparr>p_s := Ptr (ws @ [data])\<rparr>) q)"
    if "pairs q = pairs p" for q :: "'d proxy_node"
    using that assms(3-5) d l n h(2) do_action_send_eq [of ?r "h\<lparr>pa_received_time := t\<rparr>" q j] by simp
  then show ?thesis by (simp add: r do_action_to_server_def d h(1,2) Let_def)
qed


theorem request_reaches_server_witness:
  "\<exists>p'. do_action_to_server mem_env (drop 16 (req_sub_bytes mem_env
       (\<lparr>pa_action = 1, pa_received_time = now mem_env, pa_created_time = now mem_env, pa_connection_id = 7,
         pa_counter = 0\<rparr>, le 8 (2 :: u64) @ [1, 2])))
     (demo_proxy\<lparr>pairs := [\<lparr>sp_key = 7, sp_counter = 0, p_s = Ptr [[5]], p_c = NULL\<rparr>]\<rparr>) = Some p' \<and>
     pairs p' = [\<lparr>sp_key = 7, sp_counter = 0, p_s = Ptr [[5], [1, 2]], p_c = NULL\<rparr>]"
proof -
  let ?h = "\<lparr>pa_action = 1, pa_received_time = \<lparr>tv_sec = junk64 mem_env 24, tv_usec = junk64 mem_env 32\<rparr>,
    pa_created_time = now mem_env, pa_connection_id = 7, pa_counter = 0\<rparr>"
  let ?p = "demo_proxy\<lparr>pairs := [\<lparr>sp_key = 7, sp_counter = 0, p_s = Ptr [[5]], p_c = NULL\<rparr>]\<rparr>"
  have "build_req_sub_msg mem_env 7 0 P_SEND (of_nat (length [1, 2 :: u8])) [1, 2] =
      Some (?h, le 8 (2 :: u64) @ [1, 2])"
    by (simp add: build_req_sub_msg_def mem_env_def glibc_usable_def ld_bytes_def)
  from request_reaches_server [OF this, where p = ?p and j = 0 and ws = "[[5]]" and E' = mem_env and t = "now mem_env"]
  show ?thesis by (simp add: hash_get_def)
qed

section \<open>Following the consensus component\<close>

lemma update_state_announce:
  "update_state (le 8 k) p = Some (p\<lparr>highest_rec := max (highest_rec p) k, woken := True\<rparr>)"
  by (simp add: update_state_def wake_up_def ld_def max_def)

lemma update_state_all:
  "feed update_state (map (le 8) ks) p =
    Some (p\<lparr>highest_rec := fold max ks (highest_rec p), woken := woken p \<or> ks \<noteq> []\<rparr>)"
proof (induction ks arbitrary: p)
  case (Cons k ks)
  then show ?case by (simp add: update_state_announce max.commute)
qed simp

lemma highest_announced:
  assumes "vstol (VS v 0) \<noteq> - 1" "VS v 0 < vs" "h \<le> vstol (VS v 0)"
  shows "fold max (keys_after (VS v 0) vs) h = vstol vs"
proof -
  let ?ks = "keys_after (VS v 0) vs"
  have ks: "set ?ks = {k. vstol (VS v 0) < k \<and> k \<le> vstol vs}"
    using assms(1) by (auto simp: set_keys_after)
  then have l: "vstol vs \<in> set ?ks" using assms(2) by simp
  have "fold max ?ks h = Max (set (h # ?ks))" by (rule Max.set_eq_fold [symmetric])
  also have "\<dots> = vstol vs"
    using l ks assms(2,3) by (intro Max_eqI) (auto intro: order_trans less_imp_le)
  finally show ?thesis .
qed

text \<open>C19 the proxy follows the commit point of its node: after the announcements that the node has made to
  it, in whatever run of the group, the highest record number the proxy knows is the one of the last
  request its node has committed, and the thread that executes has been woken up.\<close>

theorem proxy_follows_commits:
  assumes "group_reach E N l v s" "i < N" "VS v 0 < highest_committed_vs (nodes s i)"
    and "highest_rec p \<le> vstol (VS v 0)"
  shows "\<exists>p'. feed update_state (map snd (user_cbs (effects (nodes s i)))) p = Some p' \<and>
    highest_rec p' = vstol (highest_committed_vs (nodes s i)) \<and> woken p' \<and> pairs p' = pairs p \<and>
    cur_rec p' = cur_rec p"
proof -
  let ?vs = "highest_committed_vs (nodes s i)"
  have "within v (nodes s i)" by (rule group_reachD [OF assms(1,2)])
  then have b: "vstol (VS v 0) \<noteq> - 1" by (intro key_bound) (simp_all add: within_def)
  have c: "map snd (user_cbs (effects (nodes s i))) = map (le 8) (keys_after (VS v 0) ?vs)"
    unfolding group_reachD(3) [OF assms(1,2)] by (simp add: comp_def announce_def)
  have "vstol ?vs \<in> set (keys_after (VS v 0) ?vs)" using assms(3) b by (simp add: set_keys_after)
  then show ?thesis
    unfolding c update_state_all highest_announced [OF b assms(3,4)] by auto
qed

theorem proxy_follows_commits_witness:
  "\<exists>p'. feed update_state (map snd (user_cbs (effects (nodes run_end 0)))) demo_proxy = Some p' \<and> woken p' \<and>
     highest_rec p' = vstol (highest_committed_vs (nodes run_end 0))"
proof -
  have "group_reach mem_env 3 0 1 run_end" by (rule run_reached)
  moreover have "VS 1 0 < highest_committed_vs (nodes run_end 0)"
  proof -
    have b: "vstol (VS 1 0) \<noteq> - 1" by (rule key_bound [of 1]) simp_all
    have "VS 1 0 \<le> highest_committed_vs (nodes run_end 0)"
      using group_reachD(1) [OF run_reached, of 0] by (simp add: within_def)
    moreover have "keys_after (VS 1 0) (highest_committed_vs (nodes run_end 0)) \<noteq> []"
      using group_reachD(3) [OF run_reached, of 0] run_executed(1) by auto
    ultimately show ?thesis using keys_after_self [OF b] by (auto simp: order.order_iff_strict)
  qed
  ultimately show ?thesis
    using proxy_follows_commits [of mem_env 3 0 1 run_end 0 demo_proxy]
    by (auto simp: demo_proxy_def blank_proxy_def)
qed

section \<open>The loop over the records\<close>

text \<open>What the execution of the record \<open>k\<close> amounts to.\<close>

definition execute_record :: "'d env \<Rightarrow> 'd \<Rightarrow> u64 \<Rightarrow> 'd proxy_node \<Rightarrow> 'd proxy_node option" where
  "execute_record E d k p = do {
     data \<leftarrow> snd (retrieve_record E (px_db_ptr p) k d);
     r \<leftarrow> dec_request_record data;
     p \<leftarrow> do_action_to_server E (drop request_record_len data)
       (log_out (req_log p \<and> req_log_file p) [Log_request k] (p\<lparr>cur_rec := k\<rparr>));
     Some (p\<lparr>cur_rec := k + 1\<rparr>)
   }"

definition at_record :: "'d proxy_node \<Rightarrow> 'd proxy_node \<Rightarrow> bool" where
  "at_record p p' \<longleftrightarrow> cur_rec p' = cur_rec p \<and> px_db_ptr p' = px_db_ptr p \<and> highest_rec p' = highest_rec p"

lemma do_action_at_record:
  shows "do_action_send data p = Some p' \<Longrightarrow> at_record p p'"
    and "do_action_close data p = Some p' \<Longrightarrow> at_record p p'"
    and "do_action_connect E data p = Some p' \<Longrightarrow> at_record p p'"
  by (auto simp: at_record_def do_action_send_def do_action_close_def do_action_connect_def new_pair_def
      bind_eq_Some_conv split: option.splits if_splits)

lemma do_action_to_server_at_record:
  assumes "do_action_to_server E data p = Some p'"
  shows "at_record p p'"
proof -
  obtain h where h: "dec_proxy_header data = Some h"
    using assms by (auto simp: do_action_to_server_def bind_eq_Some_conv)
  let ?o = "req_log p \<and> req_log_file p"
  let ?p = "log_out (ts_log p \<and> ?o) [Log_times (pa_connection_id h) (pa_received_time h) (pa_created_time h)] p"
  obtain q where q: "(case proxy_action_of (pa_action h) of
         Some P_CONNECT \<Rightarrow> do_action_connect E data (log_out ?o [Log_connects] ?p)
       | Some P_SEND \<Rightarrow> do_action_send data (log_out ?o [Log_sends] ?p)
       | Some P_CLOSE \<Rightarrow> do_action_close data (log_out ?o [Log_closes] ?p)
       | None \<Rightarrow> Some ?p) = Some q" "p' = log_out ?o [Log_newline] q"
    using assms h by (auto simp: do_action_to_server_def bind_eq_Some_conv Let_def)
  have "at_record ?p q"
  proof (cases "proxy_action_of (pa_action h)")
    case None
    with q(1) show ?thesis by (simp add: at_record_def)
  next
    case (Some a)
    with q(1) show ?thesis by (cases a) (auto dest!: do_action_at_record simp: at_record_def)
  qed
  with q(2) show ?thesis by (simp add: at_record_def)
qed

lemma do_action_loop_step:
  assumes "cur_rec p = k" "k \<le> h" "snd (retrieve_record E (px_db_ptr p) k d) \<noteq> None"
  shows "do_action_loop E d h p = Option.bind (execute_record E d k p) (do_action_loop E d h)"
proof -
  have "cur_rec q = k" if "do_action_to_server E data (log_out b ls p) = Some q" for data b ls q
    using do_action_to_server_at_record [OF that] assms(1) by (simp add: at_record_def)
  moreover have "p\<lparr>cur_rec := k\<rparr> = p" using assms(1) by (cases p) simp
  ultimately show ?thesis
    using assms by (subst do_action_loop.simps)
      (auto simp: execute_record_def split: Option.bind_split)
qed

lemma execute_record_frame:
  "execute_record E d k p = Some p' \<Longrightarrow> cur_rec p' = k + 1 \<and> px_db_ptr p' = px_db_ptr p"
  by (auto simp: execute_record_def bind_eq_Some_conv at_record_def dest!: do_action_to_server_at_record)

lemma do_action_loop_range:
  assumes "cur_rec p = k" "e \<le> h" "e \<noteq> - 1"
    and "\<forall>j. k \<le> j \<and> j \<le> e \<longrightarrow> snd (retrieve_record E (px_db_ptr p) j d) \<noteq> None"
  shows "do_action_loop E d h p =
    Option.bind (feed (execute_record E d) (key_range k e) p) (do_action_loop E d h)"
  using assms(1,4)
proof (induction "unat (e + 1 - k)" arbitrary: k p rule: less_induct)
  case less
  show ?case
  proof (cases "k \<le> e")
    case True
    then have "k \<noteq> e + 1" using word_less_plus_1 [OF assms(3)] by auto
    then have m: "unat (e + 1 - (k + 1)) < unat (e + 1 - k)" by (rule unat_distance_less)
    have "k \<noteq> - 1" using True assms(3) by (metis word_order.extremum_uniqueI)
    then have k1: "k \<le> j" if "k + 1 \<le> j" for j
      using order_trans [OF less_imp_le [OF word_less_plus_1] that] by simp
    have "do_action_loop E d h q = Option.bind (feed (execute_record E d) (key_range (k + 1) e) q) (do_action_loop E d h)"
      if "execute_record E d k p = Some q" for q
      using execute_record_frame [OF that] less.prems k1 by (intro less.hyps [OF m]) simp_all
    then show ?thesis
      using do_action_loop_step [of p k h E d] less.prems True assms(2,3)
      by (auto simp: key_range_Cons split: Option.bind_split)
  qed simp
qed

lemma execute_records_frame:
  "feed (execute_record E d) ks p = Some q \<Longrightarrow>
    px_db_ptr q = px_db_ptr p \<and> cur_rec q = (if ks = [] then cur_rec p else last ks + 1)"
proof (induction ks arbitrary: p)
  case (Cons k ks)
  then obtain r where r: "execute_record E d k p = Some r" "feed (execute_record E d) ks r = Some q"
    by (auto simp: bind_eq_Some_conv)
  from execute_record_frame [OF r(1)] Cons.IH [OF r(2)] show ?case by auto
qed simp

lemma last_key_range: "k \<le> e \<Longrightarrow> key_range k e \<noteq> [] \<and> last (key_range k e) = e"
  by (simp add: key_range_def word_le_nat_alt)

lemma do_action_loop_beyond: "h < cur_rec p \<Longrightarrow> do_action_loop E d h p = Some p"
  by (subst do_action_loop.simps) (meson leD)

lemma do_action_loop_all:
  assumes "cur_rec p = k" "k \<le> h" "h \<noteq> - 1"
    and "\<forall>j. k \<le> j \<and> j \<le> h \<longrightarrow> snd (retrieve_record E (px_db_ptr p) j d) \<noteq> None"
  shows "do_action_loop E d h p = feed (execute_record E d) (key_range k h) p"
proof -
  have "do_action_loop E d h q = Some q" if "feed (execute_record E d) (key_range k h) p = Some q" for q
    using execute_records_frame [OF that] last_key_range [OF assms(2)] word_less_plus_1 [OF assms(3)]
    by (intro do_action_loop_beyond) simp
  then show ?thesis
    using do_action_loop_range [OF assms(1) order_refl assms(3,4)] by (auto split: Option.bind_split)
qed

text \<open>C20 the proxy executes the decided requests in the order of their numbers, each once: when the records
  up to the highest known one are in the database, a wake-up executes exactly these, from its position on.\<close>

theorem executes_records_in_order:
  assumes "highest_rec p \<noteq> - 1"
    and "\<forall>j. cur_rec p \<le> j \<and> j \<le> highest_rec p \<longrightarrow> snd (retrieve_record E (px_db_ptr p) j d) \<noteq> None"
  shows "real_do_action E d p = feed (execute_record E d) (key_range (cur_rec p) (highest_rec p)) p"
  using assms do_action_loop_all [of p "cur_rec p" "highest_rec p" E d]
    do_action_loop_beyond [of "highest_rec p" p E d]
  by (cases "cur_rec p \<le> highest_rec p") (simp_all add: real_do_action_def not_le)

lemma cross_view_key:
  assumes "cur_rec p = vstol vs" "vs_view_id vs \<noteq> - 1"
  shows "proxy_cross_view p = p\<lparr>cur_rec := vstol (VS (vs_view_id vs + 1) 1)\<rparr>"
proof -
  have 1: "drop_bit 32 (vstol vs) = ucast (vs_view_id vs)"
    by (rule bit_word_eqI) (auto simp: bit_simps bit_vstol dest: bit_u32D)
  have "uint (ucast (vs_view_id vs) + 1 :: u64) = uint (vs_view_id vs) + 1"
    using u32_bound [of "vs_view_id vs"] by (simp add: uint_word_ariths)
  then have 2: "(ucast (vs_view_id vs) + 1 :: u64) = ucast (vs_view_id vs + 1)"
    using assms(2) by (simp add: word_uint_eq_iff uint_plus_1)
  show ?thesis unfolding proxy_cross_view_def assms(1) 1 2 by (simp add: vstol_def low_mask)
qed

text \<open>C21 when the numbers of a view end, the proxy goes on with the first request of the next view: the
  records of both views are executed in order, and none twice.\<close>

theorem executes_across_views:
  assumes "cur_rec p = vstol (VS v a)" "a \<le> m" "m \<noteq> - 1" "v \<noteq> - 1"
    and "\<forall>j. vstol (VS v a) \<le> j \<and> j \<le> vstol (VS v m) \<longrightarrow> snd (retrieve_record E (px_db_ptr p) j d) \<noteq> None"
    and "snd (retrieve_record E (px_db_ptr p) (vstol (VS v (m + 1))) d) = None"
    and "\<forall>j. vstol (VS (v + 1) 1) \<le> j \<and> j \<le> highest_rec p \<longrightarrow> snd (retrieve_record E (px_db_ptr p) j d) \<noteq> None"
    and "vstol (VS (v + 1) 1) \<le> highest_rec p" "highest_rec p \<noteq> - 1"
  shows "real_do_action E d p = feed (execute_record E d)
    (key_range (vstol (VS v a)) (vstol (VS v m)) @ key_range (vstol (VS (v + 1) 1)) (highest_rec p)) p"
proof -
  let ?h = "highest_rec p" and ?ks = "key_range (vstol (VS v a)) (vstol (VS v m))"
  have v1: "v < v + 1" using assms(4) by (rule word_less_plus_1)
  then have "VS v m < VS (v + 1) 1" "VS v (m + 1) < VS (v + 1) 1" by (simp_all add: vs_less_iff)
  then have le: "vstol (VS v m) \<le> ?h" "vstol (VS v (m + 1)) \<le> ?h" "vstol (VS v m) \<noteq> - 1"
    using assms(8,4) key_bound [of v "VS v m"]
    by (auto intro: order_trans [OF _ assms(8)] less_imp_le)
  have next1: "vstol (VS v m) + 1 = vstol (VS v (m + 1))"
    using vstol_Suc [of "VS v m"] assms(3) by simp
  have "do_action_loop E d ?h q = feed (execute_record E d) (key_range (vstol (VS (v + 1) 1)) ?h) q"
    if q: "feed (execute_record E d) ?ks p = Some q" for q
  proof -
    have "VS v a \<le> VS v m" using assms(2) by (simp add: vs_le_iff)
    then have c: "cur_rec q = vstol (VS v (m + 1))" "px_db_ptr q = px_db_ptr p"
      using execute_records_frame [OF q] last_key_range [of "vstol (VS v a)" "vstol (VS v m)"] next1 by auto
    let ?r = "q\<lparr>cur_rec := vstol (VS (v + 1) 1)\<rparr>"
    have "do_action_loop E d ?h q = do_action_loop E d ?h (proxy_cross_view q)"
      using c le(2) assms(6) by (subst do_action_loop.simps) simp
    also have "\<dots> = do_action_loop E d ?h ?r"
      using cross_view_key [OF c(1)] assms(4) by simp
    also have "\<dots> = feed (execute_record E d) (key_range (vstol (VS (v + 1) 1)) ?h) ?r"
      using assms(7-9) c(2) by (intro do_action_loop_all) simp_all
    also have "\<dots> = feed (execute_record E d) (key_range (vstol (VS (v + 1) 1)) ?h) q"
      using assms(8,9) by (simp add: key_range_Cons execute_record_def)
    finally show ?thesis .
  qed
  then show ?thesis
    using do_action_loop_range [OF assms(1) le(1,3) assms(5)]
    by (auto simp: real_do_action_def feed_append split: Option.bind_split)
qed

section \<open>Two views\<close>

definition connect_record :: bytes where
  "connect_record = enc_request_record \<lparr>rr_created_time = \<lparr>tv_sec = 1, tv_usec = 0\<rparr>, rr_is_closed = 0,
     rr_bit_map = 3, rr_data_size = 56\<rparr> @ enc_proxy_header 0 \<lparr>pa_action = 0,
     pa_received_time = \<lparr>tv_sec = 1, tv_usec = 0\<rparr>, pa_created_time = \<lparr>tv_sec = 1, tv_usec = 0\<rparr>,
     pa_connection_id = 9, pa_counter = 0\<rparr>"

text \<open>One record in each of two views.\<close>

definition two_views :: mem_db where
  "two_views = Map.empty((''d'', 0x100000001) \<mapsto> connect_record, (''d'', 0x200000001) \<mapsto> connect_record)"

definition view_proxy :: "u64 \<Rightarrow> mem_db proxy_node" where
  "view_proxy h = demo_proxy\<lparr>cur_rec := 0x100000001, highest_rec := h\<rparr>"

lemma connect_record_ne: "connect_record \<noteq> []"
  by (simp add: connect_record_def)

lemma two_views_find:
  "snd (retrieve_record mem_env (px_db_ptr demo_proxy) k two_views) =
    (if k = 0x100000001 \<or> k = 0x200000001 then Some connect_record else None)"
  using connect_record_ne
  by (auto simp: retrieve_record_def demo_proxy_def two_views_def mem_env_def)

lemma two_views_keys:
  "vstol (VS 1 1) = 0x100000001" "vstol (VS 1 2) = 0x100000002" "vstol (VS 2 1) = 0x200000001"
  by (simp_all add: vstol_def)

theorem executes_records_in_order_witness:
  "real_do_action mem_env two_views (view_proxy 0x100000001) =
     execute_record mem_env two_views 0x100000001 (view_proxy 0x100000001)"
proof -
  have "\<forall>j. cur_rec (view_proxy 0x100000001) \<le> j \<and> j \<le> highest_rec (view_proxy 0x100000001) \<longrightarrow>
      snd (retrieve_record mem_env (px_db_ptr (view_proxy 0x100000001)) j two_views) \<noteq> None"
    by (auto simp: two_views_find view_proxy_def)
  from executes_records_in_order [OF _ this] show ?thesis
    by (simp add: key_range_Cons view_proxy_def split: Option.bind_split)
qed

theorem executes_across_views_witness:
  "real_do_action mem_env two_views (view_proxy 0x200000001) =
     feed (execute_record mem_env two_views) [0x100000001, 0x200000001] (view_proxy 0x200000001)"
proof -
  let ?p = "view_proxy 0x200000001"
  have "real_do_action mem_env two_views ?p = feed (execute_record mem_env two_views)
      (key_range (vstol (VS 1 1)) (vstol (VS 1 1)) @ key_range (vstol (VS (1 + 1) 1)) (highest_rec ?p)) ?p"
    by (rule executes_across_views) (auto simp: two_views_find two_views_keys view_proxy_def)
  then show ?thesis by (simp add: two_views_keys key_range_Cons view_proxy_def)
qed

section \<open>From the proxy to the consensus component\<close>

text \<open>C26 the leader's component is given what the proxy has built: the request that the proxy writes to its
  node reaches the consensus component with the proxy's header and the client's data, whose length is
  the announced one.\<close>

theorem submit_reaches_consensus:
  assumes "node_state n = NODE_ACTIVE" "consensus_comp n = Ptr ()"
  shows "dispatch_msg E' (req_sub_bytes E (h, body) @ rest) n =
    run_consensus E' (\<lambda>n. map_option (\<lambda>(ret, vs, n). n)
      (consensus_submit_request E' (of_nat (length (enc_proxy_header (junk32 E 20) h @ body)))
        ((enc_proxy_header (junk32 E 20) h @ body) @ rest) n)) n"
proof -
  let ?m = "req_sub_bytes E (h, body) @ rest"
  have "ld 4 0 ?m = Some (sys_msg_code_val REQUEST_SUBMIT)"
    "dec_header ?m = Some \<lparr>sh_type = 2, sh_data_size = of_nat (56 + length body)\<rparr>"
    "drop 16 ?m = (enc_proxy_header (junk32 E 20) h @ body) @ rest"
    by (simp_all add: req_sub_bytes_def header.dec_enc_append) (simp add: enc_header_def layout)
  with assms show ?thesis
    by (simp add: dispatch_msg_def handle_request_submit_def del: append_assoc drop_append)
qed

theorem submit_reaches_consensus_witness:
  "dispatch_msg mem_env (req_sub_bytes mem_env (\<lparr>pa_action = 0, pa_received_time = now mem_env,
       pa_created_time = now mem_env, pa_connection_id = 7, pa_counter = 0\<rparr>, [])) demo_node =
   run_consensus mem_env (\<lambda>n. map_option (\<lambda>(ret, vs, n). n)
     (consensus_submit_request mem_env 56 (enc_proxy_header (junk32 mem_env 20)
       \<lparr>pa_action = 0, pa_received_time = now mem_env, pa_created_time = now mem_env, pa_connection_id = 7,
        pa_counter = 0\<rparr>) n)) demo_node"
  using submit_reaches_consensus [of demo_node mem_env mem_env _ "[]" "[]"] by simp

end
