(* ===== verification/GroupData.thy ===== *)
theory GroupData
  imports Group
begin

text \<open>
  The data of a view: what a follower has stored of the view is what the leader has, so what two
  nodes execute under one number is the same request. The record of a lost request that another
  node sends back would be cut short (\<open>build_missing_ack\<close>), and what it is completed with is
  arbitrary; the invariant holds of every node to which no such reply was sent, and with an allocator
  that gives fewer than 28 bytes more than asked for the code cannot build one.
\<close>

section \<open>What a follower has stored\<close>

definition foll_data :: "'d env \<Rightarrow> view_id_t \<Rightarrow> ('d, 'z) comp \<Rightarrow> ('d, 'z) comp \<Rightarrow> bool" where
  "foll_data E v L c \<longleftrightarrow>
     (\<forall>k \<in> keys_to v (VS v (- 1)). present E c k \<longrightarrow>
        k \<in> keys_to v (highest_seen_vs L) \<and> (\<exists>d. holds E c k d \<and> holds E L k d)) \<and>
     (\<forall>k \<in> keys_to v (highest_committed_vs c).
        k \<in> keys_to v (highest_seen_vs L) \<and> (\<exists>d. holds E c k d \<and> holds E L k d))"

lemma same_retrieve:
  "retrieve E c' k = retrieve E c k \<Longrightarrow> holds E c' k = holds E c k \<and> present E c' k = present E c k"
  by (simp add: holds_def present_def fun_eq_iff)

lemma foll_data_cong:
  assumes "retrieve E c' = retrieve E c" "highest_committed_vs c' = highest_committed_vs c"
  shows "foll_data E v L c' = foll_data E v L c"
  using assms by (simp add: foll_data_def present_def holds_def)

lemma foll_data_lead:
  assumes "foll_data E v L c" "lead_mono E v L L'"
  shows "foll_data E v L' c"
proof -
  have "k \<in> keys_to v (highest_seen_vs L') \<and> (\<exists>d. holds E c k d \<and> holds E L' k d)"
    if "k \<in> keys_to v (highest_seen_vs L)" "\<exists>d. holds E c k d \<and> holds E L k d" for k
    using that assms(2) keys_to_mono unfolding lead_mono_def by blast
  with assms(1) show ?thesis unfolding foll_data_def by blast
qed

lemma foll_data_try:
  assumes "foll_data E v L c" "within v c" "my_role c = SECONDARY" "try_to_execute E c = Some c'"
  shows "foll_data E v L c'"
proof (cases "v_view_id (cur_view c) = 0")
  case True
  with assms(1,4) show ?thesis by (simp add: try_to_execute_def)
next
  case False
  with assms(2-4) have l: "execute_loop E (vstol (highest_to_commit_vs c)) True
      (vstol (highest_committed_vs c) + 1) c = Some c'"
    by (simp add: try_to_execute_def within_def)
  from execute_loop_within [OF assms(2) l] have e: "executes E c c'" "within v c'"
    "\<forall>k \<in> set (keys_after (highest_committed_vs c) (highest_committed_vs c')). present E c k" by simp_all
  have r: "retrieve E c' = retrieve E c"
    using e(1) by (intro only_executes_retrieve) (simp add: executes_def)
  have b: "vstol (highest_committed_vs c) \<noteq> - 1" using assms(2) key_bound by (auto simp: within_def)
  have "vstol (highest_committed_vs c') \<le> vstol (VS v (- 1))"
    using e(2) by (cases "highest_committed_vs c'") (auto simp: within_def vs_le_iff)
  then have new: "k \<in> keys_to v (VS v (- 1)) \<and> present E c k"
    if "k \<in> keys_to v (highest_committed_vs c')" "k \<notin> keys_to v (highest_committed_vs c)" for k
    using that e(3) b by (auto simp: keys_to_def set_keys_after not_le intro: order_trans)
  have h: "holds E c' k = holds E c k" "present E c' k = present E c k" for k
    using same_retrieve [of E c' k c] r by simp_all
  from assms(1) new show ?thesis unfolding foll_data_def h by blast
qed

lemma foll_data_store:
  assumes "foll_data E v L c" "bdb_contract E" "store E c k (enc_request_record r @ data) = (ret, c')"
    and "k \<in> keys_to v (highest_seen_vs L)" "holds E L k data" "length data = unat (rr_data_size r)"
  shows "foll_data E v L c'"
proof -
  have s: "highest_committed_vs c' = highest_committed_vs c"
    using assms(3) by (auto simp: store_def split: prod.splits)
  have "retrieve E c' j = retrieve E c j \<or> j = k \<and> holds E c' j data" for j
    using retrieve_store [OF assms(2,3), of j] assms(6) by (auto simp: holds_def)
  then have "retrieve E c' j = retrieve E c j \<or>
      j \<in> keys_to v (highest_seen_vs L) \<and> (\<exists>d. holds E c' j d \<and> holds E L j d)" for j
    using assms(4,5) by blast
  then have "(present E c' j = present E c j \<and> holds E c' j = holds E c j) \<or>
      j \<in> keys_to v (highest_seen_vs L) \<and> (\<exists>d. holds E c' j d \<and> holds E L j d)" for j
    using same_retrieve [of E c' j c] by blast
  with assms(1) show ?thesis unfolding foll_data_def s by metis
qed

lemma call_uc_data:
  "(case m of None \<Rightarrow> Some c | Some msg \<Rightarrow> call_uc msg t c) = Some c' \<Longrightarrow>
    foll_data E v L c' = foll_data E v L c"
  by (intro foll_data_cong) (auto simp: call_uc_def fun_eq_iff retrieve_def split: option.splits if_splits)

lemma foll_data_accept_store:
  assumes "foll_data E v L c" "bdb_contract E" "vstol (ar_msg_vs a) \<in> keys_to v (highest_seen_vs L)"
    and "holds E L (vstol (ar_msg_vs a)) data" "length data = unat (rr_data_size r)"
    and "handle_accept_req_store E a (enc_request_record r @ data @ rest) c = Some c'"
  shows "foll_data E v L c'"
proof (cases "malloc_usable E (unat (REQ_RECORD_SIZE r))")
  case None
  with assms(1,6) show ?thesis by (simp add: handle_accept_req_store_def)
next
  case (Some u)
  define r' where "r' = r\<lparr>rr_created_time := now E, rr_bit_map := junk_bit_map E\<rparr>"
  obtain ret c1 where st: "store E c (vstol (ar_msg_vs a)) (enc_request_record r' @ data) = (ret, c1)"
    by (meson surj_pair)
  have s1: "foll_data E v L c1"
    by (rule foll_data_store [OF assms(1,2) st assms(3,4)]) (simp add: r'_def assms(5))
  with assms(5,6) Some st show ?thesis
    by (auto simp: handle_accept_req_store_def Let_def r'_def [symmetric] alloc_fill_def call_uc_data
        split: if_splits)
qed

lemma foll_data_accept:
  assumes "foll_inv v l L i c" "foll_data E v L c" "bdb_contract E"
    and "vstol (ar_msg_vs a) \<in> keys_to v (highest_seen_vs L)"
    and "holds E L (vstol (ar_msg_vs a)) data" "length data = unat (rr_data_size r)"
    and "vs_view_id (ar_msg_vs a) = v" "vs_view_id (ar_req_canbe_exed a) = v"
    and "ar_req_canbe_exed a \<le> highest_to_commit_vs L"
    and "handle_accept_req E (enc_accept_req a @ enc_request_record r @ data @ rest) c = Some c'"
  shows "foll_data E v L c'"
proof (cases "rejected c a")
  case True
  with assms(1,2,10) show ?thesis
    by (auto simp: handle_accept_req_alt foll_inv_def intro: foll_data_try)
next
  case False
  with assms(10) obtain c2 where c2:
    "handle_accept_req_store E a (enc_request_record r @ data @ rest) (accept_update a c) = Some c2"
    "try_to_execute E c2 = Some c'"
    by (auto simp: handle_accept_req_alt)
  have "foll_step E v l L i c (accept_update a c)"
    using assms(1,7,8,9) unfolding accept_update_def
    by (intro foll_raise [OF assms(1) refl]) (auto simp: foll_inv_def within_def max_def)
  then have i1: "foll_inv v l L i (accept_update a c)" by (simp add: foll_step_def)
  from foll_store_accept [OF this assms(3-6) c2(1)]
  have "foll_inv v l L i c2" by (simp add: foll_step_def)
  moreover have "foll_data E v L (accept_update a c)"
    using assms(2) foll_data_cong [of E "accept_update a c" c] by (simp add: accept_update_def retrieve_def fun_eq_iff)
  from foll_data_accept_store [OF this assms(3-6) c2(1)] have "foll_data E v L c2" .
  ultimately show ?thesis using c2(2) by (auto simp: foll_inv_def intro: foll_data_try)
qed

lemma foll_data_receive:
  assumes "foll_inv v l L i c" "foll_data E v L c" "bdb_contract E"
    and "consensus_handle_msg E (m @ rest) c = Some c'" "msg_ok E v l L src s m"
    and "ld 4 0 m \<noteq> Some (con_code_val MISSING_ACK)"
  shows "foll_data E v L c'"
proof -
  have S: "my_role c = SECONDARY" "within v c" using assms(1) by (simp_all add: foll_inv_def)
  note executed = foll_data_try [OF assms(2) S(2,1)]
  from assms(5) show ?thesis
  proof cases
    case benign
    with assms(6) obtain w where "w \<in> {con_code_val MISSING_REQ, con_code_val FORWARD_REQ}"
      "ld 4 0 (m @ rest) = Some w"
      by (auto simp: benign_def dest: ld_front)
    with assms(2,4) S show ?thesis
      by (elim consensus_handle_msgE) (auto simp: handle_forward_req_def handle_missing_req_def call_uc_data)
  next
    case (accept a data r)
    from assms(4) show ?thesis unfolding accept(1)
    proof (cases rule: consensus_handle_msgE)
      case accept_req
      with accept assms(1,2,3) show ?thesis by (auto intro: foll_data_accept)
    qed (simp_all add: assms(2))
  next
    case (ack a data p)
    from assms(4) show ?thesis unfolding ack(1)
    proof (cases rule: consensus_handle_msgE)
      case accept_ack
      with S show ?thesis by (auto simp: handle_accept_ack_def intro: executed)
    qed (simp_all add: assms(2))
  next
    case (force f p)
    from assms(4) show ?thesis unfolding force(1)
    proof (cases rule: consensus_handle_msgE)
      case force_exec
      let ?c1 = "c\<lparr>highest_to_commit_vs := fe_highest_committed_op f\<rparr>"
      have "foll_data E v L ?c1"
        using assms(2) foll_data_cong [of E ?c1 c] by (simp add: retrieve_def fun_eq_iff)
      moreover have "within v ?c1" if "highest_to_commit_vs c < fe_highest_committed_op f"
        using that force(2,3) S(2) by (auto simp: within_def)
      ultimately show ?thesis
        using force_exec(2) assms(2) S(1) by (auto simp: handle_force_exec_def split: if_splits intro: foll_data_try)
    qed (simp_all add: assms(2))
  qed
qed

lemma foll_data_submit:
  assumes "foll_data E v L c" "forward_submit_req E n data c = Some (ret, vs, c')"
  shows "foll_data E v L c'"
proof -
  from assms(2) obtain m where m: "build_forward_req E c n data = Some m" "(case m of None \<Rightarrow> Some c
      | Some msg \<Rightarrow> call_uc msg (ucast (v_leader_id (cur_view c))) c) = Some c'"
    unfolding forward_submit_req_def by (auto split: option.splits)
  from call_uc_data [OF m(2)] assms(1) show ?thesis by simp
qed

section \<open>The group\<close>

text \<open>Among the messages sent there is no reply with a lost record for node \<open>i\<close>.\<close>

definition unanswered :: "nat \<Rightarrow> (nat \<times> i32 \<times> bytes) list \<Rightarrow> bool" where
  "unanswered i ms \<longleftrightarrow>
     (\<forall>(src, t, m) \<in> set ms. addressed i src t \<longrightarrow> ld 4 0 m \<noteq> Some (con_code_val MISSING_ACK))"

lemma unanswered_mono: "unanswered i ms' \<Longrightarrow> set ms \<subseteq> set ms' \<Longrightarrow> unanswered i ms"
  by (auto simp: unanswered_def)

definition group_data :: "'d env \<Rightarrow> nat \<Rightarrow> nat \<Rightarrow> view_id_t \<Rightarrow> 'd group \<Rightarrow> bool" where
  "group_data E N l v s \<longleftrightarrow>
     (\<forall>i < N. i \<noteq> l \<longrightarrow> unanswered i (net s) \<longrightarrow> foll_data E v (nodes s l) (nodes s i))"

text \<open>No node but the leader has a record of the view when it begins.\<close>

definition view_is_new :: "'d env \<Rightarrow> nat \<Rightarrow> nat \<Rightarrow> view_id_t \<Rightarrow> 'd group \<Rightarrow> bool" where
  "view_is_new E N l v s \<longleftrightarrow>
     (\<forall>i < N. i \<noteq> l \<longrightarrow> (\<forall>k \<in> keys_to v (VS v (- 1)). \<not> present E (nodes s i) k))"

lemma same_store_data: "same_store E E' \<Longrightarrow> foll_data E' = foll_data E"
  by (simp add: foll_data_def fun_eq_iff present_def same_store_retrieve same_store_holds)

lemma group_step_nodes:
  assumes "group_step E N s s'" "group_inv E N l v s"
  shows "lead_mono E v (nodes s l) (nodes s' l) \<and> set (net s) \<subseteq> set (net s')"
  by (cases rule: group_step_cases [OF assms]) (auto simp: post_def lead_step_def)

lemma follower_step_data:
  assumes "group_step E N s s'" "group_inv E N l v s" "group_data E N l v s" "j < N" "j \<noteq> l"
    and "unanswered j (net s)"
  shows "foll_data E v (nodes s l) (nodes s' j)"
proof -
  have f: "foll_inv v l (nodes s l) j (nodes s j)" "foll_data E v (nodes s l) (nodes s j)"
    using assms by (simp_all add: group_inv_def group_data_def)
  have S: "my_role (nodes s j) = SECONDARY" using f(1) by (simp add: foll_inv_def)
  from assms(1) show ?thesis
  proof cases
    case (receive i src t m E' rest c)
    note eq = same_store_data [OF receive(6)] same_store_eq [OF receive(6)]
    have m: "msg_ok E' v l (nodes s l) src (nodes s src) m" "ld 4 0 m \<noteq> Some (con_code_val MISSING_ACK)"
      if "i = j" using that receive(4,5) assms(2,6) by (auto simp: eq group_inv_def unanswered_def)
    have "bdb_contract E'" using receive(6) by (simp add: same_store_def)
    with foll_data_receive [OF f(1) _ _ _ m, of rest c] f receive(1,9) show ?thesis
      by (cases "i = j") (simp_all add: eq post_def)
  next
    case (submit i E' n data ret vs c)
    note eq = same_store_data [OF submit(3)]
    have "foll_data E' v (nodes s l) c" if "i = j"
      using that f S submit(6) foll_data_submit [of E' v "nodes s l" "nodes s j" n data ret vs c]
      by (auto simp: eq consensus_submit_request_def)
    with f(2) submit(1) show ?thesis by (cases "i = j") (simp_all add: eq post_def)
  next
    case (progress i E' c)
    with f(2) S show ?thesis by (cases "i = j") (auto simp: post_def consensus_make_progress_def)
  qed
qed

lemma group_step_data:
  assumes "group_step E N s s'" "group_inv E N l v s" "group_data E N l v s"
  shows "group_data E N l v s'"
  using follower_step_data [OF assms] foll_data_lead group_step_nodes [OF assms(1,2)] unanswered_mono
  unfolding group_data_def by blast

lemma group_start_data:
  assumes "group_start N l v s" "view_is_new E N l v s"
  shows "group_data E N l v s"
proof -
  have "keys_to v (highest_committed_vs (nodes s i)) = {}" if "i < N" for i
    using assms(1) that by (fastforce simp: group_start_def consensus_update_role_def Let_def keys_to_def)
  with assms(2) show ?thesis by (simp add: group_data_def foll_data_def view_is_new_def)
qed

lemma group_run_data:
  assumes "(group_step E N)\<^sup>*\<^sup>* s0 s" "group_start N l v s0" "view_is_new E N l v s0"
  shows "group_data E N l v s"
  using assms(1)
proof (induction rule: rtranclp_induct)
  case base
  show ?case by (rule group_start_data [OF assms(2,3)])
next
  case (step s s')
  have "group_reach E N l v s" using assms(2) step(1) unfolding group_reach_def by blast
  from group_step_data [OF step(2) group_reach_inv [OF this] step.IH] show ?case .
qed

text \<open>Every record that a node has executed is the leader's.\<close>

lemma executed_data:
  assumes "(group_step E N)\<^sup>*\<^sup>* s0 s" "group_start N l v s0" "view_is_new E N l v s0" "unanswered i (net s)"
    and "i < N" "k \<in> keys_to v (highest_committed_vs (nodes s i))"
  shows "\<exists>d. holds E (nodes s i) k d \<and> holds E (nodes s l) k d"
proof (cases "i = l")
  case False
  with group_run_data [OF assms(1-3)] assms(4-6) show ?thesis by (auto simp: group_data_def foll_data_def)
next
  case True
  have r: "group_reach E N l v s" using assms(1,2) unfolding group_reach_def by blast
  have "highest_committed_vs (nodes s i) \<le> highest_seen_vs (nodes s l)"
    using group_reachD [OF r assms(5)] by (auto simp: within_def lead_inv_def)
  with assms(6) have "k \<in> keys_to v (highest_seen_vs (nodes s l))" by (rule keys_to_mono)
  then have "backed E N l (nodes s) (nodes s l) k"
    using group_reachD(4) [OF r assms(5)] by (simp add: lead_inv_def)
  with True show ?thesis by (auto simp: backed_def holds_def)
qed

lemma executed_committed:
  assumes "group_reach E N l v s" "i < N" "announce k \<in> set (user_cbs (effects (nodes s i)))"
  shows "k \<in> keys_to v (highest_committed_vs (nodes s i))"
proof -
  have "vstol (VS v 0) \<noteq> - 1"
    using group_reachD(1) [OF assms(1,2)] by (intro key_bound) (simp_all add: within_def)
  with assms(3) show ?thesis
    unfolding group_reachD(3) [OF assms(1,2)] by (auto simp: set_keys_after keys_to_def)
qed

text \<open>C7 two nodes never disagree on what was executed, in any run of a view of which no follower has a
  record when it begins: the sequence of record numbers of one is a prefix of that of the other, and
  under every number that both have executed they hold the same request, if neither was sent a reply with
  a lost record (\<open>unanswered\<close>), as such a reply lacks the end of the record.\<close>

theorem executions_agree:
  assumes "group_start N l v s0" "view_is_new E N l v s0" "(group_step E N)\<^sup>*\<^sup>* s0 s"
    and "i < N" "j < N"
  shows "(prefix (user_cbs (effects (nodes s i))) (user_cbs (effects (nodes s j))) \<or>
      prefix (user_cbs (effects (nodes s j))) (user_cbs (effects (nodes s i)))) \<and>
    (unanswered i (net s) \<and> unanswered j (net s) \<longrightarrow>
      (\<forall>k. announce k \<in> set (user_cbs (effects (nodes s i))) \<inter> set (user_cbs (effects (nodes s j))) \<longrightarrow>
        (\<exists>data. holds E (nodes s i) k data \<and> holds E (nodes s j) k data)))"
proof -
  have r: "group_reach E N l v s" using assms(1,3) unfolding group_reach_def by blast
  have "\<exists>data. holds E (nodes s n) k data \<and> holds E (nodes s l) k data"
    if "n < N" "unanswered n (net s)" "announce k \<in> set (user_cbs (effects (nodes s n)))" for n k
    by (rule executed_data [OF assms(3,1,2) that(2,1) executed_committed [OF r that(1,3)]])
  with assms(4,5) have "\<exists>data. holds E (nodes s i) k data \<and> holds E (nodes s j) k data"
    if "unanswered i (net s)" "unanswered j (net s)"
      "announce k \<in> set (user_cbs (effects (nodes s i)))" "announce k \<in> set (user_cbs (effects (nodes s j)))" for k
    using that holds_unique by metis
  with executions_prefix [OF r assms(4,5)] show ?thesis by blast
qed

text \<open>With an allocator that gives fewer than 28 bytes more than it is asked for, as glibc's does, no
  reply to a request for a missing record is ever built.\<close>

lemma tight_unanswered:
  assumes "\<forall>n k. malloc_usable E n = Some k \<longrightarrow> k < n + missing_ack_len"
  shows "build_missing_ack E c vs \<noteq> Some (Some m)"
  using assms
  by (fastforce simp: build_missing_ack_def alloc_fill_def ld_bytes_def Let_def length_enc bind_eq_Some_conv
      split: option.splits if_splits)

lemma glibc_tight: "glibc_usable n < n + missing_ack_len"
proof -
  have "(n + 8 + 15) div 16 * 16 \<le> n + 8 + 15" by (rule div_times_less_eq_dividend)
  then have "(n + 8 + 15) div 16 * 16 - 8 < n + missing_ack_len" by linarith
  then show ?thesis by (simp add: glibc_usable_def)
qed

lemma mem_env_unanswered: "build_missing_ack mem_env c vs \<noteq> Some (Some m)"
  by (rule tight_unanswered) (simp add: mem_env_def glibc_tight)

section \<open>A run in which two nodes execute\<close>

text \<open>The run goes on: node 0 makes progress and tells its commit point, and node 1 executes as well.\<close>

definition run_force :: bytes where
  "run_force = enc_force_exec (junk32 mem_env 4) \<lparr>fe_node_id = 0, fe_highest_committed_op = VS 1 1\<rparr>"

definition run_leader_told :: "mem_db consensus_component" where
  "run_leader_told = the (consensus_make_progress mem_env run_leader_end)"

definition run_follower_end :: "mem_db consensus_component" where
  "run_follower_end = the (consensus_handle_msg mem_env run_force run_follower)"

definition run_both :: "mem_db group" where
  "run_both = post 1 run_follower_end (post 0 run_leader_told run_end)"

lemma run_told:
  "map_option (\<lambda>c. (new_calls run_leader_end c, user_cbs (effects c)))
     (consensus_make_progress mem_env run_leader_end) = Some ([(run_force, - 1)], [announce 0x100000001])"
  by code_simp

lemma run_follows:
  "map_option (\<lambda>c. (new_calls run_follower c, user_cbs (effects c)))
     (consensus_handle_msg mem_env run_force run_follower) = Some ([], [announce 0x100000001])"
  by code_simp

lemma run_both_calls:
  "consensus_make_progress mem_env (nodes run_end 0) = Some run_leader_told"
  "consensus_handle_msg mem_env (run_force @ []) (nodes (post 0 run_leader_told run_end) 1) = Some run_follower_end"
  "new_calls (nodes run_end 0) run_leader_told = [(run_force, - 1)]"
  "new_calls (nodes (post 0 run_leader_told run_end) 1) run_follower_end = []"
  "user_cbs (effects run_leader_told) = [announce 0x100000001]"
  "user_cbs (effects run_follower_end) = [announce 0x100000001]"
  using run_told run_follows
  by (auto simp: run_leader_told_def run_follower_end_def run_end_def post_def)

lemma run_both_net: "net run_both = [(0, - 1, run_request), (1, 0, run_ack), (0, - 1, run_force)]"
proof -
  have "new_calls run_leader run_leader_end = []" by code_simp
  then have "net run_end = [(0, - 1, run_request), (1, 0, run_ack)]"
    using run_evaluated(4,5) by (simp add: run_end_def post_def run_group_def)
  then show ?thesis using run_both_calls(3,4) by (simp add: run_both_def post_def)
qed

lemma run_both_steps:
  "group_step mem_env 3 run_end (post 0 run_leader_told run_end)"
  "group_step mem_env 3 (post 0 run_leader_told run_end) run_both"
proof -
  show "group_step mem_env 3 run_end (post 0 run_leader_told run_end)"
    by (rule group_step.progress [OF _ run_states(6) run_both_calls(1)]) simp
  have n: "(0, - 1, run_force) \<in> set (net (post 0 run_leader_told run_end))"
    using run_both_calls(3) by (simp add: post_def)
  have r: "my_role (nodes (post 0 run_leader_told run_end) 1) = SECONDARY"
    using group_reach_inv [OF run_reached] by (simp add: post_def group_inv_def foll_inv_def)
  have l: "length (run_force @ []) < 4294967296" by (simp add: run_force_def)
  show "group_step mem_env 3 (post 0 run_leader_told run_end) run_both"
    unfolding run_both_def
    by (rule group_step.receive [OF _ _ n _ run_states(6) l _ run_both_calls(2)])
      (simp_all add: addressed_def r del: append_Nil2 One_nat_def)
qed

lemma run_both_run: "(group_step mem_env 3)\<^sup>*\<^sup>* run_group run_both"
  using run_steps(2-4) run_both_steps
  by (meson converse_rtranclp_into_rtranclp rtranclp.rtrancl_refl)

lemma run_is_new: "view_is_new mem_env 3 0 1 run_group"
  by (auto simp: view_is_new_def run_group_def run_node_def consensus_update_role_def demo_comp_def
      present_def retrieve_def retrieve_record_def mem_env_def Let_def)

lemma run_unanswered: "unanswered i (net run_both)"
proof -
  have "ld 4 0 run_request = Some (con_code_val ACCEPT_REQ)" "ld 4 0 run_ack = Some (con_code_val ACCEPT_ACK)"
    "ld 4 0 run_force = Some (con_code_val FORCE_EXEC)" by code_simp+
  then show ?thesis by (simp add: unanswered_def run_both_net)
qed

theorem executions_agree_witness:
  "\<exists>data. holds mem_env (nodes run_both 0) 0x100000001 data \<and> holds mem_env (nodes run_both 1) 0x100000001 data"
proof -
  have "announce 0x100000001 \<in> set (user_cbs (effects (nodes run_both 0))) \<inter> set (user_cbs (effects (nodes run_both 1)))"
    by (simp add: run_both_def post_def run_both_calls)
  with executions_agree [OF run_steps(1) run_is_new run_both_run, of 0 1] run_unanswered
  show ?thesis by (simp del: One_nat_def)
qed

end
