(* ===== verification/GroupValidity.thy ===== *)
theory GroupValidity
  imports GroupData
begin

text \<open>
  Where the requests of a view come from: the components make none up. A run that serves the inputs
  \<open>D\<close> submits only these, at any node; a follower forwards what it is given to the leader, and
  whatever is executed is one of the inputs.
\<close>

section \<open>Runs that serve given inputs\<close>

inductive serve_step :: "'d env \<Rightarrow> nat \<Rightarrow> bytes set \<Rightarrow> 'd group \<Rightarrow> 'd group \<Rightarrow> bool" for E N D where
  receive: "\<lbrakk>i < N; src < N; (src, t, m) \<in> set (net s); addressed i src t; same_store E E';
     length (m @ rest) < 4294967296; my_role (nodes s i) = LEADER \<longrightarrow> room (nodes s i);
     consensus_handle_msg E' (m @ rest) (nodes s i) = Some c\<rbrakk> \<Longrightarrow> serve_step E N D s (post i c s)"
| submit: "\<lbrakk>i < N; same_store E E'; unat n < 4294967296; room (nodes s i); take (unat n) data \<in> D;
     consensus_submit_request E' n data (nodes s i) = Some (ret, vs, c)\<rbrakk> \<Longrightarrow>
     serve_step E N D s (post i c s)"
| progress: "\<lbrakk>i < N; same_store E E'; consensus_make_progress E' (nodes s i) = Some c\<rbrakk> \<Longrightarrow>
     serve_step E N D s (post i c s)"

lemma serve_group: "serve_step E N D s s' \<Longrightarrow> group_step E N s s'"
  by (induction rule: serve_step.induct) (blast intro: group_step.intros)+

lemma serve_all: "group_step E N s s' \<Longrightarrow> serve_step E N UNIV s s'"
  by (induction rule: group_step.induct) (blast intro: serve_step.intros UNIV_I)+

lemma serve_run_group: "(serve_step E N D)\<^sup>*\<^sup>* s s' \<Longrightarrow> (group_step E N)\<^sup>*\<^sup>* s s'"
  by (rule rtranclp_mono [THEN predicate2D, rotated]) (auto intro: serve_group)

section \<open>Only a submission at a follower forwards\<close>

definition quiet :: "('d, 'z) comp \<Rightarrow> ('d, 'z) comp \<Rightarrow> bool" where
  "quiet c c' \<longleftrightarrow> (\<exists>es. effects c' = effects c @ es \<and>
     (\<forall>(m, t) \<in> set (upcalls es). ld 4 0 m \<noteq> Some (con_code_val FORWARD_REQ)))"

lemma quiet_refl [simp]: "effects c' = effects c \<Longrightarrow> quiet c c'"
  by (simp add: quiet_def)

lemma quiet_trans: "quiet a b \<Longrightarrow> quiet b c \<Longrightarrow> quiet a c"
  unfolding quiet_def by fastforce

lemma quiet_executes: "only_executes c c' \<Longrightarrow> quiet c c'"
  by (fastforce simp: only_executes_def quiet_def)

lemmas quiet_tries = try_to_execute_executes [THEN quiet_executes]
  leader_try_to_execute_executes [THEN quiet_executes]

lemma quiet_send:
  "call_uc m t c = Some c' \<Longrightarrow> ld 4 0 m \<noteq> Some (con_code_val FORWARD_REQ) \<Longrightarrow> quiet c c'"
  by (auto simp: call_uc_def quiet_def split: if_splits)

lemma quiet_store [simp]: "quiet c (snd (store E c k b))"
  by (simp add: store_def split_beta)

lemma quiet_from:
  "quiet (c\<lparr>highest_seen_vs := a\<rparr>) c' = quiet c c'" "quiet (c\<lparr>highest_to_commit_vs := a\<rparr>) c' = quiet c c'"
  "quiet (snd (store E c k b)) c' = quiet c c'"
  by (simp_all add: quiet_def store_def split_beta)

lemma reply_codes:
  "build_accept_ack E c vs = Some (Some m) \<Longrightarrow> ld 4 0 m \<noteq> Some (con_code_val FORWARD_REQ)"
  "build_accept_req E c n b vs = Some (Some m) \<Longrightarrow> ld 4 0 m \<noteq> Some (con_code_val FORWARD_REQ)"
  "build_missing_ack E c vs = Some (Some m) \<Longrightarrow> ld 4 0 m \<noteq> Some (con_code_val FORWARD_REQ)"
  "build_force_exec E c = Some (Some m) \<Longrightarrow> ld 4 0 m \<noteq> Some (con_code_val FORWARD_REQ)"
  by (auto simp: build_accept_ack_def build_accept_req_def build_missing_ack_def build_force_exec_def
      enc_accept_ack_def enc_accept_req_def enc_missing_ack_def enc_force_exec_def layout Let_def
      split: option.splits if_splits dest!: alloc_fill_Some_SomeD)

lemma quiet_reply:
  assumes "(case m of None \<Rightarrow> Some c | Some msg \<Rightarrow> call_uc msg t c) = Some c'"
    and "\<And>msg. m = Some msg \<Longrightarrow> ld 4 0 msg \<noteq> Some (con_code_val FORWARD_REQ)"
  shows "quiet c c' \<and> highest_seen_vs c' = highest_seen_vs c"
  using assms by (auto simp: call_uc_def quiet_def split: option.splits if_splits)

text \<open>What a submission at the leader does: nothing if the record cannot be stored, else it counts the
  request and sends it, or executes it at once in a group of one.\<close>

lemma submit_cases:
  assumes "leader_handle_submit_req E n b c = Some (ret, vs, c')"
  obtains r payload st c1 c2 where "unat n \<le> length b" "payload = take (unat n) b" "rr_data_size r = n"
    "store E c (vstol (view_stamp_inc (highest_seen_vs c))) (enc_request_record r @ payload) = (st, c1)"
    "c2 = c1\<lparr>highest_seen_vs := view_stamp_inc (highest_seen_vs c1)\<rparr>"
    "c' = c1 \<and> st \<noteq> 0 \<or> st = 0 \<and> (c' = c2 \<or> try_to_execute E c2 = Some c' \<or>
      (\<exists>sz rd ws m t. build_accept_req E c2 sz rd ws = Some (Some m) \<and> call_uc m t c2 = Some c'))"
proof -
  have inc: "get_next_view_stamp c = view_stamp_inc (highest_seen_vs c)"
    by (simp add: view_stamp_inc_def get_next_view_stamp_def)
  from assms obtain bm payload where p: "node_bit (cc_node_id c) = Some bm" "ld_bytes (unat n) 0 b = Some payload"
    unfolding leader_handle_submit_req_def Let_def by auto
  then have pl: "unat n \<le> length b" "payload = take (unat n) b" by (auto simp: ld_bytes_def split: if_splits)
  define r where "r = \<lparr>rr_created_time = now E, rr_is_closed = 0, rr_bit_map = bm, rr_data_size = n\<rparr>"
  obtain st c1 where st: "store E c (vstol (view_stamp_inc (highest_seen_vs c))) (enc_request_record r @ payload) = (st, c1)"
    by (meson surj_pair)
  define c2 where "c2 = c1\<lparr>highest_seen_vs := view_stamp_inc (highest_seen_vs c1)\<rparr>"
  have "c' = c1 \<and> st \<noteq> 0 \<or> st = 0 \<and> (c' = c2 \<or> try_to_execute E c2 = Some c' \<or>
      (\<exists>sz rd ws m t. build_accept_req E c2 sz rd ws = Some (Some m) \<and> call_uc m t c2 = Some c'))"
    using assms p st
    by (auto simp: leader_handle_submit_req_def inc Let_def r_def [symmetric] c2_def [symmetric] alloc_fill_def
        split: option.splits if_splits)
  then show thesis using pl st by (intro that [of payload r st c1 c2]) (simp_all add: r_def c2_def)
qed

lemma quiet_submit:
  assumes "leader_handle_submit_req E n b c = Some (r, vs, c')"
  shows "quiet c c'"
proof (rule submit_cases [OF assms])
  fix r payload st c1 c2
  assume st: "store E c (vstol (view_stamp_inc (highest_seen_vs c))) (enc_request_record r @ payload) = (st, c1)"
    and c2: "c2 = c1\<lparr>highest_seen_vs := view_stamp_inc (highest_seen_vs c1)\<rparr>"
    and x: "c' = c1 \<and> st \<noteq> 0 \<or> st = 0 \<and> (c' = c2 \<or> try_to_execute E c2 = Some c' \<or>
      (\<exists>sz rd ws m t. build_accept_req E c2 sz rd ws = Some (Some m) \<and> call_uc m t c2 = Some c'))"
  have "effects c1 = effects c" using st by (auto simp: store_def split: prod.splits)
  then have q: "quiet c c1" "quiet c c2" by (simp_all add: c2)
  from x have "c' = c1 \<or> quiet c2 c'"
    using quiet_send reply_codes(2) quiet_tries(1) quiet_refl by metis
  with q show "quiet c c'" using quiet_trans by metis
qed

lemma quiet_accept_store:
  assumes "handle_accept_req_store E m b c = Some c'"
  shows "quiet c c'"
  using assms
  by (auto simp: handle_accept_req_store_def Let_def split_beta split: if_splits option.splits)
    (metis quiet_send quiet_from(3) reply_codes(1))

lemma quiet_handle:
  assumes "consensus_handle_msg E b c = Some c'"
  shows "quiet c c'"
  using assms
proof (cases rule: consensus_handle_msgE)
  case accept_req
  then show ?thesis
    by (auto simp: handle_accept_req_def Let_def quiet_from split: if_splits
        dest!: quiet_accept_store quiet_tries intro: quiet_trans)
next
  case accept_ack
  then show ?thesis
    by (auto simp: handle_accept_ack_def Let_def quiet_from split: if_splits option.splits dest!: quiet_tries)
next
  case missing_req
  then show ?thesis
    by (auto simp: handle_missing_req_def split: option.splits dest!: quiet_send [OF _ reply_codes(3)])
next
  case missing_ack
  then show ?thesis
    by (auto simp: handle_missing_ack_def Let_def quiet_from split: if_splits option.splits dest!: quiet_tries)
next
  case force_exec
  then show ?thesis
    by (auto simp: handle_force_exec_def quiet_from split: if_splits dest!: quiet_tries)
next
  case forward_req
  then show ?thesis
    by (auto simp: handle_forward_req_def split: if_splits dest!: quiet_submit)
qed simp

lemma resend_quiet:
  assumes "resend_all E c = Some c'" "vstol (highest_seen_vs c) \<noteq> - 1"
  shows "quiet c c' \<and> highest_seen_vs c' = highest_seen_vs c"
proof (cases "highest_committed_vs c < highest_seen_vs c \<and>
    vs_view_id (highest_seen_vs c) = v_view_id (cur_view c)")
  case False
  with assms(1) show ?thesis by (auto simp: resend_all_def)
next
  case True
  with assms(1) have "make_progress_loop E (vstol (highest_seen_vs c)) (vstol (progress_start c)) c = Some c'"
    by (simp add: resend_all_def)
  with assms(2) show ?thesis
  proof (rule progress.loop_invariant [where P = "\<lambda>c1. quiet c c1 \<and> highest_seen_vs c1 = highest_seen_vs c"])
    fix k c1 c2
    assume "quiet c c1 \<and> highest_seen_vs c1 = highest_seen_vs c" and "progress_body E k c1 = Some (Inr c2)"
    then show "quiet c c2 \<and> highest_seen_vs c2 = highest_seen_vs c"
      by (auto simp: progress_body_def call_uc_def split: option.splits if_splits)
        (fastforce simp: quiet_def dest: reply_codes(2))+
  next
    fix k and c1 r :: "('a, 'b) comp"
    assume "progress_body E k c1 = Some (Inl r)"
    then show "quiet c r \<and> highest_seen_vs r = highest_seen_vs c" using progress_body_Inr by fastforce
  qed auto
qed

lemma progress_quiet:
  assumes "consensus_make_progress E c = Some c'" "my_role c = LEADER" "vstol (highest_seen_vs c) \<noteq> - 1"
  shows "quiet c c' \<and> highest_seen_vs c' = highest_seen_vs c"
proof -
  from assms(1) obtain c1 c2 m where c1: "leader_try_to_execute E c = Some c1"
    and c2: "resend_all E c1 = Some c2" and m: "build_force_exec E c2 = Some m"
      "(case m of None \<Rightarrow> Some c2 | Some msg \<Rightarrow> call_uc msg (- 1) c2) = Some c'"
    unfolding make_progress_alt [OF assms(2)] by auto
  have s: "highest_seen_vs c1 = highest_seen_vs c"
    using leader_try_to_execute_executes [OF c1] by (simp add: only_executes_def)
  with assms(3) resend_quiet [OF c2] have "quiet c1 c2" "highest_seen_vs c2 = highest_seen_vs c" by simp_all
  moreover have "quiet c2 c' \<and> highest_seen_vs c' = highest_seen_vs c2"
    by (rule quiet_reply [OF m(2)]) (use m(1) reply_codes(4) in blast)
  ultimately show ?thesis using quiet_tries(2) [OF c1] quiet_trans by metis
qed

section \<open>What the leader numbers\<close>

lemma submit_data:
  assumes "leader_handle_submit_req E n b c = Some (ret, vs, c')" "bdb_contract E"
  shows "highest_seen_vs c' = highest_seen_vs c \<or>
    highest_seen_vs c' = view_stamp_inc (highest_seen_vs c) \<and>
    (\<forall>d. holds E c' (vstol (view_stamp_inc (highest_seen_vs c))) d \<longrightarrow> unat n \<le> length b \<and> d = take (unat n) b)"
proof (rule submit_cases [OF assms(1)])
  let ?vs = "view_stamp_inc (highest_seen_vs c)"
  fix r payload st c1 c2
  assume pl: "unat n \<le> length b" "payload = take (unat n) b"
    and st: "store E c (vstol ?vs) (enc_request_record r @ payload) = (st, c1)"
    and c2: "c2 = c1\<lparr>highest_seen_vs := view_stamp_inc (highest_seen_vs c1)\<rparr>"
    and x: "c' = c1 \<and> st \<noteq> 0 \<or> st = 0 \<and> (c' = c2 \<or> try_to_execute E c2 = Some c' \<or>
      (\<exists>sz rd ws m t. build_accept_req E c2 sz rd ws = Some (Some m) \<and> call_uc m t c2 = Some c'))"
  have c1: "highest_seen_vs c1 = highest_seen_vs c" using st by (auto simp: store_def split: prod.splits)
  show ?thesis
  proof (cases "st = 0")
    case False
    with x c1 show ?thesis by simp
  next
    case True
    then have "retrieve E c2 (vstol ?vs) = (0, Some (enc_request_record r @ payload))"
      using retrieve_store [OF assms(2) st, of "vstol ?vs"] by (simp add: c2)
    moreover from x True have "c' = c2 \<or> (\<exists>m t. call_uc m t c2 = Some c') \<or> only_executes c2 c'"
      using try_to_execute_executes by blast
    then have "highest_seen_vs c' = highest_seen_vs c2 \<and> retrieve E c' (vstol ?vs) = retrieve E c2 (vstol ?vs)"
      by (auto simp: call_uc_def only_executes_retrieve split: if_splits) (simp_all add: only_executes_def)
    ultimately show ?thesis using pl by (auto simp: holds_def c2 c1)
  qed
qed

lemma handle_msg_seen:
  assumes "consensus_handle_msg E b c = Some c'"
    and "ld 4 0 b \<noteq> Some (con_code_val ACCEPT_REQ)" "ld 4 0 b \<noteq> Some (con_code_val FORWARD_REQ)"
  shows "highest_seen_vs c' = highest_seen_vs c"
proof -
  have t: "try_to_execute E c1 = Some c' \<Longrightarrow> highest_seen_vs c' = highest_seen_vs c1" for c1
    by (auto dest!: try_to_execute_executes simp: only_executes_def)
  have st: "highest_seen_vs (snd (store E c k v)) = highest_seen_vs c" for k v
    by (simp add: store_def split_beta)
  show ?thesis
    using assms
    by (elim consensus_handle_msgE)
      (auto simp: handle_accept_ack_def handle_missing_req_def handle_missing_ack_def handle_force_exec_def
        call_uc_def Let_def st split: if_splits option.splits dest!: t)
qed

definition data_in :: "'d env \<Rightarrow> view_id_t \<Rightarrow> bytes set \<Rightarrow> ('d, 'z) comp \<Rightarrow> bool" where
  "data_in E v D L \<longleftrightarrow> (\<forall>k \<in> keys_to v (highest_seen_vs L). \<forall>d. holds E L k d \<longrightarrow> d \<in> D)"

definition forward_in :: "bytes set \<Rightarrow> bytes \<Rightarrow> bool" where
  "forward_in D m \<longleftrightarrow> (ld 4 0 m = Some (con_code_val FORWARD_REQ) \<longrightarrow>
     (\<exists>h payload. m = enc_forward_req h @ payload \<and> length payload = unat (fr_data_size h) \<and> payload \<in> D))"

lemma old_data:
  assumes "lead_inv E v N l others L" "data_in E v D L" "lead_mono E v L L'"
    and "k \<in> keys_to v (highest_seen_vs L)" "holds E L' k d"
  shows "d \<in> D"
proof -
  from assms(1,4) obtain d0 where d0: "holds E L k d0" by (fastforce simp: lead_inv_def backed_def holds_def)
  with assms(3,4) have "holds E L' k d0" by (simp add: lead_mono_def)
  with assms(5) holds_unique have "d = d0" by blast
  with assms(2,4) d0 show ?thesis by (auto simp: data_in_def)
qed

lemma data_in_old:
  assumes "lead_inv E v N l others L" "data_in E v D L" "lead_mono E v L L'" "highest_seen_vs L' = highest_seen_vs L"
  shows "data_in E v D L'"
  using old_data [OF assms(1-3)] assms(4) by (simp add: data_in_def)

lemma data_in_submit:
  assumes "lead_inv E v N l others L" "data_in E v D L" "lead_mono E v L L'" "bdb_contract E"
    and "leader_handle_submit_req E n b L = Some (ret, vs, L')"
    and "unat n \<le> length b \<Longrightarrow> take (unat n) b \<in> D" "vs_req_id (highest_seen_vs L) \<noteq> - 1"
  shows "data_in E v D L'"
proof (cases "highest_seen_vs L' = highest_seen_vs L")
  case True
  with data_in_old [OF assms(1-3)] show ?thesis .
next
  case False
  let ?vs = "view_stamp_inc (highest_seen_vs L)"
  from submit_data [OF assms(5,4)] False have s: "highest_seen_vs L' = ?vs"
    "\<And>d. holds E L' (vstol ?vs) d \<Longrightarrow> d \<in> D" using assms(6) by auto
  have "vs_view_id (highest_seen_vs L) = v" using assms(1) by (simp add: lead_inv_def within_def)
  from next_key(4) [OF this assms(7)]
  have "keys_to v ?vs = insert (vstol ?vs) (keys_to v (highest_seen_vs L))" .
  with s old_data [OF assms(1-3)] show ?thesis by (auto simp: data_in_def)
qed

section \<open>The invariant\<close>

definition valid :: "'d env \<Rightarrow> nat \<Rightarrow> view_id_t \<Rightarrow> bytes set \<Rightarrow> 'd group \<Rightarrow> bool" where
  "valid E l v D s \<longleftrightarrow> data_in E v D (nodes s l) \<and> (\<forall>(src, t, m) \<in> set (net s). forward_in D m)"

lemma same_store_data_in: "same_store E E' \<Longrightarrow> data_in E' = data_in E"
  by (simp add: data_in_def fun_eq_iff same_store_holds)

lemma same_store_mono: "same_store E E' \<Longrightarrow> lead_mono E' = lead_mono E"
  by (simp add: lead_mono_def fun_eq_iff same_store_holds)

lemma quiet_net:
  assumes "quiet (nodes s i) c" "\<forall>(src, t, m) \<in> set (net s). forward_in D m"
  shows "\<forall>(src, t, m) \<in> set (net (post i c s)). forward_in D m"
  using assms by (fastforce simp: quiet_def post_def new_calls_def forward_in_def)

lemma forward_net:
  assumes "forward_submit_req E n b c = Some (ret, vs, c')" "take (unat n) b \<in> D"
  shows "\<forall>(m, t) \<in> set (new_calls c c'). forward_in D m"
proof -
  from assms(1) obtain m where m: "build_forward_req E c n b = Some m"
    "(case m of None \<Rightarrow> Some c | Some msg \<Rightarrow> call_uc msg (ucast (v_leader_id (cur_view c))) c) = Some c'"
    unfolding forward_submit_req_def by (auto split: option.splits)
  show ?thesis
  proof (cases m)
    case None
    with m(2) show ?thesis by simp
  next
    case (Some msg)
    then have "msg = enc_forward_req \<lparr>fr_node_id = ucast (cc_node_id c), fr_data_size = n\<rparr> @ take (unat n) b \<and>
        unat n \<le> length b"
      using m(1) by (auto simp: build_forward_req_def ld_bytes_def split: if_splits dest!: alloc_fill_Some_SomeD)
    then have "forward_in D msg" using assms(2) unfolding forward_in_def
      by (intro impI exI [of _ "\<lparr>fr_node_id = ucast (cc_node_id c), fr_data_size = n\<rparr>"] exI [of _ "take (unat n) b"]) simp
    with Some m(2) show ?thesis by (auto simp: call_uc_def new_calls_def split: if_splits)
  qed
qed

text \<open>A forwarded request is read back as it was sent.\<close>

lemma forwarded_data:
  assumes "forward_in D m" "handle_forward_req E (m @ rest) c = Some c'" "my_role c = LEADER"
    and "ld 4 0 m = Some (con_code_val FORWARD_REQ)"
  obtains n b ret vs where "leader_handle_submit_req E n b c = Some (ret, vs, c')" "take (unat n) b \<in> D"
proof -
  from assms(1,4) obtain h payload where m: "m = enc_forward_req h @ payload"
    "length payload = unat (fr_data_size h)" "payload \<in> D"
    by (auto simp: forward_in_def)
  then have "dec_forward_req (m @ rest) = Some h" "drop forward_req_len (m @ rest) = payload @ rest"
    by (simp_all add: forward_req.dec_enc_append length_enc)
  with assms(2,3) obtain ret vs where "leader_handle_submit_req E (fr_data_size h) (payload @ rest) c = Some (ret, vs, c')"
    by (auto simp: handle_forward_req_def)
  moreover have "take (unat (fr_data_size h)) (payload @ rest) = payload" unfolding m(2) [symmetric] by simp
  ultimately show thesis using m(3) that by simp
qed

lemma leader_receive_valid:
  assumes "lead_inv E v N l others L" "data_in E v D L" "lead_mono E v L L'" "bdb_contract E"
    and "consensus_handle_msg E (m @ rest) L = Some L'" "msg_ok E v l L src sc m" "forward_in D m"
    and "src \<noteq> l" "room L"
  shows "data_in E v D L'"
proof (cases "ld 4 0 m = Some (con_code_val FORWARD_REQ)")
  case True
  then have "ld 4 0 (m @ rest) = Some (con_code_val FORWARD_REQ)" by (rule ld_front)
  then have "L' = L \<or> handle_forward_req E (m @ rest) L = Some L'"
    using assms(5) by (elim consensus_handle_msgE) auto
  then show ?thesis
  proof
    assume "handle_forward_req E (m @ rest) L = Some L'"
    from forwarded_data [OF assms(7) this lead_role [OF assms(1)] True] obtain n b ret vs where
      "leader_handle_submit_req E n b L = Some (ret, vs, L')" "take (unat n) b \<in> D" .
    with data_in_submit [OF assms(1-4)] assms(9) show ?thesis by (auto simp: room_def)
  qed (use assms(2) in simp)
next
  case False
  from assms(6) obtain w where w: "ld 4 0 m = Some w" "w \<noteq> con_code_val ACCEPT_REQ"
    by cases (use assms(8) in \<open>auto simp: benign_def enc_accept_ack_def enc_force_exec_def layout\<close>)
  from ld_front [OF w(1)] False w have "ld 4 0 (m @ rest) \<noteq> Some (con_code_val ACCEPT_REQ)"
    "ld 4 0 (m @ rest) \<noteq> Some (con_code_val FORWARD_REQ)" by auto
  from data_in_old [OF assms(1-3) handle_msg_seen [OF assms(5) this]] show ?thesis .
qed

lemma serve_step_valid:
  assumes "serve_step E N D s s'" "group_inv E N l v s" "valid E l v D s"
  shows "valid E l v D s'"
proof -
  let ?L = "nodes s l"
  have L: "lead_inv E v N l (nodes s) ?L" using assms(2) by (simp add: group_inv_def)
  have mono: "lead_mono E v ?L (nodes s' l)" using group_step_nodes [OF serve_group [OF assms(1)] assms(2)] by simp
  have old: "data_in E v D ?L" "\<forall>(src, t, m) \<in> set (net s). forward_in D m"
    using assms(3) by (simp_all add: valid_def)
  have b: "vstol (highest_seen_vs ?L) \<noteq> - 1" using L key_bound by (auto simp: lead_inv_def within_def)
  have role: "my_role (nodes s i) = LEADER \<longleftrightarrow> i = l" if "i < N" for i
    using that assms(2) by (cases "i = l") (auto simp: group_inv_def lead_inv_def foll_inv_def)
  from assms(1) show ?thesis
  proof cases
    case (receive i src t m E' rest c)
    have "data_in E v D (nodes s' l)"
    proof (cases "i = l")
      case False
      with old(1) receive(1) show ?thesis by (simp add: post_def)
    next
      case True
      have E': "bdb_contract E'" using receive(6) by (simp add: same_store_def)
      note eq = same_store_eq [OF receive(6)] same_store_data_in [OF receive(6)]
      have c: "nodes s' l = c" using receive(1) True by (simp add: post_def)
      have ok: "msg_ok E v l ?L src (nodes s src) m" "forward_in D m"
        using receive(4) assms(2) old(2) by (auto simp: group_inv_def)
      from receive(5,8) True role [OF receive(2)] have "src \<noteq> l" "room ?L" by (auto simp: addressed_def)
      with leader_receive_valid [of E' v N l "nodes s" ?L D c m rest src "nodes s src"] L old(1) mono E' receive(9) ok
      show ?thesis unfolding c True eq same_store_mono [OF receive(6)] by simp
    qed
    moreover have "quiet (nodes s i) c" by (rule quiet_handle [OF receive(9)])
    ultimately show ?thesis using quiet_net old(2) receive(1) unfolding valid_def by blast
  next
    case (submit i E' n data ret vs c)
    show ?thesis
    proof (cases "i = l")
      case True
      have E': "bdb_contract E'" using submit(3) by (simp add: same_store_def)
      note eq = same_store_eq [OF submit(3)] same_store_data_in [OF submit(3)] same_store_mono [OF submit(3)]
      have c: "nodes s' l = c" using submit(1) True by (simp add: post_def)
      have h: "leader_handle_submit_req E' n data ?L = Some (ret, vs, c)"
        using submit(7) lead_role [OF L] True by (simp add: consensus_submit_request_def)
      have "data_in E' v D c"
        using L old(1) mono submit(5,6) True
        by (intro data_in_submit [OF _ _ _ E' h]) (simp_all add: eq c room_def)
      with quiet_net [of s i c D] quiet_submit [OF h] old(2) True submit(1) c show ?thesis
        by (simp add: valid_def eq)
    next
      case False
      then have "forward_submit_req E' n data (nodes s i) = Some (ret, vs, c)"
        using submit(7) role [OF submit(2)] by (simp add: consensus_submit_request_def)
      from forward_net [OF this submit(6)] old False submit(1) show ?thesis
        by (auto simp: valid_def post_def)
    qed
  next
    case (progress i E' c)
    show ?thesis
    proof (cases "i = l")
      case True
      with progress(4) have "consensus_make_progress E' ?L = Some c" by simp
      from progress_quiet [OF this lead_role [OF L] b] data_in_old [OF L old(1) mono] quiet_net [of s i c D] old(2)
        True progress(1)
      show ?thesis by (simp add: valid_def post_def)
    next
      case False
      then have "c = nodes s i" using progress(4) role [OF progress(2)] by (simp add: consensus_make_progress_def)
      with old progress(1) show ?thesis by (simp add: valid_def post_def)
    qed
  qed
qed

lemma serve_run_valid:
  assumes "group_start N l v s0" "(serve_step E N D)\<^sup>*\<^sup>* s0 s"
  shows "valid E l v D s"
  using assms(2)
proof (induction rule: rtranclp_induct)
  case base
  have "keys_to v (highest_seen_vs (nodes s0 l)) = {}" "net s0 = []"
    using assms(1) by (fastforce simp: group_start_def consensus_update_role_def Let_def keys_to_def)+
  then show ?case by (simp add: valid_def data_in_def)
next
  case (step s s')
  have "group_reach E N l v s"
    using assms(1) serve_run_group [OF step(1)] unfolding group_reach_def by blast
  from serve_step_valid [OF step(2) group_reach_inv [OF this] step.IH] show ?case .
qed

text \<open>C8 nothing is executed that was not submitted: in every run of a view in which the proxies submit
  requests of a set \<open>D\<close>, at the leader or at followers that forward them, the leader's record of any
  request that any node has executed holds one of \<open>D\<close>, unchanged.\<close>

theorem executed_was_submitted:
  assumes "group_start N l v s0" "(serve_step E N D)\<^sup>*\<^sup>* s0 s" "i < N"
    and "announce k \<in> set (user_cbs (effects (nodes s i)))"
  shows "\<exists>data \<in> D. holds E (nodes s l) k data"
proof -
  have r: "group_reach E N l v s"
    using assms(1) serve_run_group [OF assms(2)] unfolding group_reach_def by blast
  have L: "lead_inv E v N l (nodes s) (nodes s l)" by (rule group_reachD [OF r assms(3)])
  have "k \<in> keys_to v (highest_to_commit_vs (nodes s l))" by (rule executed_key [OF r assms(3,4)])
  then have k: "k \<in> keys_to v (highest_seen_vs (nodes s l))"
    using L by (auto simp: lead_inv_def intro: keys_to_mono)
  with L obtain data where "holds E (nodes s l) k data" by (fastforce simp: lead_inv_def backed_def holds_def)
  with serve_run_valid [OF assms(1,2)] k show ?thesis by (auto simp: valid_def data_in_def)
qed

lemma serve_run: "(serve_step mem_env 3 {[7]})\<^sup>*\<^sup>* run_group run_end"
proof -
  have 1: "serve_step mem_env 3 {[7]} run_group (post 0 run_leader run_group)"
    by (rule serve_step.submit [OF _ run_states(6) _ run_states(3) _ run_calls(1)]) simp_all
  have 2: "serve_step mem_env 3 {[7]} (post 0 run_leader run_group)
      (post 1 run_follower (post 0 run_leader run_group))"
    by (rule serve_step.receive [OF _ _ run_states(1) _ run_states(6,7) _ run_calls(2)])
      (simp_all add: addressed_def run_states(4) del: append_Nil2 One_nat_def)
  have 3: "serve_step mem_env 3 {[7]} (post 1 run_follower (post 0 run_leader run_group)) run_end"
    unfolding run_end_def
    by (rule serve_step.receive [OF _ _ run_states(2) _ run_states(6,8) _ run_calls(3)])
      (simp_all add: addressed_def run_states(5) del: append_Nil2 One_nat_def)
  from 1 2 3 show ?thesis by (meson converse_rtranclp_into_rtranclp rtranclp.rtrancl_refl)
qed

theorem executed_was_submitted_witness: "holds mem_env (nodes run_end 0) 0x100000001 [7]"
  using executed_was_submitted [OF run_steps(1) serve_run, of 0 "0x100000001"] run_executed(1) by simp

end
