(* ===== verification/Servers.thy ===== *)
theory Servers
  imports ProxyProps GroupValidity
begin

text \<open>
  The replicated service as a whole: the consensus components of a view announce records to their
  proxies, and every proxy reads the announced records from its node's database and performs the
  requests in them on its own copy of the server. All servers perform the same requests in the same
  order, some perhaps later than others.
\<close>

section \<open>Performing requests\<close>

definition perform :: "'d env \<Rightarrow> u64 \<times> bytes \<Rightarrow> 'd proxy_node \<Rightarrow> 'd proxy_node option" where
  "perform E kd p = (let (k, data) = kd in do {
     p \<leftarrow> do_action_to_server E data
       (log_out (req_log p \<and> req_log_file p) [Log_request k] (p\<lparr>cur_rec := k\<rparr>));
     Some (p\<lparr>cur_rec := k + 1\<rparr>)
   })"

definition record_of :: "'d env \<Rightarrow> db option \<Rightarrow> 'd \<Rightarrow> u64 \<times> bytes \<Rightarrow> bool" where
  "record_of E h d kd \<longleftrightarrow> (\<exists>r. snd (retrieve_record E h (fst kd) d) = Some (enc_request_record r @ snd kd))"

lemma execute_record_perform:
  "record_of E (px_db_ptr p) d kd \<Longrightarrow> execute_record E d (fst kd) p = perform E kd p"
  by (auto simp: record_of_def execute_record_def perform_def request_record.dec_enc_append length_enc
      split: prod.split)

lemma feed_perform:
  assumes "\<forall>kd \<in> set log. record_of E (px_db_ptr p) d kd"
  shows "feed (execute_record E d) (map fst log) p = feed (perform E) log p"
  using assms
proof (induction log arbitrary: p)
  case (Cons kd log)
  have "feed (execute_record E d) (map fst log) q = feed (perform E) log q"
    if "perform E kd p = Some q" for q
    using that execute_record_perform [of E p d kd] execute_record_frame [of E d "fst kd" p q] Cons
    by auto
  with execute_record_perform [of E p d kd] Cons.prems show ?case by (auto split: Option.bind_split)
qed simp

section \<open>One node\<close>

lemma first_key: "vstol (VS v 0) + 1 = vstol (VS v 1)"
  using vstol_Suc [of "VS v 0"] by simp

text \<open>A proxy at the first record of the view that was told the numbers up to \<open>vs\<close>.\<close>

lemma reads_announced:
  assumes "vstol (VS v 0) \<noteq> - 1" "vstol vs \<noteq> - 1" "cur_rec p = vstol (VS v 1)" "h \<le> vstol (VS v 0)"
    and "highest_rec p = fold max (keys_after (VS v 0) vs) h"
    and "\<forall>k \<in> set (keys_after (VS v 0) vs). snd (retrieve_record E (px_db_ptr p) k d) \<noteq> None"
  shows "real_do_action E d p = feed (execute_record E d) (keys_after (VS v 0) vs) p"
proof (cases "VS v 0 < vs")
  case False
  then have "vstol vs \<le> vstol (VS v 0)" unfolding vstol_le_iff by (simp add: not_less)
  then have e: "keys_after (VS v 0) vs = []"
    by (rule key_range_empty [OF order_le_less_trans]) (rule word_less_plus_1 [OF assms(1)])
  have "vstol (VS v 0) < vstol (VS v 1)" using word_less_plus_1 [OF assms(1)] by (simp only: first_key)
  then have "highest_rec p < cur_rec p" using e assms(3-5) by (auto intro: order_le_less_trans)
  then show ?thesis unfolding e by (simp add: real_do_action_def do_action_loop_beyond)
next
  case True
  then have h: "highest_rec p = vstol vs" unfolding assms(5) by (rule highest_announced [OF assms(1) _ assms(4)])
  have "vstol vs \<in> set (keys_after (VS v 0) vs)" using True assms(1) by (simp add: set_keys_after)
  then have "vstol (VS v 1) \<le> vstol vs" by (simp add: set_key_range first_key)
  then have "real_do_action E d p = feed (execute_record E d) (key_range (cur_rec p) (highest_rec p)) p"
    unfolding real_do_action_def h assms(3) using assms(2,3,6)
    by (intro do_action_loop_all) (auto simp: set_key_range first_key)
  then show ?thesis unfolding h assms(3) first_key .
qed

lemma node_performs:
  assumes "group_reach E N l v s" "i < N" "highest_rec p \<le> vstol (VS v 0)" "cur_rec p = vstol (VS v 1)"
    and "px_db_ptr p = cc_db_ptr (nodes s i)"
    and "map fst log = keys_after (VS v 0) (highest_committed_vs (nodes s i))"
    and "\<forall>(k, data) \<in> set log. holds E (nodes s i) k data"
  shows "\<exists>p'. feed update_state (map snd (user_cbs (effects (nodes s i)))) p = Some p' \<and> pairs p' = pairs p \<and>
    proxy_do_action E (disk (nodes s i)) p' = feed (perform E) log p'"
proof -
  let ?c = "nodes s i" and ?ks = "keys_after (VS v 0) (highest_committed_vs (nodes s i))"
  have b: "vstol (VS v 0) \<noteq> - 1" "vstol (highest_committed_vs ?c) \<noteq> - 1"
    using group_reachD(1) [OF assms(1,2)] key_bound by (auto simp: within_def)
  obtain p' where p': "feed update_state (map snd (user_cbs (effects ?c))) p = Some p'" "pairs p' = pairs p"
    "cur_rec p' = cur_rec p" "px_db_ptr p' = px_db_ptr p"
    "highest_rec p' = fold max ?ks (highest_rec p)"
    using update_state_all [of ?ks p] unfolding group_reachD(3) [OF assms(1,2)]
    by (auto simp: comp_def announce_def)
  have r: "\<forall>kd \<in> set log. record_of E (px_db_ptr p') (disk ?c) kd"
    using assms(5,7) p'(4) by (fastforce simp: record_of_def holds_def retrieve_def)
  then have "\<forall>k \<in> set ?ks. snd (retrieve_record E (px_db_ptr p') k (disk ?c)) \<noteq> None"
    unfolding assms(6) [symmetric] by (auto simp: record_of_def)
  with b p'(3,5) assms(3,4) have "real_do_action E (disk ?c) p' = feed (execute_record E (disk ?c)) ?ks p'"
    by (intro reads_announced) simp_all
  then have "real_do_action E (disk ?c) p' = feed (perform E) log p'"
    unfolding assms(6) [symmetric] feed_perform [OF r] .
  with p'(1,2) show ?thesis by (auto simp: proxy_do_action_def)
qed

text \<open>A proxy that was just started is at record 0, which no component ever stores; its first wake-up takes
  it to the first record of view 1, which is where the theorems let the proxies of that view be.\<close>

lemma first_wake_up:
  assumes "cur_rec p = 0" "snd (retrieve_record E (px_db_ptr p) 0 d) = None"
  shows "real_do_action E d p = real_do_action E d (p\<lparr>cur_rec := vstol (VS 1 1)\<rparr>)"
proof -
  have "proxy_cross_view p = p\<lparr>cur_rec := vstol (VS 1 1)\<rparr>"
    using assms(1) by (simp add: proxy_cross_view_def two_views_keys)
  with assms show ?thesis
    by (simp add: real_do_action_def) (subst do_action_loop.simps, simp)
qed

section \<open>All nodes\<close>

lemma committed_behind_leader:
  assumes "group_reach E N l v s" "i < N"
  shows "highest_committed_vs (nodes s i) \<le> highest_committed_vs (nodes s l)"
proof -
  have "highest_committed_vs (nodes s i) \<le> highest_to_commit_vs (nodes s i)"
    using group_reachD(1) [OF assms] by (simp add: within_def)
  moreover have "highest_committed_vs (nodes s l) = highest_to_commit_vs (nodes s l)"
    using group_reachD(4) [OF assms] by (simp add: lead_inv_def level_def)
  ultimately show ?thesis using group_reachD(2) [OF assms] by simp
qed

lemma take_prefix: "prefix xs ys \<Longrightarrow> take (length xs) ys = xs"
  by (auto simp: prefix_def)

lemma leaders_log:
  assumes "group_reach E N l v s" "l < N"
  obtains log where "map fst log = keys_after (VS v 0) (highest_committed_vs (nodes s l))"
    "\<forall>(k, data) \<in> set log. holds E (nodes s l) k data"
proof -
  let ?ks = "keys_after (VS v 0) (highest_committed_vs (nodes s l))"
  have b: "vstol (VS v 0) \<noteq> - 1" "highest_committed_vs (nodes s l) \<le> highest_seen_vs (nodes s l)"
    using group_reachD(1,4) [OF assms] key_bound by (auto simp: within_def lead_inv_def)
  have "\<exists>d. holds E (nodes s l) k d" if "k \<in> set ?ks" for k
  proof -
    have "k \<in> keys_to v (highest_seen_vs (nodes s l))"
      using that b by (intro keys_to_mono [OF _ b(2)]) (simp add: set_keys_after keys_to_def)
    then have "backed E N l (nodes s) (nodes s l) k"
      using group_reachD(4) [OF assms] by (simp add: lead_inv_def)
    then show ?thesis by (auto simp: backed_def holds_def)
  qed
  then obtain f where f: "holds E (nodes s l) k (f k)" if "k \<in> set ?ks" for k by metis
  show thesis
    by (rule that [of "map (\<lambda>k. (k, f k)) ?ks"]) (use f in \<open>auto simp: comp_def\<close>)
qed

lemma nodes_log:
  assumes "group_start N l v s0" "view_is_new E N l v s0" "(group_step E N)\<^sup>*\<^sup>* s0 s" "unanswered i (net s)" "i < N"
    and "map fst log = keys_after (VS v 0) (highest_committed_vs (nodes s l))"
    and "\<forall>(k, data) \<in> set log. holds E (nodes s l) k data"
    and "ks = keys_after (VS v 0) (highest_committed_vs (nodes s i))"
  shows "length ks \<le> length log \<and> map fst (take (length ks) log) = ks \<and>
    (\<forall>(k, data) \<in> set (take (length ks) log). holds E (nodes s i) k data)"
proof -
  have r: "group_reach E N l v s" using assms(1,3) unfolding group_reach_def by blast
  have l: "l < N" using assms(1) by (simp add: group_start_def)
  have b: "vstol (VS v 0) \<noteq> - 1" "vstol (highest_committed_vs (nodes s j)) \<noteq> - 1"
    "VS v 0 \<le> highest_committed_vs (nodes s j)" if "j < N" for j
    using group_reachD(1) [OF r that] key_bound by (auto simp: within_def)
  have pre: "prefix ks (map fst log)"
    unfolding assms(6,8) using b(3) [OF assms(5)] b(2) [OF l] committed_behind_leader [OF r assms(5)]
    by (intro prefix_keys_after)
  then have m: "map fst (take (length ks) log) = ks" by (simp add: take_prefix flip: take_map)
  have "holds E (nodes s i) k d" if "(k, d) \<in> set (take (length ks) log)" for k d
  proof -
    have k: "holds E (nodes s l) k d" using in_set_takeD [OF that] assms(7) by blast
    have "fst (k, d) \<in> set ks" using imageI [OF that, of fst] m by (metis list.set_map)
    then have "k \<in> keys_to v (highest_committed_vs (nodes s i))"
      using b(1) [OF assms(5)] by (simp add: assms(8) set_keys_after keys_to_def)
    from executed_data [OF assms(3,1,2,4,5) this] k show ?thesis using holds_unique by metis
  qed
  moreover have "length ks \<le> length log" using prefix_length_le [OF pre] by simp
  ultimately show ?thesis using m by blast
qed

text \<open>C1 the servers are replicas: in every run of a view of which no follower has a record when it begins,
  whatever messages are lost, late, repeated or reordered, there is one sequence of requests, the
  leader's, of which every node's server performs a prefix, namely as many requests as its component
  has announced, in order and without a gap. This holds of every node to which no reply with a lost record
  was sent (\<open>unanswered\<close>): such a reply lacks the end of the record, and a node that takes it holds other
  data. Runs in which other nodes were sent such replies are included.\<close>

theorem servers_perform_one_log:
  assumes "group_start N l v s0" "view_is_new E N l v s0" "(group_step E N)\<^sup>*\<^sup>* s0 s"
    and "\<forall>i < N. px_db_ptr (p i) = cc_db_ptr (nodes s i) \<and> cur_rec (p i) = vstol (VS v 1) \<and>
      highest_rec (p i) \<le> vstol (VS v 0)"
  shows "\<exists>log. map fst log = keys_after (VS v 0) (highest_committed_vs (nodes s l)) \<and>
    (\<forall>(k, data) \<in> set log. holds E (nodes s l) k data) \<and>
    (\<forall>i < N. unanswered i (net s) \<longrightarrow> length (user_cbs (effects (nodes s i))) \<le> length log \<and>
      (\<exists>p'. feed update_state (map snd (user_cbs (effects (nodes s i)))) (p i) = Some p' \<and>
        pairs p' = pairs (p i) \<and>
        proxy_do_action E (disk (nodes s i)) p' =
          feed (perform E) (take (length (user_cbs (effects (nodes s i)))) log) p'))"
proof -
  have r: "group_reach E N l v s" using assms(1,3) unfolding group_reach_def by blast
  have "l < N" using assms(1) by (simp add: group_start_def)
  from leaders_log [OF r this] obtain log where
    log: "map fst log = keys_after (VS v 0) (highest_committed_vs (nodes s l))"
    "\<forall>(k, data) \<in> set log. holds E (nodes s l) k data" by blast
  have "length (user_cbs (effects (nodes s i))) \<le> length log \<and>
      (\<exists>p'. feed update_state (map snd (user_cbs (effects (nodes s i)))) (p i) = Some p' \<and>
        pairs p' = pairs (p i) \<and>
        proxy_do_action E (disk (nodes s i)) p' =
          feed (perform E) (take (length (user_cbs (effects (nodes s i)))) log) p')"
    if i: "i < N" and u: "unanswered i (net s)" for i
  proof -
    let ?ks = "keys_after (VS v 0) (highest_committed_vs (nodes s i))"
    have n: "length (user_cbs (effects (nodes s i))) = length ?ks"
      unfolding group_reachD(3) [OF r i] by simp
    from nodes_log [OF assms(1-3) u i log refl] have
      m: "length ?ks \<le> length log" "map fst (take (length ?ks) log) = ?ks"
      "\<forall>(k, data) \<in> set (take (length ?ks) log). holds E (nodes s i) k data" by blast+
    from node_performs [OF r i _ _ _ m(2,3), of "p i"] assms(4) i m(1) show ?thesis
      unfolding n by blast
  qed
  with log show ?thesis by blast
qed

section \<open>A run of three servers\<close>

text \<open>Node 0 submits a proxy's request to connect, node 1 stores it and acknowledges, node 0 executes it,
  and node 2 hears of nothing.\<close>

definition open_request :: bytes where
  "open_request = enc_proxy_header 0 \<lparr>pa_action = 0, pa_received_time = \<lparr>tv_sec = 1, tv_usec = 0\<rparr>,
     pa_created_time = \<lparr>tv_sec = 1, tv_usec = 0\<rparr>, pa_connection_id = 9, pa_counter = 0\<rparr>"

definition open_msg :: bytes where
  "open_msg = enc_accept_req \<lparr>ar_msg_vs = VS 1 1, ar_req_canbe_exed = VS 1 0, ar_node_id = 0,
     ar_data_size = 89\<rparr> @ enc_request_record \<lparr>rr_created_time = now mem_env, rr_is_closed = 0,
     rr_bit_map = 1, rr_data_size = 56\<rparr> @ open_request"

definition open_leader :: "mem_db consensus_component" where
  "open_leader = snd (snd (the (consensus_submit_request mem_env 56 open_request (run_node 0))))"

definition open_follower :: "mem_db consensus_component" where
  "open_follower = the (consensus_handle_msg mem_env open_msg (run_node 1))"

definition open_acked :: "mem_db consensus_component" where
  "open_acked = the (consensus_handle_msg mem_env run_ack open_leader)"

definition open_end :: "mem_db group" where
  "open_end = post 0 open_acked (post 1 open_follower (post 0 open_leader run_group))"

lemma open_leader_sends:
  "map_option (fst \<circ> snd) (consensus_submit_request mem_env 56 open_request (run_node 0)) = Some (Some (VS 1 1))"
  "new_calls (run_node 0) open_leader = [(open_msg, - 1)]"
  "highest_seen_vs open_leader = VS 1 1"
  by code_simp+

lemma open_follower_sends:
  "map_option (new_calls (run_node 1)) (consensus_handle_msg mem_env open_msg (run_node 1)) = Some [(run_ack, 0)]"
  by code_simp

lemma open_acked_sends:
  "map_option (\<lambda>c. (new_calls open_leader c, user_cbs (effects c)))
     (consensus_handle_msg mem_env run_ack open_leader) = Some ([], [announce 0x100000001])"
  by code_simp

lemma open_lengths: "length open_msg = 125" "length run_ack = 24"
  by code_simp+

lemma open_codes:
  "ld 4 0 open_msg = Some (con_code_val ACCEPT_REQ)" "ld 4 0 run_ack = Some (con_code_val ACCEPT_ACK)"
  by code_simp+

lemma open_steps:
  "consensus_submit_request mem_env 56 open_request (run_node 0) =
    Some (fst (the (consensus_submit_request mem_env 56 open_request (run_node 0))), Some (VS 1 1), open_leader)"
  "consensus_handle_msg mem_env open_msg (run_node 1) = Some open_follower"
  "consensus_handle_msg mem_env run_ack open_leader = Some open_acked"
  "new_calls (run_node 1) open_follower = [(run_ack, 0)]"
  "new_calls open_leader open_acked = []" "user_cbs (effects open_acked) = [announce 0x100000001]"
  using open_leader_sends(1) open_follower_sends open_acked_sends
  by (auto simp: open_leader_def open_follower_def open_acked_def)

lemma open_run:
  assumes "open_request \<in> D"
  shows "(serve_step mem_env 3 D)\<^sup>*\<^sup>* run_group open_end"
proof -
  have E: "same_store mem_env mem_env" by (simp add: same_store_def mem_env_bdb)
  let ?s1 = "post 0 open_leader run_group"
  let ?s2 = "post 1 open_follower ?s1"
  have n: "net ?s1 = [(0, - 1, open_msg)]" "nodes ?s1 0 = open_leader" "nodes ?s1 1 = run_node 1"
    "(1, 0, run_ack) \<in> set (net ?s2)" "nodes ?s2 0 = open_leader"
    using open_leader_sends(2) open_steps(4) by (simp_all add: post_def run_group_def)
  have r: "room (run_node i)" "room open_leader" for i
    by (simp_all add: room_def open_leader_sends(3) run_node_def consensus_update_role_def Let_def)
  have 1: "serve_step mem_env 3 D run_group ?s1"
  proof (rule serve_step.submit [OF _ E])
    show "consensus_submit_request mem_env 56 open_request (nodes run_group 0) = Some
      (fst (the (consensus_submit_request mem_env 56 open_request (run_node 0))), Some (VS 1 1), open_leader)"
      using open_steps(1) by (simp add: run_group_def)
    show "take (unat (56 :: u64)) open_request \<in> D" using assms by (simp add: open_request_def)
  qed (simp_all add: run_group_def r)
  have 2: "serve_step mem_env 3 D ?s1 ?s2"
  proof (rule serve_step.receive [OF _ _ _ _ E, where src = 0 and t = "- 1" and m = open_msg and rest = "[]"])
    show "consensus_handle_msg mem_env (open_msg @ []) (nodes ?s1 1) = Some open_follower"
      using open_steps(2) n(3) by simp
  qed (simp_all add: n [simplified] addressed_def r open_lengths)
  have 3: "serve_step mem_env 3 D ?s2 open_end" unfolding open_end_def
  proof (rule serve_step.receive [OF _ _ _ _ E, where src = 1 and t = 0 and m = run_ack and rest = "[]"])
    show "consensus_handle_msg mem_env (run_ack @ []) (nodes ?s2 0) = Some open_acked"
      using open_steps(3) n(5) by simp
  qed (simp_all add: n [simplified] addressed_def r open_lengths)
  from 1 2 3 show ?thesis by (meson converse_rtranclp_into_rtranclp rtranclp.rtrancl_refl)
qed

lemmas open_group_run = serve_run_group [OF open_run [OF insertI1]]

lemma open_end_facts:
  "unanswered i (net open_end)"
  "i < 3 \<Longrightarrow> cc_db_ptr (nodes open_end i) = Some \<lparr>bdb_ptr = Some ''d''\<rparr>"
  "user_cbs (effects (nodes open_end 0)) = [announce 0x100000001]"
proof -
  have "net open_end = [(0, - 1, open_msg), (1, 0, run_ack)]"
    using open_leader_sends(2) open_steps(4,5) by (simp add: open_end_def post_def run_group_def)
  then show "unanswered i (net open_end)" by (simp add: unanswered_def open_codes)
  show "user_cbs (effects (nodes open_end 0)) = [announce 0x100000001]"
    by (simp add: open_end_def post_def open_steps(6))
  have "cc_db_ptr (run_node k) = Some \<lparr>bdb_ptr = Some ''d''\<rparr>" for k
    by (simp add: run_node_def consensus_update_role_def demo_comp_def Let_def)
  moreover have "same_config (run_node 0) open_leader" "same_config (run_node 1) open_follower"
      "same_config open_leader open_acked"
    using consensus_submit_request_frame [OF open_steps(1)] consensus_handle_msg_frame [OF open_steps(2)]
      consensus_handle_msg_frame [OF open_steps(3)] by blast+
  ultimately have "cc_db_ptr open_acked = Some \<lparr>bdb_ptr = Some ''d''\<rparr>"
      "cc_db_ptr open_follower = Some \<lparr>bdb_ptr = Some ''d''\<rparr>"
    by (simp_all add: same_configD)
  then show "i < 3 \<Longrightarrow> cc_db_ptr (nodes open_end i) = Some \<lparr>bdb_ptr = Some ''d''\<rparr>"
    by (simp add: open_end_def post_def run_group_def run_node_def consensus_update_role_def demo_comp_def Let_def)
qed

theorem servers_perform_one_log_witness:
  "\<exists>log. log \<noteq> [] \<and> (\<forall>i < 3. \<exists>p'.
     feed update_state (map snd (user_cbs (effects (nodes open_end i)))) (view_proxy 0) = Some p' \<and>
     proxy_do_action mem_env (disk (nodes open_end i)) p' =
       feed (perform mem_env) (take (length (user_cbs (effects (nodes open_end i)))) log) p')"
proof -
  have "\<forall>i < 3. px_db_ptr (view_proxy 0) = cc_db_ptr (nodes open_end i) \<and>
      cur_rec (view_proxy 0) = vstol (VS 1 1) \<and> highest_rec (view_proxy 0) \<le> vstol (VS 1 0)"
    using open_end_facts(2) by (auto simp: view_proxy_def demo_proxy_def two_views_keys)
  from servers_perform_one_log [OF run_steps(1) run_is_new open_group_run this] open_end_facts(1)
  obtain log where log: "\<forall>i < 3. length (user_cbs (effects (nodes open_end i))) \<le> length log \<and> (\<exists>p'.
     feed update_state (map snd (user_cbs (effects (nodes open_end i)))) (view_proxy 0) = Some p' \<and>
     pairs p' = pairs (view_proxy 0) \<and>
     proxy_do_action mem_env (disk (nodes open_end i)) p' =
       feed (perform mem_env) (take (length (user_cbs (effects (nodes open_end i)))) log) p')"
    by blast
  then have "length (user_cbs (effects (nodes open_end 0))) \<le> length log" by simp
  then have "log \<noteq> []" by (auto simp: open_end_facts(3))
  with log show ?thesis by blast
qed

end
