(* ===== verification/ProxyRun.thy ===== *)
theory ProxyRun
  imports ProxyProps ElectionRuns
begin

text \<open>
  A proxy between \<open>proxy_init\<close> and the end of libevent's loop: \<open>proxy_step\<close> is one call of a callback
  (accept, reading, events, timers, signals), an announcement by the consensus thread, or the sending
  of what was written to a connection. What the callbacks rely on without testing it (\<open>proxy_ok\<close>) holds
  from the start on, so none of them ever uses a connection that was freed.
\<close>

section \<open>The event loop\<close>

definition proxy_ok :: "'d proxy_node \<Rightarrow> bool" where
  "proxy_ok p \<longleftrightarrow> con_conn p \<noteq> Dangling \<and> (\<exists>t. re_con p = Ptr t) \<and>
     (\<forall>sp \<in> set (pairs p). p_s sp \<noteq> Dangling \<and> p_c sp \<noteq> Dangling)"

inductive proxy_step :: "'d proxy_node \<Rightarrow> 'd proxy_node \<Rightarrow> bool" where
  accept: "proxy_on_accept E p = Some p' \<Longrightarrow> proxy_step p p'"
| client_read: "\<lbrakk>get_pair i p = Some sp; p_c sp = Ptr ws;
    client_side_on_read E i (input, p) = Some (rest, p')\<rbrakk> \<Longrightarrow> proxy_step p p'"
| client_event: "\<lbrakk>get_pair i p = Some sp; p_c sp = Ptr ws; client_side_on_err E i ev p = Some p'\<rbrakk> \<Longrightarrow>
    proxy_step p p'"
| server_read: "\<lbrakk>get_pair i p = Some sp; p_s sp = Ptr ws; server_side_on_read i (input, p) = Some (rest, p')\<rbrakk> \<Longrightarrow>
    proxy_step p p'"
| server_event: "\<lbrakk>get_pair i p = Some sp; p_s sp = Ptr ws; server_side_on_err E i ev p = Some p'\<rbrakk> \<Longrightarrow>
    proxy_step p p'"
| consensus_event: "\<lbrakk>con_conn p = Ptr ws; consensus_on_event ev p = Some p'\<rbrakk> \<Longrightarrow> proxy_step p p'"
| reconnect: "\<lbrakk>re_con p = Ptr (Some t); reconnect_on_timeout E (p\<lparr>re_con := Ptr None\<rparr>) = Some p'\<rbrakk> \<Longrightarrow>
    proxy_step p p'"
| announce: "update_state data p = Some p' \<Longrightarrow> proxy_step p p'"
| wake: "proxy_singnal_handler E d p = Some p' \<Longrightarrow> proxy_step p p'"
| poll: "proxy_do_action E d p = Some p' \<Longrightarrow> proxy_step p p'"
| term_signal: "proxy_step p (proxy_signal_term p)"
| sent_node: "con_conn p = Ptr ws \<Longrightarrow> proxy_step p (p\<lparr>con_conn := Ptr (drop k ws)\<rparr>)"
| sent_client: "\<lbrakk>get_pair i p = Some sp; p_c sp = Ptr ws\<rbrakk> \<Longrightarrow>
    proxy_step p (set_pair i (sp\<lparr>p_c := Ptr (drop k ws)\<rparr>) p)"
| sent_server: "\<lbrakk>get_pair i p = Some sp; p_s sp = Ptr ws\<rbrakk> \<Longrightarrow>
    proxy_step p (set_pair i (sp\<lparr>p_s := Ptr (drop k ws)\<rparr>) p)"

section \<open>The callbacks keep the shape\<close>

lemma proxy_ok_upd [simp]:
  "proxy_ok (p\<lparr>cur_rec := a\<rparr>) = proxy_ok p" "proxy_ok (p\<lparr>highest_rec := a\<rparr>) = proxy_ok p"
  "proxy_ok (p\<lparr>woken := b\<rparr>) = proxy_ok p" "proxy_ok (p\<lparr>req_out := ls\<rparr>) = proxy_ok p"
  "proxy_ok (p\<lparr>pair_count := n\<rparr>) = proxy_ok p" "proxy_ok (p\<lparr>con_node := cn\<rparr>) = proxy_ok p"
  "proxy_ok (p\<lparr>px_loop_exit := b\<rparr>) = proxy_ok p" "proxy_ok (p\<lparr>do_action := t\<rparr>) = proxy_ok p"
  by (simp_all add: proxy_ok_def)

lemma proxy_ok_log [simp]: "proxy_ok (log_out b ls p) = proxy_ok p"
  by (simp add: log_out_def)

lemma proxy_ok_pair:
  assumes "proxy_ok p" "get_pair i p = Some sp"
  shows "p_s sp \<noteq> Dangling" "p_c sp \<noteq> Dangling"
  using assms by (auto simp: proxy_ok_def get_pair_def split: if_splits)

lemma set_pair_ok:
  "proxy_ok p \<Longrightarrow> p_s sp \<noteq> Dangling \<Longrightarrow> p_c sp \<noteq> Dangling \<Longrightarrow> proxy_ok (set_pair i sp p)"
  using set_update_subset_insert [of "pairs p" i sp] by (auto simp: proxy_ok_def set_pair_def)

lemma set_pair_ends_ok:
  assumes "proxy_ok p" "get_pair i p = Some sp"
  shows "s \<noteq> Dangling \<Longrightarrow> proxy_ok (set_pair i (sp\<lparr>p_s := s\<rparr>) p)"
    and "c \<noteq> Dangling \<Longrightarrow> proxy_ok (set_pair i (sp\<lparr>p_c := c\<rparr>) p)"
    and "proxy_ok (set_pair i (sp\<lparr>sp_counter := n\<rparr>) p)"
  using proxy_ok_pair [OF assms] by (auto intro!: set_pair_ok [OF assms(1)])

lemma new_pair_ok: "new_pair E key p = Some (i, p') \<Longrightarrow> proxy_ok p \<Longrightarrow> proxy_ok p'"
  by (auto simp: new_pair_def proxy_ok_def)

lemma write_ok [simp]: "bufferevent_write c m \<noteq> Some Dangling"
  by (cases c) auto

lemma close_conn_ok: "close_conn c = Some c' \<Longrightarrow> c' = NULL"
  by (cases c) auto

lemma submit_for_pair_ok:
  assumes "submit_for_pair E i type n data p = Some p'" "proxy_ok p"
  shows "proxy_ok p'"
proof -
  from assms(1) obtain pair m where pair: "get_pair i p = Some pair"
    "(case con_conn (set_pair i (pair\<lparr>sp_counter := sp_counter pair + 1\<rparr>) p) of
        NULL \<Rightarrow> Some (set_pair i (pair\<lparr>sp_counter := sp_counter pair + 1\<rparr>) p)
      | c \<Rightarrow> do {
          c \<leftarrow> bufferevent_write c (req_sub_bytes E m);
          Some ((set_pair i (pair\<lparr>sp_counter := sp_counter pair + 1\<rparr>) p)\<lparr>con_conn := c\<rparr>)
        }) = Some p'"
    unfolding submit_for_pair_def Let_def by auto
  have "proxy_ok (set_pair i (pair\<lparr>sp_counter := sp_counter pair + 1\<rparr>) p)"
    by (rule set_pair_ends_ok(3) [OF assms(2) pair(1)])
  with pair(2) show ?thesis
    by (auto simp: proxy_ok_def split: ptr.splits)
qed

lemma client_data_ok: "client_process_data E i n s = Some s' \<Longrightarrow> proxy_ok (snd s) \<Longrightarrow> proxy_ok (snd s')"
  by (cases s) (auto simp: client_process_data_def Let_def split: option.splits if_splits dest: submit_for_pair_ok)

lemma client_read_ok: "client_side_on_read E i s = Some s' \<Longrightarrow> proxy_ok (snd s) \<longrightarrow> proxy_ok (snd s')"
proof (rule client_side_on_read.raw_induct [where P = "\<lambda>E i s s'. proxy_ok (snd s) \<longrightarrow> proxy_ok (snd s')"])
  fix loop E i and s s' :: "bytes \<times> 'a proxy_node"
  assume IH: "\<And>E i s s'. loop E i s = Some (s' :: bytes \<times> 'a proxy_node) \<Longrightarrow> proxy_ok (snd s) \<longrightarrow> proxy_ok (snd s')"
    and eq: "(if CLIENT_MSG_HEADER_SIZE \<le> length (fst s) then
        if malloc_usable E CLIENT_MSG_HEADER_SIZE = None then Some s
        else do {
          header \<leftarrow> dec_client_header (fst s);
          if unat (16 + ch_data_size header) \<le> length (fst s) then do {
            s \<leftarrow> client_process_data E i (ch_data_size header) s;
            loop E i s
          }
          else Some s
        }
      else Some s) = Some s'"
  show "proxy_ok (snd s) \<longrightarrow> proxy_ok (snd s')"
    using eq by (auto split: if_splits dest!: IH dest: client_data_ok)
qed

lemma do_action_send_ok: "do_action_send data p = Some p' \<Longrightarrow> proxy_ok p \<Longrightarrow> proxy_ok p'"
  by (auto simp: do_action_send_def Option.bind_eq_Some_conv split: option.splits if_splits
      intro!: set_pair_ends_ok(1))

lemma do_action_close_ok: "do_action_close data p = Some p' \<Longrightarrow> proxy_ok p \<Longrightarrow> proxy_ok p'"
  by (auto simp: do_action_close_def split: option.splits dest!: close_conn_ok intro!: set_pair_ok)

lemma do_action_connect_ok:
  assumes "do_action_connect E data p = Some p'" "proxy_ok p"
  shows "proxy_ok p'"
proof -
  from assms(1) obtain header i q ret where q: "dec_proxy_header data = Some header"
    "(case hash_get (pa_connection_id header) (pairs p) of
        None \<Rightarrow> new_pair E (pa_connection_id header) p | Some i \<Rightarrow> Some (i, p)) = Some (i, q)"
    "get_pair i q = Some ret"
    and p': "(if p_s ret = NULL then
        if bufferevent_new_ok E then Some (set_pair i (ret\<lparr>p_s := Ptr []\<rparr>) q) else None
      else Some q) = Some p'"
    unfolding do_action_connect_def by (auto split: Option.bind_splits prod.splits)
  from q(2) assms(2) have ok: "proxy_ok q" by (auto split: option.splits dest: new_pair_ok)
  with p' show ?thesis by (auto split: if_splits intro!: set_pair_ends_ok(1) [OF ok q(3)])
qed

lemma do_action_to_server_ok:
  assumes "do_action_to_server E data p = Some p'" "proxy_ok p"
  shows "proxy_ok p'"
proof -
  from assms(1) obtain header q where h: "dec_proxy_header data = Some header"
    and q: "(case proxy_action_of (pa_action header) of
         Some P_CONNECT \<Rightarrow> do_action_connect E data (log_out (req_log p \<and> req_log_file p) [Log_connects]
           (log_out (ts_log p \<and> req_log p \<and> req_log_file p) [Log_times (pa_connection_id header)
             (pa_received_time header) (pa_created_time header)] p))
       | Some P_SEND \<Rightarrow> do_action_send data (log_out (req_log p \<and> req_log_file p) [Log_sends]
           (log_out (ts_log p \<and> req_log p \<and> req_log_file p) [Log_times (pa_connection_id header)
             (pa_received_time header) (pa_created_time header)] p))
       | Some P_CLOSE \<Rightarrow> do_action_close data (log_out (req_log p \<and> req_log_file p) [Log_closes]
           (log_out (ts_log p \<and> req_log p \<and> req_log_file p) [Log_times (pa_connection_id header)
             (pa_received_time header) (pa_created_time header)] p))
       | None \<Rightarrow> Some (log_out (ts_log p \<and> req_log p \<and> req_log_file p) [Log_times (pa_connection_id header)
             (pa_received_time header) (pa_created_time header)] p)) = Some q"
    and p': "proxy_ok q \<Longrightarrow> proxy_ok p'"
    unfolding do_action_to_server_def Let_def by (auto split: Option.bind_splits)
  from q assms(2) have "proxy_ok q"
    by (auto split: option.splits proxy_action.splits
        dest!: do_action_connect_ok do_action_send_ok do_action_close_ok)
  then show ?thesis by (rule p')
qed

lemma do_action_loop_ok: "do_action_loop E d h p = Some p' \<Longrightarrow> proxy_ok p \<longrightarrow> proxy_ok p'"
proof (rule do_action_loop.raw_induct [where P = "\<lambda>E d h p p'. proxy_ok p \<longrightarrow> proxy_ok p'"])
  fix loop E d h and p p' :: "'a proxy_node"
  assume IH: "\<And>E d h p p'. loop E d h p = Some (p' :: 'a proxy_node) \<Longrightarrow> proxy_ok p \<longrightarrow> proxy_ok p'"
    and eq: "(if cur_rec p \<le> h then
        (case snd (retrieve_record E (px_db_ptr p) (cur_rec p) d) of
           None \<Rightarrow> loop E d h (proxy_cross_view p)
         | Some data \<Rightarrow> do {
             r \<leftarrow> dec_request_record data;
             p \<leftarrow> do_action_to_server E (drop request_record_len data)
               (log_out (req_log p \<and> req_log_file p) [Log_request (cur_rec p)] p);
             loop E d h (p\<lparr>cur_rec := cur_rec p + 1\<rparr>)
           })
      else Some p) = Some p'"
  show "proxy_ok p \<longrightarrow> proxy_ok p'"
    using eq by (auto simp: proxy_cross_view_def split: if_splits option.splits dest!: IH
        dest: do_action_to_server_ok)
qed

lemma accept_ok:
  assumes "proxy_on_accept E p = Some p'" "proxy_ok p"
  shows "proxy_ok p'"
proof (cases "con_conn p = NULL")
  case False
  from False assms(1) obtain i q pair where q: "get_pair i q = Some pair"
    "new_pair E (gen_key (px_node_id p) (pair_count p) (tv_sec (now E)))
       (p\<lparr>pair_count := pair_count p + 1\<rparr>) = Some (i, q)"
    and p': "submit_for_pair E i P_CONNECT 0 [] (set_pair i (pair\<lparr>p_c := Ptr []\<rparr>) q) = Some p'"
    unfolding proxy_on_accept_def Let_def by (auto split: Option.bind_splits prod.splits if_splits)
  from new_pair_ok [OF q(2)] assms(2) have "proxy_ok q" by simp
  then show ?thesis by (intro submit_for_pair_ok [OF p'] set_pair_ends_ok(2) [OF _ q(1)]) simp_all
qed (use assms in \<open>simp add: proxy_on_accept_def\<close>)

lemma server_read_ok: "server_side_on_read i s = Some s' \<Longrightarrow> proxy_ok (snd s) \<Longrightarrow> proxy_ok (snd s')"
  by (cases s) (auto simp: server_side_on_read_def split: Option.bind_splits if_splits ptr.splits
      intro!: set_pair_ends_ok(2))

lemma proxy_step_ok: "proxy_step p p' \<Longrightarrow> proxy_ok p \<Longrightarrow> proxy_ok p'"
proof (induction rule: proxy_step.induct)
  case (client_read i p sp ws E input rest p')
  from client_read_ok [OF client_read(3)] client_read(4) show ?case by simp
next
  case (server_read i p sp ws input rest p')
  from server_read_ok [OF server_read(3)] server_read(4) show ?case by simp
next
  case (wake E d p p')
  from do_action_loop_ok [OF wake(1) [unfolded proxy_singnal_handler_def real_do_action_def]] wake(2)
  show ?case by simp
next
  case (poll E d p p')
  from do_action_loop_ok [OF poll(1) [unfolded proxy_do_action_def real_do_action_def]] poll(2)
  show ?case by simp
next
  case (consensus_event p ws ev p')
  then show ?case
    by (cases ev; cases "re_con p") (auto simp: consensus_on_event_def proxy_ok_def)
next
  case (client_event i p sp ws E ev p')
  then show ?case
    by (auto simp: client_side_on_err_def split: bev_event.splits dest: submit_for_pair_ok)
next
  case (server_event i p sp ws E ev p')
  then show ?case
    by (auto simp: server_side_on_err_def split: bev_event.splits dest: submit_for_pair_ok)
next
  case (announce data p p')
  then show ?case by (auto simp: update_state_def wake_up_def)
next
  case (reconnect p t E p')
  then show ?case
    by (auto simp: reconnect_on_timeout_def connect_consensus_def proxy_ok_def split: if_splits)
next
  case (sent_client i p sp ws k)
  then show ?case by (simp add: set_pair_ends_ok)
next
  case (sent_server i p sp ws k)
  then show ?case by (simp add: set_pair_ends_ok)
next
  case (term_signal p)
  then show ?case by (simp add: proxy_signal_term_def)
next
  case (sent_node p ws k)
  then show ?case by (simp add: proxy_ok_def)
qed (rule accept_ok)


section \<open>Initialisation\<close>

lemma require_Some: "require m p k = Some (0, q) \<Longrightarrow> \<exists>x. m = Some x \<and> k x = Some (0, q)"
  by (auto simp: require_def split: option.splits)

lemma proxy_read_config_kept:
  assumes "proxy_read_config E L path p = Some (0, q)"
  shows "pairs q = pairs p \<and> con_conn q = con_conn p"
  using assms
  by (auto simp: proxy_read_config_def read_proxy_global_def Let_def split: if_splits option.splits
      dest!: require_Some)

lemma proxy_init_kept:
  assumes "proxy_init E L nid start path lg fk d = Some (Some p0)"
  shows "pairs p0 = [] \<and> con_conn p0 = NULL"
proof -
  from assms obtain q where q: "proxy_read_config E L path (blank_proxy nid fk) = Some (0, q)"
    "pairs p0 = pairs q \<and> con_conn p0 = con_conn q"
    by (auto simp: proxy_init_def Let_def bind_eq_Some_conv split: if_splits option.splits prod.splits)
  from proxy_read_config_kept [OF q(1)] q(2) show ?thesis by (simp add: blank_proxy_def)
qed

lemma proxy_run_ok:
  assumes "proxy_run E p0 = Some p1" "pairs p0 = []" "event_new_ok E"
  shows "proxy_ok p1"
  using assms by (auto simp: proxy_run_def connect_consensus_def proxy_ok_def evtimer_new_def bind_eq_Some_conv
      split: if_splits)

lemma started_proxy_ok:
  assumes "proxy_init E L nid start path lg fk d = Some (Some p0)" "proxy_run E p0 = Some p1" "event_new_ok E"
    and "proxy_step\<^sup>*\<^sup>* p1 p"
  shows "proxy_ok p"
  using assms(4)
proof (induction rule: rtranclp_induct)
  case base
  show ?case using proxy_run_ok [OF assms(2) _ assms(3)] proxy_init_kept [OF assms(1)] by blast
qed (rule proxy_step_ok)

section \<open>The callbacks return\<close>

definition rich :: "'d env \<Rightarrow> bool" where
  "rich E \<longleftrightarrow> malloc_contract E \<and> (\<forall>n. malloc_usable E n \<noteq> None) \<and> bufferevent_new_ok E"

abbreviation client_limit :: nat where "client_limit \<equiv> 18446744073709551536"

lemma build_returns:
  assumes "rich E" "type = P_SEND \<longrightarrow> n = of_nat (length data) \<and> length data < client_limit"
  shows "build_req_sub_msg E key c type n data \<noteq> None"
proof (cases "type = P_SEND")
  case True
  then have n: "unat n = length data" using assms(2) by (simp add: unat_of_nat_small)
  have "unat (80 + n) = 80 + unat n"
    using assms(2) True n by (simp add: unat_word_ariths)
  moreover obtain k where "malloc_usable E (unat (80 + n)) = Some k" using assms(1) by (auto simp: rich_def)
  ultimately have "80 + unat n \<le> k" "malloc_usable E (unat (80 + n)) = Some k"
    using assms(1) by (fastforce simp: rich_def malloc_contract_def)+
  with True n show ?thesis by (simp add: build_req_sub_msg_def ld_bytes_def)
next
  case False
  with assms(1) show ?thesis
    by (cases type) (auto simp: build_req_sub_msg_def rich_def split: option.splits)
qed

lemma submit_returns:
  assumes "rich E" "proxy_ok p" "i < length (pairs p)"
    and "type = P_SEND \<longrightarrow> n = of_nat (length data) \<and> length data < client_limit"
  shows "\<exists>p'. submit_for_pair E i type n data p = Some p' \<and> proxy_ok p' \<and> length (pairs p') = length (pairs p)"
proof -
  obtain m where "build_req_sub_msg E (sp_key (pairs p ! i)) (sp_counter (pairs p ! i)) type n data = Some m"
    using build_returns [OF assms(1,4)] by blast
  moreover have "con_conn p \<noteq> Dangling" using assms(2) by (simp add: proxy_ok_def)
  ultimately have "\<exists>p'. submit_for_pair E i type n data p = Some p' \<and> length (pairs p') = length (pairs p)"
    using assms(3) by (cases "con_conn p") (auto simp: submit_for_pair_def get_pair_def set_pair_def Let_def)
  with submit_for_pair_ok assms(2) show ?thesis by blast
qed

lemma requests_return:
  assumes "rich E" "proxy_ok p" "i < length (pairs p)" "\<forall>data \<in> set calls. length data < client_limit"
  shows "\<exists>p'. feed (\<lambda>data. submit_for_pair E i P_SEND (of_nat (length data)) data) calls p = Some p'"
  using assms(2-4)
proof (induction calls arbitrary: p)
  case (Cons data calls)
  have "\<exists>q. submit_for_pair E i P_SEND (of_nat (length data)) data p = Some q \<and> proxy_ok q \<and>
      length (pairs q) = length (pairs p)"
    by (rule submit_returns [OF assms(1) Cons.prems(1,2)]) (use Cons.prems(3) in simp)
  with Cons show ?case by auto
qed simp

lemma client_calls_return:
  assumes "rich E" "proxy_ok p" "i < length (pairs p)" "\<forall>data \<in> set calls. length data < client_limit"
    and "client_partial tail"
  shows "\<exists>p'. client_side_on_read E i (concat (map (client_request E') calls) @ tail, p) = Some (tail, p')"
proof -
  have m: "\<forall>k. malloc_usable E k \<noteq> None" using assms(1) by (simp add: rich_def)
  have f: "\<forall>f \<in> set (map (client_request E') calls). client_frame f"
    using assms(4) by (auto intro!: client_request_frame(1))
  have "feed (client_request_of E i) (map (client_request E') calls) p =
      feed (\<lambda>data. submit_for_pair E i P_SEND (of_nat (length data)) data) calls p"
    unfolding feed_map by (rule feed_cong) (use assms(4) in \<open>auto simp: client_request_frame(2)\<close>)
  with requests_return [OF assms(1-4)] client_stream.reads [of "map (client_request E') calls" E tail i p] f m assms(5)
  show ?thesis by auto
qed

lemma accept_returns:
  assumes "rich E" "proxy_ok p"
  shows "\<exists>p'. proxy_on_accept E p = Some p' \<and>
    length (pairs p') = length (pairs p) + (if con_conn p = NULL then 0 else 1)"
proof (cases "con_conn p = NULL")
  case False
  let ?key = "gen_key (px_node_id p) (pair_count p) (tv_sec (now E))"
  let ?q = "p\<lparr>pair_count := pair_count p + 1,
    pairs := pairs p @ [\<lparr>sp_key = ?key, sp_counter = 0, p_s = NULL, p_c = Ptr []\<rparr>]\<rparr>"
  have q: "proxy_ok ?q" using assms(2) by (auto simp: proxy_ok_def)
  from assms(1) obtain k where k: "malloc_usable E 96 = Some k" "bufferevent_new_ok E" by (auto simp: rich_def)
  then have "proxy_on_accept E p = submit_for_pair E (length (pairs p)) P_CONNECT 0 [] ?q"
    using False by (simp add: proxy_on_accept_def new_pair_def get_pair_def set_pair_def Let_def)
  with submit_returns [OF assms(1) q, of "length (pairs p)" P_CONNECT] False show ?thesis by auto
qed (simp add: proxy_on_accept_def)

lemma reply_reaches_client:
  assumes "proxy_ok p" "i < length (pairs p)"
  shows "\<exists>p'. server_side_on_read i (input, p) = Some ([], p') \<and>
    pairs p' = (case p_c (pairs p ! i) of
      Ptr ws \<Rightarrow> (pairs p)[i := (pairs p ! i)\<lparr>p_c := Ptr (ws @ (if input = [] then [] else [input]))\<rparr>]
    | _ \<Rightarrow> pairs p)"
proof -
  have g: "get_pair i p = Some (pairs p ! i)" using assms(2) by (simp add: get_pair_def)
  with proxy_ok_pair(2) [OF assms(1)] have "p_c (pairs p ! i) \<noteq> Dangling" by blast
  moreover have "(pairs p)[i := (pairs p ! i)\<lparr>p_c := p_c (pairs p ! i)\<rparr>] = pairs p" by simp
  ultimately show ?thesis using g
    by (cases "p_c (pairs p ! i)") (auto simp: server_side_on_read_def set_pair_def)
qed

section \<open>A proxy performs requests\<close>

text \<open>What a proxy can perform: a request with a whole header and, for \<open>P_SEND\<close>, as much data as it
  announces. Everything that \<open>build_req_sub_msg\<close> makes is such a request.\<close>

definition performable :: "bytes \<Rightarrow> bool" where
  "performable data \<longleftrightarrow> (\<exists>h. dec_proxy_header data = Some h \<and> (proxy_action_of (pa_action h) = Some P_SEND \<longrightarrow>
     (\<exists>n payload. ld 8 PROXY_MSG_HEADER_SIZE data = Some (n :: u64) \<and> ld_bytes (unat n) PROXY_SEND_LEN data = Some payload)))"

lemma built_performable:
  assumes "build_req_sub_msg E key c t n input = Some m"
  shows "performable (enc_proxy_header pad ((fst m)\<lparr>pa_received_time := received\<rparr>) @ snd m)"
proof -
  let ?h = "(fst m)\<lparr>pa_received_time := received\<rparr>"
  have a: "proxy_action_of (pa_action ?h) = Some t"
    using assms by (cases t) (auto simp: build_req_sub_msg_def bind_eq_Some_conv Let_def split: if_splits)
  have d: "dec_proxy_header (enc_proxy_header pad ?h @ snd m) = Some ?h"
    by (simp add: proxy_header.dec_enc_append)
  have "t = P_SEND \<Longrightarrow> \<exists>payload. snd m = le 8 n @ payload \<and> unat n = length payload"
    using assms by (auto simp: build_req_sub_msg_def bind_eq_Some_conv ld_bytes_def split: if_splits)
  then have "t = P_SEND \<Longrightarrow> ld 8 PROXY_MSG_HEADER_SIZE (enc_proxy_header pad ?h @ snd m) = Some n \<and>
      (\<exists>payload. ld_bytes (unat n) PROXY_SEND_LEN (enc_proxy_header pad ?h @ snd m) = Some payload)"
    by (auto simp: layout)
  with a d show ?thesis unfolding performable_def by (intro exI [of _ ?h]) auto
qed

lemma hash_get_bound: "hash_get k ps = Some i \<Longrightarrow> i < length ps"
  by (auto simp: hash_get_def find_Some_iff rev_nth)

lemma do_action_send_returns:
  assumes "proxy_ok p" "dec_proxy_header data = Some h"
    and "ld 8 PROXY_MSG_HEADER_SIZE data = Some (n :: u64)" "ld_bytes (unat n) PROXY_SEND_LEN data = Some payload"
  shows "\<exists>q. do_action_send data p = Some q"
proof (cases "hash_get (pa_connection_id h) (pairs p)")
  case (Some i)
  then have g: "get_pair i p = Some (pairs p ! i)" using hash_get_bound by (simp add: get_pair_def)
  from proxy_ok_pair(1) [OF assms(1) g] assms(2-4) Some g show ?thesis
    by (cases "p_s (pairs p ! i)") (simp_all add: do_action_send_def)
qed (use assms(2) in \<open>simp add: do_action_send_def\<close>)

lemma do_action_close_returns:
  assumes "proxy_ok p" "dec_proxy_header data = Some h"
  shows "\<exists>q. do_action_close data p = Some q"
proof (cases "hash_get (pa_connection_id h) (pairs p)")
  case (Some i)
  then have g: "get_pair i p = Some (pairs p ! i)" using hash_get_bound by (simp add: get_pair_def)
  from proxy_ok_pair [OF assms(1) g] assms(2) Some g show ?thesis
    by (cases "p_s (pairs p ! i)"; cases "p_c (pairs p ! i)") (simp_all add: do_action_close_def)
qed (use assms(2) in \<open>simp add: do_action_close_def\<close>)

lemma do_action_connect_returns:
  assumes "rich E" "dec_proxy_header data = Some h"
  shows "\<exists>q. do_action_connect E data p = Some q"
proof (cases "hash_get (pa_connection_id h) (pairs p)")
  case (Some i)
  then have "get_pair i p = Some (pairs p ! i)" using hash_get_bound by (simp add: get_pair_def)
  with assms Some show ?thesis by (simp add: do_action_connect_def rich_def)
next
  case None
  obtain k where "malloc_usable E 96 = Some k" using assms(1) by (auto simp: rich_def)
  with assms None show ?thesis by (simp add: do_action_connect_def new_pair_def get_pair_def rich_def)
qed

lemma do_action_to_server_returns:
  assumes "rich E" "proxy_ok p" "performable data"
  shows "\<exists>q. do_action_to_server E data p = Some q \<and> proxy_ok q"
proof -
  from assms(3) obtain h where h: "dec_proxy_header data = Some h" by (auto simp: performable_def)
  let ?o = "req_log p \<and> req_log_file p"
  let ?p = "log_out (ts_log p \<and> ?o) [Log_times (pa_connection_id h) (pa_received_time h) (pa_created_time h)] p"
  have s: "\<exists>q. do_action_send data (log_out ?o [Log_sends] ?p) = Some q"
    if "proxy_action_of (pa_action h) = Some P_SEND"
  proof -
    from assms(3) h that obtain n payload where d: "ld 8 PROXY_MSG_HEADER_SIZE data = Some (n :: u64)"
      "ld_bytes (unat n) PROXY_SEND_LEN data = Some payload" by (auto simp: performable_def)
    show ?thesis using assms(2) by (intro do_action_send_returns [OF _ h d]) simp
  qed
  have c: "\<exists>q. do_action_close data (log_out ?o [Log_closes] ?p) = Some q"
    using assms(2) by (intro do_action_close_returns [OF _ h]) simp
  have "\<exists>q. do_action_to_server E data p = Some q"
  proof (cases "proxy_action_of (pa_action h)")
    case (Some a)
    with h s c do_action_connect_returns [OF assms(1) h, of "log_out ?o [Log_connects] ?p"] show ?thesis
      by (cases a) (auto simp: do_action_to_server_def Let_def)
  qed (simp add: do_action_to_server_def h Let_def)
  with do_action_to_server_ok assms(2) show ?thesis by blast
qed

text \<open>A wake-up, when the database has a request that can be performed under every announced number.\<close>

definition performable_record :: "'d env \<Rightarrow> db option \<Rightarrow> 'd \<Rightarrow> u64 \<Rightarrow> bool" where
  "performable_record E h d k \<longleftrightarrow> (\<exists>r data. snd (retrieve_record E h k d) = Some (enc_request_record r @ data) \<and>
     performable data)"

lemma execute_record_returns:
  assumes "rich E" "proxy_ok p" "performable_record E (px_db_ptr p) d k"
  shows "\<exists>q. execute_record E d k p = Some q \<and> proxy_ok q"
proof -
  from assms(3) obtain r data where r: "snd (retrieve_record E (px_db_ptr p) k d) = Some (enc_request_record r @ data)"
    "performable data" by (auto simp: performable_record_def)
  have "proxy_ok (log_out (req_log p \<and> req_log_file p) [Log_request k] (p\<lparr>cur_rec := k\<rparr>))" using assms(2) by simp
  from do_action_to_server_returns [OF assms(1) this r(2)] r(1) show ?thesis
    by (auto simp: execute_record_def request_record.dec_enc_append length_enc)
qed

lemma execute_records_return:
  assumes "rich E" "proxy_ok p" "\<forall>k \<in> set ks. performable_record E (px_db_ptr p) d k"
  shows "\<exists>q. feed (execute_record E d) ks p = Some q \<and> proxy_ok q"
  using assms(2,3)
proof (induction ks arbitrary: p)
  case (Cons k ks)
  then obtain q where q: "execute_record E d k p = Some q" "proxy_ok q"
    using execute_record_returns [OF assms(1)] by fastforce
  with Cons.IH [OF q(2)] execute_record_frame [OF q(1)] Cons.prems(2) show ?case by simp
qed simp

lemma wake_up_returns:
  assumes "rich E" "proxy_ok p" "highest_rec p \<noteq> - 1"
    and "\<forall>k. cur_rec p \<le> k \<and> k \<le> highest_rec p \<longrightarrow> performable_record E (px_db_ptr p) d k"
  shows "\<exists>q. real_do_action E d p = Some q \<and> proxy_ok q"
proof (cases "cur_rec p \<le> highest_rec p")
  case True
  have "\<forall>k. cur_rec p \<le> k \<and> k \<le> highest_rec p \<longrightarrow> snd (retrieve_record E (px_db_ptr p) k d) \<noteq> None"
    using assms(4) by (auto simp: performable_record_def)
  then have "real_do_action E d p = feed (execute_record E d) (key_range (cur_rec p) (highest_rec p)) p"
    unfolding real_do_action_def by (rule do_action_loop_all [OF refl True assms(3)])
  with execute_records_return [OF assms(1,2)] assms(4) show ?thesis by (simp add: set_key_range)
qed (use assms(2) in \<open>simp add: real_do_action_def do_action_loop_beyond\<close>)

section \<open>A reached proxy\<close>

text \<open>C13 the callbacks of a started proxy return: whatever callbacks have run since the start, in whatever
  order, and as long as memory and connections can be had (\<open>rich\<close>), the proxy accepts clients and takes
  events of clients, of servers and of its node; it takes the messages of a client up to an incomplete last
  one, when each has less than \<open>2 ^ 64 - 80\<close> bytes of data; it takes announcements of a whole record
  number; it passes the server's output on to the client or drops it when that is gone; and a wake-up, or
  the timer for it, executes the announced records and returns, when the database has a performable
  request under each of their numbers. No freed connection is ever used. Fake mode, in which the node's
  callback is another one, is left out.\<close>

theorem reached_proxy_serves:
  assumes "proxy_init E L nid start path lg fk d = Some (Some p0)" "proxy_run E p0 = Some p1" "event_new_ok E"
    and "proxy_step\<^sup>*\<^sup>* p1 p" "rich E'"
  shows "(\<exists>p'. proxy_on_accept E' p = Some p' \<and>
      length (pairs p') = length (pairs p) + (if con_conn p = NULL then 0 else 1)) \<and>
    (\<forall>ev. \<exists>p'. consensus_on_event ev p = Some p') \<and> (\<exists>p'. reconnect_on_timeout E' p = Some p') \<and>
    (\<forall>data. 8 \<le> length data \<longrightarrow> (\<exists>p'. update_state data p = Some p')) \<and>
    (\<forall>db. highest_rec p \<noteq> - 1 \<and>
        (\<forall>k. cur_rec p \<le> k \<and> k \<le> highest_rec p \<longrightarrow> performable_record E' (px_db_ptr p) db k) \<longrightarrow>
      (\<exists>p'. proxy_singnal_handler E' db p = Some p') \<and> (\<exists>p'. proxy_do_action E' db p = Some p')) \<and>
    (\<forall>i < length (pairs p).
      (\<forall>ev. \<exists>p'. client_side_on_err E' i ev p = Some p') \<and> (\<forall>ev. \<exists>p'. server_side_on_err E' i ev p = Some p') \<and>
      (\<forall>calls tail. (\<forall>data \<in> set calls. length data < client_limit) \<longrightarrow> client_partial tail \<longrightarrow>
        (\<exists>p'. client_side_on_read E' i (concat (map (client_request E') calls) @ tail, p) = Some (tail, p'))) \<and>
      (\<forall>input. \<exists>p'. server_side_on_read i (input, p) = Some ([], p') \<and>
        pairs p' = (case p_c (pairs p ! i) of
            Ptr ws \<Rightarrow> (pairs p)[i := (pairs p ! i)\<lparr>p_c := Ptr (ws @ (if input = [] then [] else [input]))\<rparr>]
          | _ \<Rightarrow> pairs p)))"
proof -
  have ok: "proxy_ok p" by (rule started_proxy_ok [OF assms(1-4)])
  have "\<exists>p'. submit_for_pair E' i P_CLOSE 0 [] p = Some p'" if "i < length (pairs p)" for i
    using submit_returns [OF assms(5) ok that, of P_CLOSE] by blast
  then have err: "\<exists>p'. client_side_on_err E' i ev p = Some p'" "\<exists>p'. server_side_on_err E' i ev p = Some p'"
    if "i < length (pairs p)" for i ev
    using that by (simp_all add: client_side_on_err_def server_side_on_err_def split: bev_event.split)
  have con: "\<exists>p'. consensus_on_event ev p = Some p'" for ev
    using ok by (auto simp: consensus_on_event_def proxy_ok_def split: bev_event.split)
  have rec: "\<exists>p'. reconnect_on_timeout E' p = Some p'"
    using assms(5) by (simp add: reconnect_on_timeout_def connect_consensus_def rich_def)
  have ann: "\<exists>p'. update_state data p = Some p'" if "8 \<le> length data" for data
    using that by (simp add: update_state_def ld_def)
  have wake: "(\<exists>p'. proxy_singnal_handler E' db p = Some p') \<and> (\<exists>p'. proxy_do_action E' db p = Some p')"
    if "highest_rec p \<noteq> - 1 \<and>
      (\<forall>k. cur_rec p \<le> k \<and> k \<le> highest_rec p \<longrightarrow> performable_record E' (px_db_ptr p) db k)" for db
    using wake_up_returns [OF assms(5), of "p\<lparr>woken := False\<rparr>" db] wake_up_returns [OF assms(5) ok, of db] ok that
    by (auto simp: proxy_singnal_handler_def proxy_do_action_def)
  show ?thesis
    using accept_returns [OF assms(5) ok] con rec err ann wake client_calls_return [OF assms(5) ok]
      reply_reaches_client [OF ok]
    by (intro conjI allI impI) (fact | simp)+
qed

text \<open>A configuration of one node with its proxy; the proxy is started and accepts a client.\<close>

definition proxy_setting :: setting where
  "proxy_setting = SGroup [(''group_size'', SInt 1),
     (''consensus_config'', SList [SGroup [(''ip_address'', SString ''10.0.0.1''), (''port'', SInt 8000),
       (''db_name'', SString ''n0'')]]),
     (''proxy_config'', SList [SGroup [(''ip_address'', SString ''10.0.0.1''), (''port'', SInt 9000),
       (''db_name'', SString ''p0'')]]),
     (''server_config'', SList [SGroup [(''ip_address'', SString ''127.0.0.1''), (''port'', SInt 80)]])]"

definition proxy_started :: "log_db proxy_node option option" where
  "proxy_started = proxy_init log_env (tree_config proxy_setting) 0 ''s'' ''f'' None False []"

lemma log_env_rich: "rich log_env" "event_new_ok log_env"
  by (auto simp: rich_def malloc_contract_def log_env_def glibc_usable_ge)

lemma proxy_started_accepts:
  "case proxy_started of
     Some (Some p0) \<Rightarrow>
       (case Option.bind (proxy_run log_env p0) (proxy_on_accept log_env) of
          Some p \<Rightarrow> length (pairs p) = 1 \<and> p_c (pairs p ! 0) = Ptr [] | None \<Rightarrow> False)
   | _ \<Rightarrow> False"
  by code_simp

theorem reached_proxy_serves_witness:
  "\<exists>p0 p1 p p'. proxy_started = Some (Some p0) \<and> proxy_run log_env p0 = Some p1 \<and>
    proxy_on_accept log_env p1 = Some p \<and> server_side_on_read 0 ([5], p) = Some ([], p') \<and>
    p_c (pairs p' ! 0) = Ptr [[5]]"
proof -
  from proxy_started_accepts obtain p0 p1 p where s: "proxy_started = Some (Some p0)" "proxy_run log_env p0 = Some p1"
    "proxy_on_accept log_env p1 = Some p" "length (pairs p) = 1" "p_c (pairs p ! 0) = Ptr []"
    by (auto split: option.splits simp: bind_eq_Some_conv)
  have "proxy_step\<^sup>*\<^sup>* p1 p" using proxy_step.accept [OF s(3)] by (rule r_into_rtranclp)
  note serves = reached_proxy_serves [OF s(1) [unfolded proxy_started_def] s(2) log_env_rich(2) this log_env_rich(1)]
  from serves have "\<forall>input. \<exists>p'. server_side_on_read 0 (input, p) = Some ([], p') \<and>
      pairs p' = (case p_c (pairs p ! 0) of
          Ptr ws \<Rightarrow> (pairs p)[0 := (pairs p ! 0)\<lparr>p_c := Ptr (ws @ (if input = [] then [] else [input]))\<rparr>]
        | _ \<Rightarrow> pairs p)"
    using s(4) by (elim conjE) simp
  then obtain p' where "server_side_on_read 0 ([5], p) = Some ([], p')"
    "pairs p' = (pairs p)[0 := (pairs p ! 0)\<lparr>p_c := Ptr ([] @ [[5]])\<rparr>]"
    using s(5) by fastforce
  with s show ?thesis by auto
qed

end
