(* ===== verification/ServersReturn.thy ===== *)
theory ServersReturn
  imports Servers ProxyRun
begin

text \<open>
  The whole service returns: what proxies submit can be performed by every proxy, nothing else reaches
  a server in a view that only proxies submit to, and so no server is ever stuck at a request.
\<close>

section \<open>What proxies submit\<close>

text \<open>The requests that \<open>build_req_sub_msg\<close> can make, with any time of receipt.\<close>

definition proxy_requests :: "'d env \<Rightarrow> bytes set" where
  "proxy_requests E = {data. \<exists>E' key c t n input m received pad. same_store E E' \<and>
     build_req_sub_msg E' key c t n input = Some m \<and>
     data = enc_proxy_header pad ((fst m)\<lparr>pa_received_time := received\<rparr>) @ snd m}"

section \<open>A proxy performs them\<close>

lemma perform_returns:
  assumes "rich E" "proxy_ok p" "performable data"
  shows "\<exists>q. perform E (k, data) p = Some q \<and> proxy_ok q \<and> cur_rec q = k + 1"
proof -
  have "proxy_ok (log_out (req_log p \<and> req_log_file p) [Log_request k] (p\<lparr>cur_rec := k\<rparr>))" using assms(2) by simp
  from do_action_to_server_returns [OF assms(1) this assms(3)] show ?thesis by (auto simp: perform_def)
qed

lemma performs_return:
  assumes "rich E" "proxy_ok p" "\<forall>(k, data) \<in> set log. performable data"
  shows "\<exists>q. feed (perform E) log p = Some q \<and> proxy_ok q \<and>
    cur_rec q = (if log = [] then cur_rec p else fst (last log) + 1)"
  using assms(2,3)
proof (induction log arbitrary: p)
  case (Cons kd log)
  obtain k data where kd: "kd = (k, data)" by (cases kd)
  with Cons.prems obtain r where r: "perform E kd p = Some r" "proxy_ok r" "cur_rec r = k + 1"
    using perform_returns [OF assms(1)] by fastforce
  have "\<forall>(k, data) \<in> set log. performable data" using Cons.prems(2) by simp
  from Cons.IH [OF r(2) this] r kd show ?case by auto
qed simp

section \<open>The service\<close>

lemma update_state_ok: "feed update_state ds p = Some p' \<Longrightarrow> proxy_ok p \<Longrightarrow> proxy_ok p' \<and> cur_rec p' = cur_rec p"
proof (induction ds arbitrary: p)
  case (Cons d ds)
  then obtain q where q: "update_state d p = Some q" "feed update_state ds q = Some p'"
    by (auto simp: bind_eq_Some_conv)
  then have "proxy_ok q \<and> cur_rec q = cur_rec p" using Cons.prems(2) by (auto simp: update_state_def wake_up_def)
  with Cons.IH [OF q(2)] show ?case by simp
qed simp

lemma log_performable:
  assumes "group_start N l v s0" "(serve_step E N D)\<^sup>*\<^sup>* s0 s" "D \<subseteq> Collect performable" "l < N"
    and "map fst log = keys_after (VS v 0) (highest_committed_vs (nodes s l))"
    and "\<forall>(k, data) \<in> set log. holds E (nodes s l) k data"
  shows "\<forall>(k, data) \<in> set log. performable data"
proof -
  have r: "group_reach E N l v s"
    using assms(1) serve_run_group [OF assms(2)] unfolding group_reach_def by blast
  have b: "vstol (VS v 0) \<noteq> - 1" "highest_committed_vs (nodes s l) \<le> highest_seen_vs (nodes s l)"
    using group_reachD(1,4) [OF r assms(4)] key_bound by (auto simp: within_def lead_inv_def)
  have "k \<in> keys_to v (highest_seen_vs (nodes s l))" if "(k, data) \<in> set log" for k data
  proof -
    have "k \<in> set (keys_after (VS v 0) (highest_committed_vs (nodes s l)))"
      using imageI [OF that, of fst] assms(5) by (metis fst_conv list.set_map)
    with b show ?thesis by (intro keys_to_mono [OF _ b(2)]) (simp add: set_keys_after keys_to_def)
  qed
  with serve_run_valid [OF assms(1,2)] assms(3,6) show ?thesis by (fastforce simp: valid_def data_in_def)
qed

lemma announced_end:
  assumes "group_reach E N l v s" "i < N"
    and "ks = keys_after (VS v 0) (highest_committed_vs (nodes s i))"
  shows "(if ks = [] then vstol (VS v 1) else last ks + 1) = vstol (highest_committed_vs (nodes s i)) + 1"
proof -
  have b: "vstol (VS v 0) \<noteq> - 1" "VS v 0 \<le> highest_committed_vs (nodes s i)"
    using group_reachD(1) [OF assms(1,2)] key_bound by (auto simp: within_def)
  show ?thesis
  proof (cases "VS v 0 = highest_committed_vs (nodes s i)")
    case True
    have "ks = []" unfolding assms(3) True [symmetric]
      by (rule key_range_empty) (rule word_less_plus_1 [OF b(1)])
    with True show ?thesis by (simp flip: first_key)
  next
    case False
    with b(2) have "vstol (VS v 0) < vstol (highest_committed_vs (nodes s i))"
      by (simp add: vstol_less_iff order_less_le)
    then have "vstol (VS v 0) + 1 \<le> vstol (highest_committed_vs (nodes s i))"
      by (simp add: inc_le)
    from last_key_range [OF this] show ?thesis unfolding assms(3) by simp
  qed
qed

text \<open>C2 no server gets stuck: in every run of a view of which no follower has a record when it begins and
  to which only proxies submit, every node's proxy takes the announcements it gets, and a wake-up performs
  all of the announced requests and returns, when memory and connections can be had (\<open>rich\<close>). This
  holds of every node to which no reply with a lost record was sent (\<open>unanswered\<close>), as the record that such
  a reply stores is cut short and need not be a request.\<close>

theorem servers_never_stuck:
  assumes "group_start N l v s0" "view_is_new E N l v s0" "(serve_step E N (proxy_requests E))\<^sup>*\<^sup>* s0 s"
    and "rich E"
    and "\<forall>i < N. proxy_ok (p i) \<and> px_db_ptr (p i) = cc_db_ptr (nodes s i) \<and> cur_rec (p i) = vstol (VS v 1) \<and>
      highest_rec (p i) \<le> vstol (VS v 0)"
  shows "\<forall>i < N. unanswered i (net s) \<longrightarrow> (\<exists>p' q. feed update_state (map snd (user_cbs (effects (nodes s i)))) (p i) = Some p' \<and>
    proxy_do_action E (disk (nodes s i)) p' = Some q \<and> proxy_ok q \<and>
    cur_rec q = vstol (highest_committed_vs (nodes s i)) + 1)"
proof (intro allI impI)
  fix i
  assume i: "i < N" and u: "unanswered i (net s)"
  have g: "(group_step E N)\<^sup>*\<^sup>* s0 s" by (rule serve_run_group [OF assms(3)])
  then have r: "group_reach E N l v s" using assms(1) unfolding group_reach_def by blast
  have l: "l < N" using assms(1) by (simp add: group_start_def)
  from leaders_log [OF r l] obtain log where
    log: "map fst log = keys_after (VS v 0) (highest_committed_vs (nodes s l))"
    "\<forall>(k, data) \<in> set log. holds E (nodes s l) k data" by blast
  let ?ks = "keys_after (VS v 0) (highest_committed_vs (nodes s i))"
  let ?mine = "take (length ?ks) log"
  from nodes_log [OF assms(1,2) g u i log refl] have
    m: "map fst ?mine = ?ks" "\<forall>(k, data) \<in> set ?mine. holds E (nodes s i) k data" by blast+
  from node_performs [OF r i _ _ _ m, of "p i"] assms(5) i obtain p' where
    p': "feed update_state (map snd (user_cbs (effects (nodes s i)))) (p i) = Some p'"
    "proxy_do_action E (disk (nodes s i)) p' = feed (perform E) ?mine p'" by blast
  have ok: "proxy_ok p'" "cur_rec p' = vstol (VS v 1)" using update_state_ok [OF p'(1)] assms(5) i by auto
  have "proxy_requests E \<subseteq> Collect performable"
    unfolding proxy_requests_def using built_performable by blast
  from log_performable [OF assms(1,3) this l log]
  have "\<forall>(k, data) \<in> set ?mine. performable data" by (meson in_set_takeD)
  from performs_return [OF assms(4) ok(1) this] obtain q where
    q: "feed (perform E) ?mine p' = Some q" "proxy_ok q"
    "cur_rec q = (if ?mine = [] then cur_rec p' else fst (last ?mine) + 1)" by blast
  have "?mine = [] \<longleftrightarrow> ?ks = []" "?mine \<noteq> [] \<Longrightarrow> fst (last ?mine) = last ?ks"
    using m(1) by (metis list.map_disc_iff) (metis last_map m(1))
  with q(3) ok(2) announced_end [OF r i refl] have "cur_rec q = vstol (highest_committed_vs (nodes s i)) + 1"
    by (auto split: if_splits)
  with p' q show "\<exists>p' q. feed update_state (map snd (user_cbs (effects (nodes s i)))) (p i) = Some p' \<and>
      proxy_do_action E (disk (nodes s i)) p' = Some q \<and> proxy_ok q \<and>
      cur_rec q = vstol (highest_committed_vs (nodes s i)) + 1" by auto
qed

lemma open_request_submitted: "open_request \<in> proxy_requests mem_env"
proof -
  let ?E = "mem_env\<lparr>now := \<lparr>tv_sec = 1, tv_usec = 0\<rparr>\<rparr>"
  have "same_store mem_env ?E" using mem_env_bdb by (simp add: same_store_def bdb_contract_def)
  moreover obtain m where "build_req_sub_msg ?E 9 0 P_CONNECT 0 [] = Some m"
    "open_request = enc_proxy_header 0 ((fst m)\<lparr>pa_received_time := \<lparr>tv_sec = 1, tv_usec = 0\<rparr>\<rparr>) @ snd m"
    by (auto simp: build_req_sub_msg_def open_request_def mem_env_def)
  ultimately show ?thesis unfolding proxy_requests_def by blast
qed

lemma mem_env_rich: "rich mem_env"
  using mem_env_malloc by (simp add: rich_def mem_env_def)

theorem servers_never_stuck_witness:
  "\<exists>p' q. feed update_state (map snd (user_cbs (effects (nodes open_end 0))))
      ((view_proxy 0)\<lparr>re_con := Ptr None\<rparr>) = Some p' \<and>
    proxy_do_action mem_env (disk (nodes open_end 0)) p' = Some q \<and> proxy_ok q \<and>
    cur_rec q = vstol (highest_committed_vs (nodes open_end 0)) + 1"
proof -
  have "\<forall>i < 3. proxy_ok ((view_proxy 0)\<lparr>re_con := Ptr None\<rparr>) \<and>
      px_db_ptr ((view_proxy 0)\<lparr>re_con := Ptr None\<rparr>) = cc_db_ptr (nodes open_end i) \<and>
      cur_rec ((view_proxy 0)\<lparr>re_con := Ptr None\<rparr>) = vstol (VS 1 1) \<and>
      highest_rec ((view_proxy 0)\<lparr>re_con := Ptr None\<rparr>) \<le> vstol (VS 1 0)"
    using open_end_facts(2) by (auto simp: view_proxy_def demo_proxy_def two_views_keys proxy_ok_def)
  from servers_never_stuck [OF run_steps(1) run_is_new open_run [OF open_request_submitted]
      mem_env_rich this, THEN spec, of 0] open_end_facts(1)
  show ?thesis by simp
qed

end
