(* ===== verification/Spec2Isabelle.thy ===== *)
theory Spec2Isabelle
  imports ConsensusErrors GroupLiveness NodeRun ServersReturn
begin

text \<open>
  Verification development of libevent_paxos, a library in C that replicates a network server by
  agreeing on one sequence of client requests.

  \<^bold>\<open>The program\<close>

  Every replica runs a proxy in front of a copy of the real server, and a node in a second thread.
  A client (with \<open>src/client-ld-preload\<close> preloaded, which wraps what it sends) talks to a proxy;
  the proxy (\<open>src/src/proxy/proxy.c\<close>) turns connecting, sending and closing into requests and
  submits them to its node. The node (\<open>src/src/replica-sys/replica.c\<close>) exchanges messages with its
  peers, hands them to the consensus component (\<open>src/src/consensus/consensus.c\<close>), and elects a new
  leader when the pings of the leader stop. The consensus component numbers requests within a view,
  replicates them as records of a Berkeley DB database (\<open>src/src/db\<close>) and, once a quorum has
  stored a prefix of them, announces their record numbers to the proxy, which reads the records and
  executes them on its server.

  \<^bold>\<open>The model\<close>

  \<^item> \<open>Prelude\<close>: fixed-width words, the three states of a pointer, little-endian layout of structs in
    byte lists, and the locale \<open>codec\<close> of an encoder and its decoder, with an interpretation for
    every struct that is sent or stored. \<open>Loops\<close>: counted loops over 64-bit numbers (locale
    \<open>counted_loop\<close>). \<open>Streams\<close>: loops that cut a stream into messages (locale \<open>frame_reader\<close>,
    interpreted for the node's and the proxy's reading loop).
  \<^item> \<open>Common\<close> (\<open>util/common-structure.c\<close>): views, view stamps, their 64-bit record numbers, times.
  \<^item> \<open>Db\<close> (\<open>db/db-interface.c\<close>): the record store (locale \<open>record_store\<close>) over Berkeley DB.
  \<^item> \<open>ConsensusMsg\<close>, \<open>Consensus\<close> (\<open>consensus-msg.h\<close>, \<open>consensus.c\<close>): every function of the component;
    the record \<open>consensus_component\<close> has the struct's fields, the database and the list of the calls
    the component has made (\<open>effects\<close>: messages sent, requests handed to the user).
  \<^item> \<open>ReplicaMsg\<close>, \<open>Node\<close>, \<open>Election\<close>, \<open>Replica\<close> (\<open>message.c\<close>, \<open>replica.c\<close>, \<open>node.h\<close>,
    \<open>view_controller.h\<close>): messages between nodes, timers, connections, pings, change of view,
    leader election, dispatch, framing and initialisation. \<open>node\<close> extends \<open>consensus_component\<close>,
    whose pointers lead into the node.
  \<^item> \<open>Config\<close>, \<open>Proxy\<close> (\<open>config-comp.c\<close>, \<open>config-proxy.c\<close>, \<open>proxy.c\<close>): configuration and the proxy.
  \<^item> \<open>Start\<close> (\<open>main.c\<close>, \<open>client-ld-preload/pctern.c\<close>, \<open>enter_sys.c\<close>): the program's entry and
    the preloaded library.

  Conventions. A definition has the name of its C function; a loop of the function is a definition
  of its own (\<open>..._loop\<close>, \<open>..._each\<close>). Integers have their width and wrap around. The result
  \<open>None\<close> means that the call has no result: an assertion fails, memory is accessed outside an
  object or through \<open>NULL\<close> or a freed pointer, or a loop does not end (\<open>partial_function\<close>, so no
  fuel is needed). What is not under \<open>src\<close> is in the record \<open>env\<close>: the allocator, the contents of
  fresh memory, the clock, Berkeley DB and libevent's constructors; what the code relies on is
  stated by \<open>bdb_contract\<close> (a stored value is found again, other keys are untouched, a failed
  operation changes nothing) and \<open>malloc_contract\<close> (a block has at least the size asked for),
  and \<open>mem_env\<close> and \<open>log_env\<close> are environments that meet them, in which witnesses run.
  \<open>malloc_usable\<close> is the usable size of a block: a write behind the size asked for but within the
  usable one has a result, as it has in the running program. Calls between the threads
  (\<open>bufferevent_write\<close>, callbacks of the component) append to lists.

  \<^bold>\<open>What is shown\<close>

  \<^item> One view of a group (\<open>ConsensusView\<close>, \<open>GroupLeader\<close>, \<open>GroupFollower\<close>, \<open>Group\<close>,
    \<open>Replication\<close>). \<open>group_step\<close> lets any node handle any message that was sent to it, in any
    order, repeatedly or never, submit a request or make progress. In every reachable state a request
    that was executed anywhere is stored by a majority, and so by some node of every majority;
    all nodes execute prefixes of one sequence, in order and without a gap; and the group
    refines a replicated log (locale \<open>simulation\<close>): every state stands for a log (\<open>log_of\<close>), and
    every step is a sequence of steps of the log, which appends a request, stores one of it at a node, or
    gives a user the next one when a majority has stored it. The group has at most 31 nodes (\<open>node_bits\<close> shows why), blocks
    below 4 GB, and request numbers that do not run out (\<open>room\<close>).
  \<^item> Validity of that view (\<open>GroupValidity\<close>): \<open>serve_step\<close> is a \<open>group_step\<close> in which only requests of a
    given set are submitted, and whatever is executed is one of them, unchanged, also when a follower
    forwarded it.
  \<^item> Liveness of that view (\<open>GroupReturns\<close>, \<open>GroupLiveness\<close>; locale \<open>gathering\<close>): when nothing fails,
    the operations return, and from every reachable state the leader and the nodes of a majority
    have steps after which the leader has executed every request it has numbered. Followers learn
    of requests that they have missed through \<open>build_missing_ack\<close>, which writes past its block
    (\<open>missing_ack_overflows\<close>), so nothing of that kind is stated for them.
  \<^item> Single operations of the component (\<open>ConsensusLemmas\<close>, \<open>ConsensusExec\<close>, \<open>ConsensusFacts\<close>,
    \<open>ConsensusProps\<close>): what the leader commits and a follower delivers, that an acknowledged request
    is stored, how a request is replicated and counted, and that quorums intersect.
  \<^item> The run of one node (\<open>NodeShape\<close>, \<open>NodeRun\<close>): \<open>node_step\<close> is one callback that libevent's loop may
    call, with any input. From the initialisation by any configuration on, every such step keeps the
    shape on which the code relies (\<open>node_ok\<close>), so that a node can always send to its peers.
  \<^item> The run of one proxy (\<open>ProxyRun\<close>): likewise \<open>proxy_step\<close> is one callback of the proxy's loop, an
    announcement, a wake-up, or libevent's sending of what was written. From \<open>proxy_init\<close> and
    \<open>proxy_run\<close> on every step keeps \<open>proxy_ok\<close>, and so every callback returns when memory suffices
    (\<open>rich\<close>); the client's data must stay below \<open>2 ^ 64 - 80\<close> bytes, where its size wraps around, and
    a wake-up must find requests in the records that were announced (\<open>performable\<close>).
  \<^item> Messages and streams (\<open>NodeProps\<close>, \<open>FramingProps\<close>): sending to all peers, cutting the stream into
    messages, and the way of a message from one component to the other.
  \<^item> Election (\<open>ElectionLemmas\<close>, \<open>ElectionRuns\<close>, \<open>ElectionProps\<close>): a node's view moves by one, a
    promise is never taken back, an acceptor answers only after storing, a learner announces exactly
    with a majority, a proposer takes the value of the highest accepted number; and yet two nodes can
    be elected for one view (\<open>two_leaders_of_one_view\<close>).
  \<^item> From client to server (\<open>ClientStream\<close>, \<open>ProxyProps\<close>): the client's data reaches the proxy, the
    consensus component and the real server unchanged; the proxy follows its node's commit point,
    and executes the records in order and across views.
  \<^item> The service (\<open>GroupData\<close>, \<open>Servers\<close>, \<open>ServersReturn\<close>): group, databases and proxies together.
    When no follower has a record of the view at its beginning (\<open>view_is_new\<close>), what a follower has
    stored of the view is the leader's data, so two nodes execute the same requests, and the servers of
    the nodes perform prefixes of one sequence of requests; when only proxies submit, every proxy
    returns from performing them, so no server gets stuck. This holds of every node to which no reply
    with a lost record was sent (\<open>unanswered\<close>): the reply lacks the end of the record, and what the
    node then stores may differ. So recovery of lost records is outside of these theorems, for the node
    that recovers; with glibc's allocator building such a reply is a memory error
    (\<open>mem_env_unanswered\<close>).
  \<^item> Where the code fails (\<open>ConsensusErrors\<close> and parts of the other theories): blocks that are
    allocated too small, sizes that wrap around, loops that never end, freed objects that are used.

  \<^bold>\<open>Not modelled\<close>

  The event loops themselves (\<open>system_run\<close>, the end of \<open>proxy_run\<close>): libevent decides when a handler
  runs, and the handlers are the model's operations (\<open>node_step\<close> and \<open>proxy_step\<close> let it
  decide for any of them). Logging macros (\<open>debug.h\<close>) and \<open>hexdump\<close>, which
  only print. Message types that no code builds or reads. The vendored \<open>uthash.h\<close> (its use is
  \<open>hash_get\<close>), Mongoose and Aget (a test load), the test clients and servers and the experiments
  under \<open>src/misc\<close>, which are not part of the replication library.
\<close>

end
